(* ===== verification/Kantan_Prelude.thy ===== *)
theory Kantan_Prelude
  imports Main "HOL-Library.Word" "HOL-Library.List_Lexorder" "HOL-Library.Sublist"
begin

text \<open>
  The prelude of the KantanDB development: the types every component shares (bytes,
  Go strings as byte sequences, the sentinel errors and results), the order of
  byte sequences that \<open>bytes.Compare\<close> and Pebble use, and the generic lemmas and
  collections that the component proofs rest on.
\<close>

section \<open>Bytes and Go strings\<close>

text \<open>
  A Go string and a Go byte slice are both sequences of bytes; a byte is an 8-bit word,
  so its arithmetic wraps as Go's does.  The order on \<^typ>\<open>8 word list\<close> that
  \<open>List_Lexorder\<close> provides is the lexicographic order of \<open>bytes.Compare\<close>.
\<close>

type_synonym byte = "8 word"
type_synonym bytes = "8 word list"

definition str :: "string \<Rightarrow> bytes" where
  "str s = map of_char s"

lemma length_str [simp]: "length (str s) = length s"
  by (simp add: str_def)

named_theorems key_simps \<open>unfolding of the key builders\<close>
named_theorems result_simps \<open>successful and failing results of monadic code\<close>

section \<open>Errors and results\<close>

text \<open>
  The sentinel errors of the program (storage.go, index.go, validation.go, query.go,
  query\_cursor.go, crypto.go, bulk.go, patch.go) and of the packages it calls whose
  identity it tests (\<open>pebble.ErrClosed\<close>, the two context errors), the line number that a
  \<open>bulkLineError\<close> adds, and a run-time panic (an index or a slice out of range).  A Go error value
  is modelled by the list of sentinels that its chain holds, in order: \<open>errors.Is\<close>
  searches that chain, \<open>fmt.Errorf\<close> with \<open>%w\<close> and \<open>errors.Join\<close> append to
  it, and \<open>errors.New\<close> without a package variable gives the empty chain.
\<close>

datatype sentinel =
    ErrDBExists | ErrDBNotFound | ErrDocExists | ErrDocNotFound | ErrPreconditionFailed
  | ErrCorruptData | ErrStoreUnavailable
  | ErrIndexNotFound | ErrInvalidIndex | ErrInvalidIndexValue | ErrUnsupportedIdxValue
  | ErrInvalidName | ErrInvalidID | ErrInvalidDoc | ErrBodyTooLarge | ErrInvalidETag
  | ErrInvalidIfMatch
  | ErrInvalidPath | ErrQueryLimit | ErrInvalidQueryCursor | ErrInvalidStoreKey
  | ErrBulkEmpty | ErrBulkLimit | ErrBulkRead | ErrInvalidPatch
  | ErrPebbleClosed | ErrDeadlineExceeded | ErrCanceled
  | BulkLine nat | GoPanic

type_synonym err = "sentinel list"
type_synonym 'a result = "err + 'a"

definition errors_Is :: "err \<Rightarrow> sentinel \<Rightarrow> bool" where
  "errors_Is e k = List.member e k"

lemma errors_Is_iff [simp]: "errors_Is e k \<longleftrightarrow> k \<in> set e"
  by (simp add: errors_Is_def)

fun bindE :: "('e + 'a) \<Rightarrow> ('a \<Rightarrow> 'e + 'b) \<Rightarrow> 'e + 'b" where
  "bindE (Inl e) f = Inl e"
| "bindE (Inr a) f = f a"

text \<open>\<open>if cond \{ return err \}\<close>: the guard fails with the error, or continues.\<close>

definition guardE :: "bool \<Rightarrow> 'e \<Rightarrow> 'e + unit" where
  "guardE ok e = (if ok then Inr () else Inl e)"

definition mapErr :: "('e \<Rightarrow> 'f) \<Rightarrow> ('e + 'a) \<Rightarrow> 'f + 'a" where
  "mapErr f r = (case r of Inl e \<Rightarrow> Inl (f e) | Inr a \<Rightarrow> Inr a)"

definition isOk :: "('e + 'a) \<Rightarrow> bool" where
  "isOk r = (case r of Inl _ \<Rightarrow> False | Inr _ \<Rightarrow> True)"

lemma bindE_Inr_iff [result_simps]: "bindE r f = Inr b \<longleftrightarrow> (\<exists>a. r = Inr a \<and> f a = Inr b)"
  by (cases r) auto

lemma bindE_Inl_iff [result_simps]:
  "bindE r f = Inl e \<longleftrightarrow> r = Inl e \<or> (\<exists>a. r = Inr a \<and> f a = Inl e)"
  by (cases r) auto

lemma bindE_assoc: "bindE (bindE r f) g = bindE r (\<lambda>a. bindE (f a) g)"
  by (cases r) auto

lemma guardE_simps [simp]:
  "guardE True e = Inr ()" "guardE False e = Inl e"
  by (simp_all add: guardE_def)

lemma guardE_Inr_iff [result_simps]: "guardE b e = Inr u \<longleftrightarrow> b"
  by (simp add: guardE_def)

lemma guardE_Inl_iff [result_simps]: "guardE b e = Inl e' \<longleftrightarrow> \<not> b \<and> e' = e"
  by (auto simp: guardE_def)

lemma mapErr_simps [simp]: "mapErr f (Inl e) = Inl (f e)" "mapErr f (Inr a) = Inr a"
  by (simp_all add: mapErr_def)

lemma mapErr_Inr_iff [result_simps]: "mapErr f r = Inr a \<longleftrightarrow> r = Inr a"
  by (cases r) auto

lemma mapErr_Inl_iff [result_simps]: "mapErr f r = Inl e \<longleftrightarrow> (\<exists>e'. r = Inl e' \<and> e = f e')"
  by (cases r) auto

lemma isOk_simps [simp]: "isOk (Inr a)" "\<not> isOk (Inl e)"
  by (simp_all add: isOk_def)

lemma isOk_iff: "isOk r \<longleftrightarrow> (\<exists>a. r = Inr a)"
  by (cases r) auto

section \<open>The lexicographic order of byte sequences\<close>

lemma append_less_append [simp]:
  fixes p :: "'a::linorder list"
  shows "p @ x < p @ y \<longleftrightarrow> x < y"
  by (induction p) auto

lemma append_le_append [simp]:
  fixes p :: "'a::linorder list"
  shows "p @ x \<le> p @ y \<longleftrightarrow> x \<le> y"
  by (induction p) auto

lemma prefix_imp_le: "prefix p k \<Longrightarrow> p \<le> (k :: 'a::linorder list)"
  by (auto elim!: prefixE simp: append_le_append [of p "[]", simplified])

lemma less_append_of_less:
  fixes x y :: "'a::linorder list"
  assumes "x < y" "\<not> prefix x y"
  shows "x @ a < y @ b"
  using assms
proof (induction x arbitrary: y)
  case Nil
  then show ?case by simp
next
  case (Cons c x)
  then show ?case by (cases y) auto
qed

lemma prefix_append_cases:
  assumes "x @ a = y @ b"
  shows "prefix x y \<or> prefix y x"
  using assms by (metis prefix_same_cases prefixI)

text \<open>The keys that extend a prefix are an interval of the order.\<close>

lemma le_prefix_le:
  fixes p :: "'a::linorder list"
  assumes "p \<le> k" "k \<le> p @ s"
  shows "prefix p k"
  using assms
proof (induction p arbitrary: k)
  case Nil
  then show ?case by simp
next
  case (Cons c p)
  then show ?case by (cases k) auto
qed

text \<open>\<open>bytes.Compare\<close>, as the sign of the comparison.\<close>

definition bytesCompare :: "bytes \<Rightarrow> bytes \<Rightarrow> int" where
  "bytesCompare a b = (if a < b then -1 else if a = b then 0 else 1)"

lemma bytesCompare_iff [simp]:
  "bytesCompare a b < 0 \<longleftrightarrow> a < b" "bytesCompare a b = 0 \<longleftrightarrow> a = b"
  "0 < bytesCompare a b \<longleftrightarrow> b < a" "bytesCompare a b \<le> 0 \<longleftrightarrow> a \<le> b"
  "0 \<le> bytesCompare a b \<longleftrightarrow> b \<le> a"
  by (auto simp: bytesCompare_def)

end
