(* ===== verification/Byte_Codec.thy ===== *)
theory Byte_Codec
  imports Kantan_Prelude
begin

text \<open>
  The byte-level codecs of the Go standard library that the record and key formats are
  built from: \<open>binary.BigEndian\<close>, \<open>binary.AppendUvarint\<close>/\<open>Uvarint\<close>,
  \<open>hex.EncodeToString\<close>/\<open>Decode\<close>, and the length-prefixed parts of index.go
  (\<open>appendPart\<close>, \<open>readPart\<close>).
\<close>

unbundle bit_operations_syntax

section \<open>Big-endian 64-bit integers\<close>

definition putUint64 :: "64 word \<Rightarrow> bytes" where
  "putUint64 w = map (\<lambda>i. ucast (drop_bit (8 * (7 - i)) w)) [0..<8]"

definition getUint64 :: "bytes \<Rightarrow> 64 word" where
  "getUint64 b = foldl (\<lambda>w x. push_bit 8 w OR ucast x) 0 (take 8 b)"

section \<open>Unsigned varints\<close>

text \<open>\<open>for x >= 0x80 \{ append(byte(x) | 0x80); x >>= 7 \}; append(byte(x))\<close>\<close>

fun appendUvarint :: "bytes \<Rightarrow> nat \<Rightarrow> bytes" where
  "appendUvarint key x =
     (if x < 128 then key @ [of_nat x]
      else appendUvarint (key @ [of_nat x OR 0x80]) (x div 128))"

declare appendUvarint.simps [simp del]

text \<open>
  The loop of \<open>binary.Uvarint\<close> at byte number \<open>i\<close> with accumulator \<open>x\<close> and shift \<open>s\<close>:
  the value and the number of bytes read, which is 0 for a truncated buffer and negative
  on overflow.
\<close>

fun uvarint_loop :: "nat \<Rightarrow> 64 word \<Rightarrow> nat \<Rightarrow> bytes \<Rightarrow> 64 word \<times> int" where
  "uvarint_loop i x s [] = (0, 0)"
| "uvarint_loop i x s (b # bs) =
     (if i = 10 then (0, - (int i + 1))
      else if b < 0x80 then
        (if i = 9 \<and> b > 1 then (0, - (int i + 1))
         else (x OR push_bit s (ucast b), int i + 1))
      else uvarint_loop (i + 1) (x OR push_bit s (ucast (b AND 0x7f))) (s + 7) bs)"

definition uvarint :: "bytes \<Rightarrow> 64 word \<times> int" where
  "uvarint b = uvarint_loop 0 0 0 b"

section \<open>Length-prefixed parts\<close>

definition appendPart :: "bytes \<Rightarrow> bytes \<Rightarrow> bytes" where
  "appendPart key part = appendUvarint key (length part) @ part"

text \<open>\<open>ok = false\<close> is \<open>None\<close>; the conversions between \<open>int\<close> and \<open>uint64\<close> keep the value.\<close>

definition readPart :: "bytes \<Rightarrow> (bytes \<times> bytes) option" where
  "readPart key =
     (let (len, size) = uvarint key in
      if size \<le> 0 \<or> unat len > length key - nat size then None
      else let end = nat size + unat len in
        Some (take (end - nat size) (drop (nat size) key), drop end key))"

section \<open>Hexadecimal\<close>

definition hexDigit :: "byte \<Rightarrow> byte" where
  "hexDigit n = (if n < 10 then 48 + n else 87 + n)"

definition hexEncode :: "bytes \<Rightarrow> bytes" where
  "hexEncode b = concat (map (\<lambda>x. [hexDigit (drop_bit 4 x), hexDigit (x AND 0x0f)]) b)"

definition fromHexChar :: "byte \<Rightarrow> byte option" where
  "fromHexChar c =
     (if 48 \<le> c \<and> c \<le> 57 then Some (c - 48)
      else if 97 \<le> c \<and> c \<le> 102 then Some (c - 97 + 10)
      else if 65 \<le> c \<and> c \<le> 70 then Some (c - 65 + 10)
      else None)"

fun hexDecode :: "bytes \<Rightarrow> bytes option" where
  "hexDecode [] = Some []"
| "hexDecode [c] = None"
| "hexDecode (a # b # cs) =
     (case (fromHexChar a, fromHexChar b, hexDecode cs) of
        (Some h, Some l, Some r) \<Rightarrow> Some ((push_bit 4 h OR l) # r)
      | _ \<Rightarrow> None)"

section \<open>Laws of the big-endian encoding\<close>

lemma length_putUint64 [simp]: "length (putUint64 w) = 8"
  by (simp add: putUint64_def)


text \<open>The base-256 digits of a number, most significant first.\<close>

fun beDigits :: "nat \<Rightarrow> nat \<Rightarrow> bytes" where
  "beDigits 0 n = []"
| "beDigits (Suc k) n = of_nat (n div 256 ^ k) # beDigits k (n mod 256 ^ k)"

lemma of_nat_byte_less: "m < 256 \<Longrightarrow> n < 256 \<Longrightarrow> (of_nat m :: byte) < of_nat n \<longleftrightarrow> m < n"
  by (simp add: word_less_nat_alt unat_of_nat)

lemma of_nat_byte_eq: "m < 256 \<Longrightarrow> n < 256 \<Longrightarrow> (of_nat m :: byte) = of_nat n \<longleftrightarrow> m = n"
  by (simp add: word_unat_eq_iff unat_of_nat)

lemma less_iff_div_mod:
  fixes m n b :: nat
  assumes "0 < b"
  shows "m < n \<longleftrightarrow> m div b < n div b \<or> m div b = n div b \<and> m mod b < n mod b"
proof (cases "m div b = n div b")
  case True
  then show ?thesis
    by (metis add_less_cancel_left div_mult_mod_eq order_less_irrefl)
next
  case False
  then consider "m div b < n div b" | "n div b < m div b" by linarith
  then show ?thesis
  proof cases
    case 1
    then have "m < n" by (meson div_le_mono leD leI)
    with 1 show ?thesis by simp
  next
    case 2
    then have "n < m" by (meson div_le_mono leD leI)
    with 2 show ?thesis by simp
  qed
qed

lemma beDigits_less:
  "m < 256 ^ k \<Longrightarrow> n < 256 ^ k \<Longrightarrow> beDigits k m < beDigits k n \<longleftrightarrow> m < n"
proof (induction k arbitrary: m n)
  case 0
  then show ?case by simp
next
  case (Suc k)
  let ?b = "256 ^ k :: nat"
  have d: "m div ?b < 256" "n div ?b < 256"
    using Suc.prems by (simp_all add: less_mult_imp_div_less)
  have IH: "beDigits k (m mod ?b) < beDigits k (n mod ?b) \<longleftrightarrow> m mod ?b < n mod ?b"
    by (rule Suc.IH) simp_all
  have "m < n \<longleftrightarrow> m div ?b < n div ?b \<or> m div ?b = n div ?b \<and> m mod ?b < n mod ?b"
    by (rule less_iff_div_mod) simp
  with IH d show ?case by (simp add: of_nat_byte_less of_nat_byte_eq)
qed

lemma byte_of_drop_bit: "(ucast (drop_bit (8 * k) (w :: 64 word)) :: byte) = of_nat (unat w div 256 ^ k)"
proof -
  have "unat (drop_bit (8 * k) w) = unat w div 256 ^ k"
    unfolding unat_drop_bit_eq by (simp add: drop_bit_eq_div power_mult)
  then show ?thesis
    by (simp add: word_unat_eq_iff unat_of_nat unsigned_ucast_eq take_bit_eq_mod)
qed

lemma byte_mod: "j < k \<Longrightarrow> (of_nat (n mod 256 ^ k div 256 ^ j) :: byte) = of_nat (n div 256 ^ j)"
proof -
  assume "j < k"
  then obtain m where k: "k = j + Suc m" using less_imp_Suc_add by auto
  have "n mod 256 ^ k = 256 ^ j * (n div 256 ^ j mod 256 ^ Suc m) + n mod 256 ^ j"
    unfolding k power_add by (rule mod_mult2_eq)
  then have "n mod 256 ^ k div 256 ^ j = n div 256 ^ j mod 256 ^ Suc m"
    by simp
  then show ?thesis
    by (simp add: word_unat_eq_iff unat_of_nat mod_mod_cancel)
qed

lemma beDigits_map: "beDigits k n = map (\<lambda>j. of_nat (n div 256 ^ j)) (rev [0..<k])"
proof (induction k arbitrary: n)
  case 0
  then show ?case by simp
next
  case (Suc k)
  show ?case by (simp add: Suc.IH byte_mod)
qed

lemma putUint64_beDigits: "putUint64 w = beDigits 8 (unat w)"
proof -
  have "map (\<lambda>j. of_nat (unat w div 256 ^ j) :: byte) (rev [0..<8]) =
    map (\<lambda>i. of_nat (unat w div 256 ^ (7 - i))) [0..<8]"
    by (simp add: upt_rec)
  then show ?thesis
    unfolding beDigits_map putUint64_def byte_of_drop_bit by simp
qed

lemma putUint64_less [simp]: "putUint64 v < putUint64 w \<longleftrightarrow> v < w"
  using beDigits_less [of "unat v" 8 "unat w"] unsigned_less [of v] unsigned_less [of w]
  by (simp add: putUint64_beDigits word_less_nat_alt)

lemma putUint64_inject [simp]: "putUint64 v = putUint64 w \<longleftrightarrow> v = w"
  by (metis linorder_neq_iff putUint64_less)

lemma shift_or_byte: "push_bit 8 (acc :: 64 word) OR ucast (x :: byte) = push_bit 8 acc + ucast x"
proof -
  have "push_bit 8 acc AND ucast x = 0"
    by (rule bit_eqI) (auto simp: bit_simps dest: bit_imp_le_length)
  then show ?thesis by (simp add: disjunctive_add_eq_or)
qed

lemma foldl_beDigits:
  "n < 256 ^ k \<Longrightarrow>
   foldl (\<lambda>w x. push_bit 8 w OR ucast x) (acc :: 64 word) (beDigits k n) = of_nat (256 ^ k) * acc + of_nat n"
proof (induction k arbitrary: n acc)
  case 0
  then show ?case by simp
next
  case (Suc k)
  have q: "n div 256 ^ k < 256"
    using Suc.prems by (simp add: less_mult_imp_div_less)
  then have u: "ucast (of_nat (n div 256 ^ k) :: byte) = (of_nat (n div 256 ^ k) :: 64 word)"
    by (simp add: word_unat_eq_iff unat_of_nat unsigned_ucast_eq take_bit_nat_eq_self)
  have "of_nat n = of_nat (256 ^ k) * of_nat (n div 256 ^ k) + (of_nat (n mod 256 ^ k) :: 64 word)"
    by (metis mult_div_mod_eq of_nat_add of_nat_mult)
  moreover have "foldl (\<lambda>w x. push_bit 8 w OR ucast x) acc (beDigits (Suc k) n) =
      of_nat (256 ^ k) * (push_bit 8 acc + of_nat (n div 256 ^ k)) + of_nat (n mod 256 ^ k)"
    using Suc.IH [of "n mod 256 ^ k"] by (simp add: shift_or_byte u del: of_nat_power)
  ultimately show ?case
    by (simp add: push_bit_eq_mult algebra_simps)
qed

lemma getUint64_putUint64 [simp]: "getUint64 (putUint64 w @ r) = w"
  using foldl_beDigits [of "unat w" 8 0] unsigned_less [of w]
  by (simp add: getUint64_def putUint64_beDigits [symmetric])

section \<open>Laws of the varint encoding\<close>

lemma appendUvarint_append: "appendUvarint key x = key @ appendUvarint [] x"
proof (induction x arbitrary: key rule: less_induct)
  case (less x)
  show ?case
  proof (cases "x < 128")
    case True
    then show ?thesis by (simp add: appendUvarint.simps)
  next
    case False
    then have "x div 128 < x" by simp
    with less.IH show ?thesis
      by (metis False append.assoc append_Nil appendUvarint.simps)
  qed
qed

lemma byte_masks: "(0x80 :: byte) = 2 ^ 7" "(0x7f :: byte) = mask 7" "(0x0f :: byte) = mask 4"
  by (simp_all add: mask_numeral)

text \<open>A property of bytes holds if it holds of the 256 of them.\<close>

lemma byte_all:
  assumes "list_all (\<lambda>k. P (of_nat k :: byte)) [0..<256]"
  shows "P b"
proof -
  have "unat b \<in> set [0..<256]" using unsigned_less [of b] by simp
  with assms have "P (of_nat (unat b))" unfolding list_all_iff by blast
  then show ?thesis by simp
qed

lemma byte_cont_and: "((b :: byte) OR 0x80) AND 0x7f = b AND 0x7f"
  by (rule byte_all) code_simp

lemma byte_cont_ge: "\<not> (b :: byte) OR 0x80 < 0x80"
  using le_word_or1 [of "0x80" b] by (simp add: not_less)

lemma ucast_of_nat_and_7f: "(ucast ((of_nat n :: byte) AND 0x7f) :: 64 word) = of_nat (n mod 128)"
proof -
  have "(of_nat n :: byte) AND 0x7f = take_bit 7 (of_nat n)"
    unfolding byte_masks by (simp add: take_bit_eq_mask)
  then have "(of_nat n :: byte) AND 0x7f = of_nat (n mod 128)"
    unfolding take_bit_of_nat by (simp add: take_bit_eq_mod)
  then show ?thesis
    by (simp add: word_unat_eq_iff unat_of_nat unsigned_ucast_eq take_bit_eq_mod)
qed

lemma of_nat_split_7: "(of_nat n :: 64 word) = of_nat (n mod 128) OR push_bit 7 (of_nat (n div 128))"
proof -
  have "n = take_bit 7 n OR push_bit 7 (drop_bit 7 n)"
    by (rule bit_eqI) (simp add: bit_simps, metis le_add_diff_inverse not_less)
  then have "n = (n mod 128) OR push_bit 7 (n div 128)"
    by (simp add: take_bit_eq_mod drop_bit_eq_div)
  then show ?thesis
    by (metis of_nat_or_eq push_bit_of_nat)
qed

lemma uvarint_loop_append:
  assumes "i \<le> 9" "n < 2 ^ (64 - 7 * i)"
  shows "uvarint_loop i x (7 * i) (appendUvarint [] n @ rest) =
    (x OR push_bit (7 * i) (of_nat n), int i + int (length (appendUvarint [] n)))"
  using assms
proof (induction n arbitrary: i x rule: less_induct)
  case (less n)
  show ?case
  proof (cases "n < 128")
    case True
    have "(of_nat n :: byte) < 0x80"
      using True by (simp add: word_less_nat_alt unat_of_nat)
    moreover have "\<not> (i = 9 \<and> (of_nat n :: byte) > 1)"
      using less.prems(2) by (auto simp: word_less_nat_alt unat_of_nat)
    moreover have "ucast (of_nat n :: byte) = (of_nat n :: 64 word)"
      using True by (simp add: word_unat_eq_iff unat_of_nat unsigned_ucast_eq take_bit_nat_eq_self)
    ultimately show ?thesis
      using True less.prems(1) by (simp add: appendUvarint.simps [of "[]" n])
  next
    case False
    have i8: "i \<le> 8"
    proof (rule ccontr)
      assume "\<not> i \<le> 8"
      with less.prems(1) have "i = 9" by simp
      with less.prems(2) have "n < 2 ^ 1" by simp
      with False show False by simp
    qed
    then have "(2::nat) ^ (64 - 7 * i) = 128 * 2 ^ (64 - 7 * Suc i)"
    proof -
      have "64 - 7 * i = 7 + (64 - 7 * Suc i)" using i8 by simp
      then show ?thesis by (simp only: power_add) simp
    qed
    with less.prems(2) have "n div 128 < 2 ^ (64 - 7 * Suc i)"
      by (simp add: less_mult_imp_div_less mult.commute)
    with False i8 have IH: "uvarint_loop (Suc i) y (7 * Suc i) (appendUvarint [] (n div 128) @ rest) =
      (y OR push_bit (7 * Suc i) (of_nat (n div 128)),
        int (Suc i) + int (length (appendUvarint [] (n div 128))))" for y
      by (intro less.IH) auto
    have app: "appendUvarint [] n = (of_nat n OR 0x80) # appendUvarint [] (n div 128)"
      using False by (simp add: appendUvarint.simps [of "[]" n] appendUvarint_append [of "[_]"])
    have "push_bit (7 * i) (of_nat n :: 64 word) =
      push_bit (7 * i) (of_nat (n mod 128)) OR push_bit (7 * Suc i) (of_nat (n div 128))"
      by (subst of_nat_split_7) (simp add: push_bit_or push_bit_push_bit add.commute)
    with IH i8 show ?thesis
      by (simp add: app byte_cont_ge byte_cont_and ucast_of_nat_and_7f or.assoc add.commute)
  qed
qed

lemma uvarint_append:
  "n < 2 ^ 64 \<Longrightarrow> uvarint (appendUvarint [] n @ rest) = (of_nat n, int (length (appendUvarint [] n)))"
  using uvarint_loop_append [of 0 n 0 rest] by (simp add: uvarint_def)

lemma appendUvarint_ne [simp]: "appendUvarint key n \<noteq> []"
  by (subst appendUvarint_append, subst appendUvarint.simps) (simp add: appendUvarint_append [of "[_]"])

section \<open>Laws of the parts\<close>

lemma appendPart_append: "appendPart key p = key @ appendPart [] p"
  by (simp add: appendPart_def appendUvarint_append [of key])

lemma readPart_append [simp]:
  assumes "length p < 2 ^ 64"
  shows "readPart (appendPart [] p @ rest) = Some (p, rest)"
proof -
  let ?h = "appendUvarint [] (length p)"
  have u: "unat (of_nat (length p) :: 64 word) = length p"
    using assms by (simp add: unat_of_nat)
  have "uvarint (?h @ p @ rest) = (of_nat (length p), int (length ?h))"
    using assms by (rule uvarint_append)
  moreover have "length ?h > 0" by simp
  ultimately show ?thesis
    by (simp add: readPart_def appendPart_def u Let_def del: length_greater_0_conv)
qed

lemma readPart_appendPart [simp]: "length p < 2 ^ 64 \<Longrightarrow> readPart (appendPart [] p) = Some (p, [])"
  using readPart_append [of p "[]"] by simp

lemma appendPart_inject:
  assumes "length p < 2 ^ 64" "length q < 2 ^ 64"
  shows "appendPart k p @ r = appendPart k q @ s \<longleftrightarrow> p = q \<and> r = s"
proof
  assume "appendPart k p @ r = appendPart k q @ s"
  then have "readPart (appendPart [] p @ r) = readPart (appendPart [] q @ s)"
    by (simp add: appendPart_append [of k])
  with assms show "p = q \<and> r = s" by simp
qed simp

section \<open>Laws of the hexadecimal encoding\<close>

lemma length_hexEncode [simp]: "length (hexEncode b) = 2 * length b"
  by (induction b) (simp_all add: hexEncode_def)

lemma hexEncode_simps [simp]:
  "hexEncode [] = []"
  "hexEncode (x # xs) = hexDigit (drop_bit 4 x) # hexDigit (x AND 0x0f) # hexEncode xs"
  by (simp_all add: hexEncode_def)

lemma hexEncode_append [simp]: "hexEncode (a @ b) = hexEncode a @ hexEncode b"
  by (simp add: hexEncode_def)

lemma unat_nibbles: "unat (drop_bit 4 (x :: byte)) < 16" "unat ((x :: byte) AND 0x0f) < 16"
proof -
  have "unat x < 256" using unsigned_less [of x] by simp
  then show "unat (drop_bit 4 x) < 16"
    unfolding unat_drop_bit_eq by (simp add: drop_bit_eq_div)
  have "unat (x AND 0x0f) = take_bit 4 (unat x)"
    unfolding byte_masks take_bit_eq_mask [symmetric] by (rule unsigned_take_bit_eq)
  then show "unat (x AND 0x0f) < 16"
    by (simp add: take_bit_eq_mod)
qed

lemma fromHexChar_hexDigit:
  assumes "unat (n :: byte) < 16"
  shows "fromHexChar (hexDigit n) = Some n"
proof -
  have "list_all (\<lambda>k. fromHexChar (hexDigit (of_nat k)) = Some (of_nat k)) [0..<16]"
    by code_simp
  with assms have "fromHexChar (hexDigit (of_nat (unat n))) = Some (of_nat (unat n))"
    unfolding list_all_iff by (simp del: of_nat_unat)
  then show ?thesis by simp
qed

lemma join_nibbles: "push_bit 4 (drop_bit 4 (x :: byte)) OR (x AND 0x0f) = x"
  unfolding byte_masks by (rule bit_eqI) (auto simp: bit_simps not_less)

lemma hexDecode_hexEncode [simp]: "hexDecode (hexEncode b) = Some b"
  by (induction b) (simp_all add: fromHexChar_hexDigit unat_nibbles join_nibbles)

end
