(* ===== verification/Base64.thy ===== *)
theory Base64
  imports Byte_Codec
begin

text \<open>
  What the cursors use of \<open>encoding/base64\<close>: \<open>RawURLEncoding\<close>, without padding.  The decoder skips
  carriage returns and newlines and does not check unused trailing bits, as Go's does.
\<close>

section \<open>Alphabet\<close>

definition b64Char :: "nat \<Rightarrow> byte" where
  "b64Char n =
     (if n < 26 then of_nat (65 + n) else if n < 52 then of_nat (97 + (n - 26))
      else if n < 62 then of_nat (48 + (n - 52)) else if n = 62 then 45 else 95)"

definition b64Val :: "byte \<Rightarrow> nat option" where
  "b64Val c =
     (if 65 \<le> c \<and> c \<le> 90 then Some (unat c - 65)
      else if 97 \<le> c \<and> c \<le> 122 then Some (unat c - 97 + 26)
      else if 48 \<le> c \<and> c \<le> 57 then Some (unat c - 48 + 52)
      else if c = 45 then Some 62 else if c = 95 then Some 63 else None)"

section \<open>Coding\<close>

fun b64Encode :: "bytes \<Rightarrow> bytes" where
  "b64Encode [] = []"
| "b64Encode [a] = (let v = unat a * 16 in [b64Char (v div 64), b64Char (v mod 64)])"
| "b64Encode [a, b] =
     (let v = (unat a * 256 + unat b) * 4 in [b64Char (v div 4096), b64Char (v div 64 mod 64), b64Char (v mod 64)])"
| "b64Encode (a # b # c # r) =
     (let v = unat a * 65536 + unat b * 256 + unat c in
      [b64Char (v div 262144), b64Char (v div 4096 mod 64), b64Char (v div 64 mod 64), b64Char (v mod 64)] @ b64Encode r)"

fun b64Values :: "bytes \<Rightarrow> nat list option" where
  "b64Values [] = Some []"
| "b64Values (c # cs) =
     (if c = 13 \<or> c = 10 then b64Values cs
      else case b64Val c of None \<Rightarrow> None
        | Some v \<Rightarrow> (case b64Values cs of None \<Rightarrow> None | Some vs \<Rightarrow> Some (v # vs)))"

fun b64Bytes :: "nat list \<Rightarrow> bytes option" where
  "b64Bytes [] = Some []"
| "b64Bytes [w] = None"
| "b64Bytes [w, x] = Some [of_nat ((w * 64 + x) div 16)]"
| "b64Bytes [w, x, y] = (let v = (w * 4096 + x * 64 + y) div 4 in Some [of_nat (v div 256), of_nat v])"
| "b64Bytes (w # x # y # z # r) =
     (let v = w * 262144 + x * 4096 + y * 64 + z in
      case b64Bytes r of None \<Rightarrow> None
      | Some bs \<Rightarrow> Some (of_nat (v div 65536) # of_nat (v div 256) # of_nat v # bs))"

definition b64Decode :: "bytes \<Rightarrow> bytes option" where
  "b64Decode s = (case b64Values s of None \<Rightarrow> None | Some vs \<Rightarrow> b64Bytes vs)"

definition b64Len :: "nat \<Rightarrow> nat" where
  "b64Len n = n div 3 * 4 + (n mod 3 * 8 + 5) div 6"

section \<open>Laws\<close>

lemma b64Val_Char: "n < 64 \<Longrightarrow> b64Val (b64Char n) = Some n \<and> b64Char n \<noteq> 13 \<and> b64Char n \<noteq> 10"
proof -
  have "list_all (\<lambda>n. b64Val (b64Char n) = Some n \<and> b64Char n \<noteq> 13 \<and> b64Char n \<noteq> 10) [0..<64]" by code_simp
  then show "n < 64 \<Longrightarrow> ?thesis" by (simp add: list_all_iff)
qed

lemma b64Values_map: "\<forall>n \<in> set ns. n < 64 \<Longrightarrow> b64Values (map b64Char ns) = Some ns"
  by (induction ns) (auto simp: b64Val_Char)

lemma byte_bound: "unat (b :: byte) < 256"
  using unsigned_less [of b] by simp

fun b64Digits :: "bytes \<Rightarrow> nat list" where
  "b64Digits [] = []"
| "b64Digits [a] = (let v = unat a * 16 in [v div 64, v mod 64])"
| "b64Digits [a, b] = (let v = (unat a * 256 + unat b) * 4 in [v div 4096, v div 64 mod 64, v mod 64])"
| "b64Digits (a # b # c # r) =
     (let v = unat a * 65536 + unat b * 256 + unat c in
      [v div 262144, v div 4096 mod 64, v div 64 mod 64, v mod 64] @ b64Digits r)"

lemma b64Encode_digits: "b64Encode bs = map b64Char (b64Digits bs)"
  by (induction bs rule: b64Encode.induct) (simp_all add: Let_def)

lemma b64Digits_bound: "\<forall>n \<in> set (b64Digits bs). n < 64"
proof (induction bs rule: b64Digits.induct)
  case (2 a)
  then show ?case using byte_bound [of a] by (auto simp: Let_def)
next
  case (3 a b)
  then show ?case using byte_bound [of a] byte_bound [of b] by (auto simp: Let_def)
next
  case (4 a b c r)
  then show ?case using byte_bound [of a] byte_bound [of b] byte_bound [of c] by (auto simp: Let_def)
qed simp

lemma digits3: "v div 4096 * 4096 + v div 64 mod 64 * 64 + v mod 64 = (v :: nat)"
proof -
  have "v div 64 = v div 4096 * 64 + v div 64 mod 64" using div_mult_mod_eq [of "v div 64" 64] by (simp add: div_mult2_eq [symmetric])
  then show ?thesis using div_mult_mod_eq [of v 64] by linarith
qed

lemma digits4: "v div 262144 * 262144 + v div 4096 mod 64 * 4096 + v div 64 mod 64 * 64 + v mod 64 = (v :: nat)"
proof -
  have "v div 4096 = v div 262144 * 64 + v div 4096 mod 64"
    using div_mult_mod_eq [of "v div 4096" 64] by (simp add: div_mult2_eq [symmetric])
  then show ?thesis using digits3 [of v] by linarith
qed

lemma b64Bytes_Digits: "b64Bytes (b64Digits bs) = Some bs"
proof (induction bs rule: b64Digits.induct)
  case (2 a)
  have e: "(unat a * 16 div 64 * 64 + unat a * 16 mod 64) div 16 = unat a" by (simp only: div_mult_mod_eq)
  show ?case unfolding b64Digits.simps Let_def b64Bytes.simps e by simp
next
  case (3 a b)
  let ?v = "(unat a * 256 + unat b) * 4"
  have "?v div 4096 * 4096 + ?v div 64 mod 64 * 64 + ?v mod 64 = ?v" by (rule digits3)
  then have e: "(?v div 4096 * 4096 + ?v div 64 mod 64 * 64 + ?v mod 64) div 4 = unat a * 256 + unat b" by simp
  have "(unat a * 256 + unat b) div 256 = unat a" "(unat a * 256 + unat b) mod 256 = unat b" using byte_bound [of b] by auto
  then have "of_nat ((unat a * 256 + unat b) div 256) = a" "of_nat (unat a * 256 + unat b) = b"
    by (simp_all only: word_unat_eq_iff unat_of_nat) (use byte_bound [of a] in auto)
  then show ?case unfolding b64Digits.simps Let_def b64Bytes.simps e by simp
next
  case (4 a b c r)
  let ?v = "unat a * 65536 + unat b * 256 + unat c"
  have e: "?v div 262144 * 262144 + ?v div 4096 mod 64 * 4096 + ?v div 64 mod 64 * 64 + ?v mod 64 = ?v" by (rule digits4)
  have v: "?v = (unat a * 256 + unat b) * 256 + unat c" by simp
  have d: "((unat a * 256 + unat b) * 256 + unat c) div 256 = unat a * 256 + unat b"
    "((unat a * 256 + unat b) * 256 + unat c) mod 256 = unat c"
    "(unat a * 256 + unat b) div 256 = unat a" "(unat a * 256 + unat b) mod 256 = unat b"
    using byte_bound [of b] byte_bound [of c] mod_mult_self3 [of "unat a * 256 + unat b" 256 "unat c"] by simp_all
  have "?v div 65536 = ?v div 256 div 256" by (simp add: div_mult2_eq [symmetric])
  then have "?v div 65536 = unat a" "?v div 256 mod 256 = unat b" "?v mod 256 = unat c"
    unfolding v d by simp_all
  then have w: "of_nat (?v div 65536) = a" "of_nat (?v div 256) = b" "of_nat ?v = c"
    by (simp_all only: word_unat_eq_iff unat_of_nat) (use byte_bound [of a] in auto)
  show ?case unfolding b64Digits.simps Let_def append_Cons append_Nil b64Bytes.simps e w
    using 4 by (simp only: option.case)
qed simp

lemma b64Decode_Encode [simp]: "b64Decode (b64Encode bs) = Some bs"
  unfolding b64Encode_digits b64Decode_def b64Values_map [OF b64Digits_bound] by (simp add: b64Bytes_Digits)

lemma length_b64Encode: "length (b64Encode bs) = b64Len (length bs)"
proof (induction bs rule: b64Encode.induct)
  case (4 a b c r)
  have "b64Len (n + 3) = b64Len n + 4" for n :: nat
  proof -
    have "(n + 3) div 3 = n div 3 + 1" "(n + 3) mod 3 = n mod 3" using div_add_self2 [of 3 n] by auto
    then show ?thesis by (simp add: b64Len_def)
  qed
  with 4 show ?case by (simp add: Let_def numeral_3_eq_3)
qed (simp_all add: Let_def b64Len_def)

lemma b64Len_mono: "m \<le> n \<Longrightarrow> b64Len m \<le> b64Len n"
proof (rule lift_Suc_mono_le [of b64Len])
  fix k :: nat
  consider "k mod 3 = 0" | "k mod 3 = 1" | "k mod 3 = 2" by linarith
  then show "b64Len k \<le> b64Len (Suc k)" by cases (simp_all add: b64Len_def mod_Suc div_Suc)
qed

end
