(* ===== verification/Validation.thy ===== *)
theory Validation
  imports Byte_Codec
begin

text \<open>
  The request validators of validation.go and the identifier source of id.go: database
  and index names, document IDs, body limits, ETags and the If-Match condition.  Randomness
  and the clock are explicit inputs: a \<open>world\<close> holds the random bytes still to be drawn (a
  read beyond them is a failing \<open>rand.Read\<close>) and the readings of \<open>time.Now\<close> to come (a
  clock without further readings stands at the epoch).
\<close>

unbundle bit_operations_syntax

section \<open>Names and document IDs\<close>

definition validNameChar :: "byte \<Rightarrow> bool" where
  "validNameChar char =
     (char \<ge> 97 \<and> char \<le> 122 \<or> char \<ge> 48 \<and> char \<le> 57 \<or> char = 95 \<or> char = 45)"

definition lowerHex :: "byte \<Rightarrow> bool" where
  "lowerHex char = (char \<ge> 48 \<and> char \<le> 57 \<or> char \<ge> 97 \<and> char \<le> 102)"

definition validateName :: "bytes \<Rightarrow> unit result" where
  "validateName name =
     (if length name = 0 \<or> length name > 63 \<or> name ! 0 < 97 \<or> name ! 0 > 122
      then Inl [ErrInvalidName]
      else if list_all (\<lambda>i. validNameChar (name ! i)) [1..<length name] then Inr ()
      else Inl [ErrInvalidName])"

definition validateID :: "bytes \<Rightarrow> unit result" where
  "validateID docID =
     (if length docID \<noteq> 36 \<or> docID ! 8 \<noteq> 45 \<or> docID ! 13 \<noteq> 45 \<or> docID ! 18 \<noteq> 45 \<or> docID ! 23 \<noteq> 45
      then Inl [ErrInvalidID]
      else if \<not> list_all (\<lambda>i. i = 8 \<or> i = 13 \<or> i = 18 \<or> i = 23 \<or> lowerHex (docID ! i)) [0..<length docID]
      then Inl [ErrInvalidID]
      else if docID ! 14 \<noteq> 55 \<or> \<not> List.member (str ''89ab'') (docID ! 19) then Inl [ErrInvalidID]
      else Inr ())"

section \<open>Bodies\<close>

text \<open>
  An \<open>io.Reader\<close>: the bytes it delivers and how it ends, with \<open>io.EOF\<close> or an error.
  \<open>io.LimitReader\<close> never asks for more than its limit, so an error behind the limit is not
  seen.
\<close>

record reader =
  content :: bytes
  failure :: "err option"

definition readLimited :: "reader \<Rightarrow> int \<Rightarrow> bytes result" where
  "readLimited r limit =
     (if limit \<le> int (length (content r)) then Inr (take (nat limit) (content r))
      else case failure r of None \<Rightarrow> Inr (content r) | Some e \<Rightarrow> Inl e)"

definition maxInt64 :: int where
  "maxInt64 = 2 ^ 63 - 1"

definition readBody :: "reader \<Rightarrow> int \<Rightarrow> bytes result" where
  "readBody reader maxBytes =
     (let limit = (if maxBytes < maxInt64 then maxBytes + 1 else maxBytes) in
      bindE (readLimited reader limit) (\<lambda>body.
      if int (length body) > maxBytes then Inl [ErrBodyTooLarge] else Inr body))"

section \<open>Revisions, ETags and If-Match\<close>

type_synonym revision = bytes

record matchCond =
  condSet :: bool
  wildcard :: bool
  matchRev :: revision

definition zeroRevision :: revision where
  "zeroRevision = replicate 16 0"

definition noMatch :: matchCond where
  "noMatch = \<lparr>condSet = False, wildcard = False, matchRev = zeroRevision\<rparr>"

definition formatETag :: "revision \<Rightarrow> bytes" where
  "formatETag r = [34] @ hexEncode r @ [34]"

definition parseETag :: "bytes \<Rightarrow> revision result" where
  "parseETag value =
     (if length value \<noteq> 34 \<or> value ! 0 \<noteq> 34 \<or> value ! (length value - 1) \<noteq> 34
      then Inl [ErrInvalidETag]
      else let encoded = take (length value - 2) (drop 1 value) in
        if \<not> list_all lowerHex encoded then Inl [ErrInvalidETag]
        else case hexDecode encoded of None \<Rightarrow> Inl [ErrInvalidETag] | Some r \<Rightarrow> Inr r)"

text \<open>The UTF-8 encodings of the code points with \<open>unicode.IsSpace\<close>, for \<open>strings.TrimSpace\<close>.\<close>

definition spaceSeqs :: "bytes list" where
  "spaceSeqs = [[9], [10], [11], [12], [13], [32], [0xC2, 0x85], [0xC2, 0xA0], [0xE1, 0x9A, 0x80]]
     @ map (\<lambda>b. [0xE2, 0x80, b])
         [0x80, 0x81, 0x82, 0x83, 0x84, 0x85, 0x86, 0x87, 0x88, 0x89, 0x8A, 0xA8, 0xA9, 0xAF]
     @ [[0xE2, 0x81, 0x9F], [0xE3, 0x80, 0x80]]"

definition spaceAt :: "bytes list \<Rightarrow> bytes \<Rightarrow> nat" where
  "spaceAt seqs s = (case filter (\<lambda>q. prefix q s) seqs of [] \<Rightarrow> 0 | q # _ \<Rightarrow> length q)"

function trimLeft :: "bytes list \<Rightarrow> bytes \<Rightarrow> bytes" where
  "trimLeft seqs s =
     (if s = [] \<or> spaceAt seqs s = 0 then s else trimLeft seqs (drop (spaceAt seqs s) s))"
  by pat_completeness auto
termination
  by (relation "measure (\<lambda>(seqs, s). length s)") auto

declare trimLeft.simps [simp del]

definition trimSpace :: "bytes \<Rightarrow> bytes" where
  "trimSpace s = rev (trimLeft (map rev spaceSeqs) (rev (trimLeft spaceSeqs s)))"

definition parseIfMatch :: "bytes list \<Rightarrow> matchCond result" where
  "parseIfMatch values =
     (if length values = 0 then Inr noMatch
      else if length values \<noteq> 1 then Inl [ErrInvalidIfMatch]
      else let value = trimSpace (values ! 0) in
        if value = str ''*'' then Inr (noMatch\<lparr>condSet := True, wildcard := True\<rparr>)
        else case parseETag value of
          Inl e \<Rightarrow> Inl [ErrInvalidIfMatch]
        | Inr r \<Rightarrow> Inr (noMatch\<lparr>condSet := True, matchRev := r\<rparr>))"

section \<open>Randomness, time and new IDs\<close>

record world =
  entropy :: bytes
  clock :: "64 word list"

definition randRead :: "nat \<Rightarrow> world \<Rightarrow> (bytes \<times> world) result" where
  "randRead n w =
     (if length (entropy w) < n then Inl []
      else Inr (take n (entropy w), w\<lparr>entropy := drop n (entropy w)\<rparr>))"

definition unixMilli :: "world \<Rightarrow> 64 word \<times> world" where
  "unixMilli w = (case clock w of [] \<Rightarrow> (0, w) | t # ts \<Rightarrow> (t, w\<lparr>clock := ts\<rparr>))"

text \<open>\<open>for i := 5; i >= 0; i-- \{ id[i] = byte(millis); millis >>= 8 \}\<close>\<close>

fun putMillis :: "nat \<Rightarrow> 64 word \<Rightarrow> bytes \<Rightarrow> bytes" where
  "putMillis 0 millis uid = uid"
| "putMillis (Suc i) millis uid = putMillis i (signed_drop_bit 8 millis) (uid[i := ucast millis])"

definition formatID :: "bytes \<Rightarrow> bytes" where
  "formatID uid =
     hexEncode (take 4 uid) @ [45] @ hexEncode (take 2 (drop 4 uid)) @ [45] @
     hexEncode (take 2 (drop 6 uid)) @ [45] @ hexEncode (take 2 (drop 8 uid)) @ [45] @
     hexEncode (take 6 (drop 10 uid))"

definition makeID :: "world \<Rightarrow> (bytes \<times> world) result" where
  "makeID w =
     bindE (randRead 16 w) (\<lambda>(raw, w).
     let (millis, w) = unixMilli w;
         uid = putMillis 6 millis raw;
         uid = uid[6 := (uid ! 6) AND 0x0f OR 0x70];
         uid = uid[8 := (uid ! 8) AND 0x3f OR 0x80]
     in Inr (formatID uid, w))"


section \<open>Laws\<close>

abbreviation validName :: "bytes \<Rightarrow> bool" where
  "validName n \<equiv> validateName n = Inr ()"

abbreviation validID :: "bytes \<Rightarrow> bool" where
  "validID i \<equiv> validateID i = Inr ()"

lemma validateName_iff:
  "validName n \<longleftrightarrow> n \<noteq> [] \<and> length n \<le> 63 \<and> 97 \<le> n ! 0 \<and> n ! 0 \<le> 122 \<and>
    (\<forall>i. 1 \<le> i \<and> i < length n \<longrightarrow> validNameChar (n ! i))"
  by (auto simp: validateName_def list_all_iff not_less)

lemma validName_chars:
  assumes "validName n" "c \<in> set n"
  shows "validNameChar c"
proof -
  from assms(2) obtain i where i: "i < length n" "n ! i = c" by (auto simp: in_set_conv_nth)
  show ?thesis
  proof (cases "i = 0")
    case True
    with assms(1) i show ?thesis by (auto simp: validateName_iff validNameChar_def)
  next
    case False
    with assms(1) i show ?thesis by (auto simp: validateName_iff)
  qed
qed

lemma validName_no_zero: "validName n \<Longrightarrow> 0 \<notin> set n"
  using validName_chars [of n 0] by (auto simp: validNameChar_def)

lemma validName_length: "validName n \<Longrightarrow> n \<noteq> [] \<and> length n \<le> 63"
  by (simp add: validateName_iff)

lemma validateID_iff:
  "validID i \<longleftrightarrow> length i = 36 \<and> (\<forall>k \<in> {8, 13, 18, 23}. i ! k = 45) \<and>
    (\<forall>k < 36. k \<notin> {8, 13, 18, 23} \<longrightarrow> lowerHex (i ! k)) \<and>
    i ! 14 = 55 \<and> i ! 19 \<in> {56, 57, 97, 98}"
  by (auto simp: validateID_def list_all_iff str_def split: if_splits)

lemma validID_length: "validID i \<Longrightarrow> length i = 36"
  by (simp add: validateID_iff)

lemma validID_ne [simp]: "validID i \<Longrightarrow> i \<noteq> []"
  by (auto simp: validateID_iff)

text \<open>Hexadecimal text.\<close>

lemma lowerHex_hexDigit:
  assumes "unat (n :: byte) < 16"
  shows "lowerHex (hexDigit n)"
proof -
  have "list_all (\<lambda>k. lowerHex (hexDigit (of_nat k))) [0..<16]" by code_simp
  moreover have "unat n \<in> set [0..<16]" using assms by simp
  ultimately have "lowerHex (hexDigit (of_nat (unat n)))" unfolding list_all_iff by blast
  then show ?thesis by simp
qed

lemma lowerHex_hexEncode: "list_all lowerHex (hexEncode b)"
  by (induction b) (simp_all add: lowerHex_hexDigit unat_nibbles)

lemma hexDigit_less:
  assumes "unat (m :: byte) < 16" "unat (n :: byte) < 16"
  shows "hexDigit m < hexDigit n \<longleftrightarrow> m < n"
proof -
  have "list_all (\<lambda>j. list_all (\<lambda>k. hexDigit (of_nat j) < hexDigit (of_nat k) \<longleftrightarrow> (of_nat j :: byte) < of_nat k) [0..<16]) [0..<16]"
    by code_simp
  moreover have "unat m \<in> set [0..<16]" "unat n \<in> set [0..<16]" using assms by simp_all
  ultimately have "hexDigit (of_nat (unat m)) < hexDigit (of_nat (unat n)) \<longleftrightarrow>
      (of_nat (unat m) :: byte) < of_nat (unat n)"
    unfolding list_all_iff by blast
  then show ?thesis by simp
qed

lemma lowerHex_decode:
  assumes "lowerHex c"
  shows "\<exists>h. fromHexChar c = Some h \<and> hexDigit h = c \<and> unat h < 16"
proof -
  have "lowerHex c \<longrightarrow> (case fromHexChar c of None \<Rightarrow> False | Some h \<Rightarrow> hexDigit h = c \<and> unat h < 16)"
    by (rule byte_all) code_simp
  with assms show ?thesis by (auto split: option.splits)
qed

lemma nibbles_of_join:
  assumes "unat (h :: byte) < 16" "unat (l :: byte) < 16"
  shows "drop_bit 4 (push_bit 4 h OR l) = h" "(push_bit 4 h OR l) AND 0x0f = l"
proof -
  have "list_all (\<lambda>j. list_all (\<lambda>k. drop_bit 4 (push_bit 4 (of_nat j :: byte) OR of_nat k) = of_nat j \<and>
      (push_bit 4 (of_nat j) OR of_nat k) AND 0x0f = (of_nat k :: byte)) [0..<16]) [0..<16]"
    by code_simp
  moreover have "unat h \<in> set [0..<16]" "unat l \<in> set [0..<16]" using assms by simp_all
  ultimately have "drop_bit 4 (push_bit 4 (of_nat (unat h) :: byte) OR of_nat (unat l)) = of_nat (unat h) \<and>
      (push_bit 4 (of_nat (unat h)) OR of_nat (unat l)) AND 0x0f = (of_nat (unat l) :: byte)"
    unfolding list_all_iff by blast
  then show "drop_bit 4 (push_bit 4 h OR l) = h" "(push_bit 4 h OR l) AND 0x0f = l" by simp_all
qed

lemma hexDecode_lowerHex:
  "even (length t) \<Longrightarrow> list_all lowerHex t \<Longrightarrow>
    \<exists>b. hexDecode t = Some b \<and> hexEncode b = t \<and> 2 * length b = length t"
proof (induction t rule: hexDecode.induct)
  case (3 a b cs)
  then obtain r where r: "hexDecode cs = Some r" "hexEncode r = cs" "2 * length r = length cs"
    by auto
  from 3 obtain h l where "fromHexChar a = Some h" "hexDigit h = a" "unat h < 16"
    "fromHexChar b = Some l" "hexDigit l = b" "unat l < 16"
    using lowerHex_decode [of a] lowerHex_decode [of b] by auto
  with r show ?case by (simp add: nibbles_of_join del: drop_bit_or)
qed simp_all

lemma byte_less_nibbles:
  fixes c d :: byte
  shows "drop_bit 4 c < drop_bit 4 d \<or> drop_bit 4 c = drop_bit 4 d \<and> c AND 0x0f < d AND 0x0f \<longleftrightarrow> c < d"
proof -
  have c: "unat (drop_bit 4 b) = unat b div 16" "unat (b AND 0x0f) = unat b mod 16" for b :: byte
  proof -
    show "unat (drop_bit 4 b) = unat b div 16"
      unfolding unat_drop_bit_eq by (simp add: drop_bit_eq_div)
    have "unat (b AND 0x0f) = take_bit 4 (unat b)"
      unfolding byte_masks take_bit_eq_mask [symmetric] by (rule unsigned_take_bit_eq)
    then show "unat (b AND 0x0f) = unat b mod 16" by (simp add: take_bit_eq_mod)
  qed
  show ?thesis
    using less_iff_div_mod [of 16 "unat c" "unat d"]
    by (simp add: word_less_nat_alt word_unat_eq_iff c)
qed

text \<open>Equal-length segments compare one after the other.\<close>

lemma append_less_segment:
  fixes a b :: "'a::linorder list"
  assumes "length a = length b"
  shows "a @ x < b @ y \<longleftrightarrow> a < b \<or> a = b \<and> x < y"
  using assms by (induction a b rule: list_induct2) auto

lemma hexEncode_less_segment:
  assumes "length a = length b"
  shows "hexEncode a @ x < hexEncode b @ y \<longleftrightarrow> a < b \<or> a = b \<and> x < y"
  using assms
proof (induction a b rule: list_induct2)
  case Nil
  then show ?case by simp
next
  case (Cons c cs d ds)
  have lt: "drop_bit 4 c < drop_bit 4 d \<or> drop_bit 4 c = drop_bit 4 d \<and> c AND 0x0f < d AND 0x0f \<longleftrightarrow> c < d"
    by (rule byte_less_nibbles)
  have eq: "drop_bit 4 c = drop_bit 4 d \<and> c AND 0x0f = d AND 0x0f \<longleftrightarrow> c = d"
    by (metis join_nibbles)
  have hex_eq: "hexDigit m = hexDigit n \<longleftrightarrow> m = n" if "unat m < 16" "unat n < 16" for m n :: byte
    using that by (metis hexDigit_less linorder_neq_iff)
  show ?case
    using Cons.IH lt eq
    by (auto simp: hexDigit_less hex_eq unat_nibbles)
qed

lemma take_drop_less_segment:
  fixes u v :: "'a::linorder list"
  assumes "length u = length v"
  shows "u < v \<longleftrightarrow> take n u < take n v \<or> take n u = take n v \<and> drop n u < drop n v"
  using append_less_segment [of "take n u" "take n v" "drop n u" "drop n v"] assms by simp

lemma formatID_less:
  assumes "length u = 16" "length v = 16"
  shows "formatID u < formatID v \<longleftrightarrow> u < v"
proof -
  have d: "u < v \<longleftrightarrow> take 4 u < take 4 v \<or> take 4 u = take 4 v \<and>
      (take 2 (drop 4 u) < take 2 (drop 4 v) \<or> take 2 (drop 4 u) = take 2 (drop 4 v) \<and>
      (take 2 (drop 6 u) < take 2 (drop 6 v) \<or> take 2 (drop 6 u) = take 2 (drop 6 v) \<and>
      (take 2 (drop 8 u) < take 2 (drop 8 v) \<or> take 2 (drop 8 u) = take 2 (drop 8 v) \<and>
      take 6 (drop 10 u) < take 6 (drop 10 v))))"
    using assms take_drop_less_segment [of u v 4] take_drop_less_segment [of "drop 4 u" "drop 4 v" 2]
      take_drop_less_segment [of "drop 6 u" "drop 6 v" 2]
      take_drop_less_segment [of "drop 8 u" "drop 8 v" 2] by simp
  show ?thesis
    using assms unfolding formatID_def d
    by (simp add: hexEncode_less_segment
        hexEncode_less_segment [where x = "[]" and y = "[]", simplified])
qed

lemma length_putMillis [simp]: "length (putMillis i m u) = length u"
  by (induction i m u rule: putMillis.induct) simp_all

lemma signed_drop_bit_nonneg: "m < 2 ^ 63 \<Longrightarrow> signed_drop_bit n (m :: 64 word) = drop_bit n m"
proof -
  assume m: "m < 2 ^ 63"
  have "\<not> bit m 63"
  proof
    assume "bit m 63"
    then have "bit (drop_bit 63 m) 0"
      by (simp only: bit_drop_bit_eq comp_def add_0_right)
    then have "drop_bit 63 m \<noteq> 0" by auto
    moreover have "unat (drop_bit 63 m) = 0"
      unfolding unat_drop_bit_eq using m by (simp add: drop_bit_eq_div word_less_nat_alt)
    ultimately show False by (metis unat_eq_zero)
  qed
  then show ?thesis
    by (intro bit_eqI) (auto simp: bit_signed_drop_bit_iff bit_drop_bit_eq dest: bit_imp_le_length)
qed

lemma beDigits_snoc: "beDigits (Suc k) n = beDigits k (n div 256) @ [of_nat n]"
proof -
  have "[0..<Suc k] = 0 # map Suc [0..<k]" by (simp only: map_Suc_upt upt_conv_Cons zero_less_Suc)
  then show ?thesis by (simp only: beDigits_map) (simp add: rev_map div_mult2_eq comp_def)
qed

lemma putMillis_take:
  assumes "i \<le> length u" "m < 2 ^ 63"
  shows "take i (putMillis i m u) = beDigits i (unat m) \<and> drop i (putMillis i m u) = drop i u"
  using assms
proof (induction i arbitrary: m u)
  case 0
  then show ?case by simp
next
  case (Suc i)
  let ?m = "drop_bit 8 m" and ?u = "u[i := ucast m]"
  have um: "unat ?m = unat m div 256"
    unfolding unat_drop_bit_eq by (simp add: drop_bit_eq_div)
  then have "?m < 2 ^ 63" using Suc.prems(2) by (simp add: word_less_nat_alt)
  with Suc.prems have IH: "take i (putMillis i ?m ?u) = beDigits i (unat ?m)"
      "drop i (putMillis i ?m ?u) = drop i ?u"
    using Suc.IH [of ?u ?m] by simp_all
  have nth: "putMillis i ?m ?u ! i = ucast m"
    using arg_cong [OF IH(2), of "\<lambda>l. l ! 0"] Suc.prems(1) by simp
  have c: "(ucast m :: byte) = of_nat (unat m)"
    using byte_of_drop_bit [of 0 m] by simp
  have "take (Suc i) (putMillis i ?m ?u) = take i (putMillis i ?m ?u) @ [putMillis i ?m ?u ! i]"
    using Suc.prems(1) by (intro take_Suc_conv_app_nth) simp
  also have "\<dots> = beDigits (Suc i) (unat m)"
    by (simp only: IH(1) nth um) (simp only: c beDigits_snoc)
  finally have "take (Suc i) (putMillis i ?m ?u) = beDigits (Suc i) (unat m)" .
  moreover have "drop (Suc i) (putMillis i ?m ?u) = drop (Suc i) u"
    using arg_cong [OF IH(2), of "drop 1"] by simp
  ultimately show ?case
    unfolding putMillis.simps signed_drop_bit_nonneg [OF Suc.prems(2)] by (rule conjI)
qed

lemma randRead_Inr_iff [result_simps]:
  "randRead n w = Inr (b, w') \<longleftrightarrow>
    n \<le> length (entropy w) \<and> b = take n (entropy w) \<and> w' = w\<lparr>entropy := drop n (entropy w)\<rparr>"
  by (auto simp: randRead_def)

text \<open>The raw bytes of a new ID: the random bytes with the time, version and variant put in.\<close>

definition rawID :: "64 word \<Rightarrow> bytes \<Rightarrow> bytes" where
  "rawID millis raw =
     (let u = putMillis 6 millis raw; u = u[6 := (u ! 6) AND 0x0f OR 0x70]
      in u[8 := (u ! 8) AND 0x3f OR 0x80])"

lemma length_rawID [simp]: "length (rawID m raw) = length raw"
  by (simp add: rawID_def Let_def)

lemma makeID_raw:
  assumes "makeID w = Inr (i, w')"
  shows "length (take 16 (entropy w)) = 16 \<and> i = formatID (rawID (fst (unixMilli w)) (take 16 (entropy w)))"
  using assms
  by (auto simp: makeID_def rawID_def unixMilli_def result_simps Let_def split: list.splits)

lemma rawID_time:
  assumes "length raw = 16" "m < 2 ^ 48"
  shows "take 6 (rawID m raw) = beDigits 6 (unat m)"
proof -
  have "m < 2 ^ 63" using assms(2) by (simp add: word_less_nat_alt)
  with assms(1) show ?thesis
    using putMillis_take [of 6 raw m] by (simp add: rawID_def Let_def)
qed

lemma version_nibble: "drop_bit 4 ((b :: byte) AND 0x0f OR 0x70) = 7"
  by (rule byte_all) code_simp

lemma variant_nibble: "hexDigit (drop_bit 4 ((b :: byte) AND 0x3f OR 0x80)) \<in> {56, 57, 97, 98}"
  by (rule byte_all) code_simp

lemma list16:
  assumes "length u = 16"
  obtains a0 a1 a2 a3 a4 a5 a6 a7 a8 a9 a10 a11 a12 a13 a14 a15
  where "u = [a0, a1, a2, a3, a4, a5, a6, a7, a8, a9, a10, a11, a12, a13, a14, a15]"
  using assms by (auto simp: numeral_eq_Suc length_Suc_conv)

lemma formatID_valid:
  assumes "length u = 16" "drop_bit 4 (u ! 6) = 7" "hexDigit (drop_bit 4 (u ! 8)) \<in> {56, 57, 97, 98}"
  shows "validID (formatID u)"
proof -
  obtain a0 a1 a2 a3 a4 a5 a6 a7 a8 a9 a10 a11 a12 a13 a14 a15
    where u: "u = [a0, a1, a2, a3, a4, a5, a6, a7, a8, a9, a10, a11, a12, a13, a14, a15]"
    using assms(1) by (rule list16)
  have "hexDigit 7 = 55" "lowerHex 55" by (simp_all add: hexDigit_def lowerHex_def)
  with assms(2,3) show ?thesis
    by (simp add: u formatID_def validateID_def upt_rec str_def lowerHex_hexDigit unat_nibbles
        del: drop_bit_or)
qed


section \<open>Properties\<close>

lemma makeID_validID:
  assumes "makeID w = Inr (i, w')"
  shows "validID i"
proof -
  let ?raw = "take 16 (entropy w)" and ?m = "fst (unixMilli w)"
  from makeID_raw [OF assms] have raw: "length ?raw = 16" and i: "i = formatID (rawID ?m ?raw)"
    by auto
  have "rawID ?m ?raw ! 6 = (putMillis 6 ?m ?raw ! 6) AND 0x0f OR 0x70"
    "rawID ?m ?raw ! 8 = (putMillis 6 ?m ?raw ! 8) AND 0x3f OR 0x80"
    using raw by (simp_all add: rawID_def Let_def)
  with raw show ?thesis
    unfolding i by (intro formatID_valid) (simp_all only: length_rawID version_nibble variant_nibble)
qed

text \<open>
  \<open>makeID\<close> fails only when fewer than 16 random bytes are left; otherwise it consumes 16 of
  them and the ID it returns is one that \<open>validateID\<close> accepts, whatever the random bytes and
  the clock are.
\<close>

theorem makeID_valid:
  "case makeID w of
     Inl e \<Rightarrow> length (entropy w) < 16
   | Inr (i, w') \<Rightarrow> 16 \<le> length (entropy w) \<and> entropy w' = drop 16 (entropy w) \<and> validateID i = Inr ()"
proof (cases "makeID w")
  case (Inl e)
  then show ?thesis by (auto simp: makeID_def randRead_def result_simps Let_def split: if_splits prod.splits)
next
  case (Inr p)
  then show ?thesis
    by (cases p) (auto simp: makeID_validID makeID_def randRead_def unixMilli_def Let_def
        split: if_splits list.splits prod.splits)
qed

text \<open>
  C39: IDs sort by creation time: an ID made at a later millisecond (below the 48-bit limit of
  the format) is greater in byte order, whatever the random bytes are.
\<close>

theorem makeID_time_order:
  assumes "makeID w = Inr (i, w1)" and "makeID v = Inr (j, v1)"
    and "fst (unixMilli w) < fst (unixMilli v)" and "fst (unixMilli v) < 2 ^ 48"
  shows "i < j"
proof -
  let ?u = "rawID (fst (unixMilli w)) (take 16 (entropy w))"
  let ?v = "rawID (fst (unixMilli v)) (take 16 (entropy v))"
  from makeID_raw [OF assms(1)] have u: "length ?u = 16" "i = formatID ?u" by auto
  from makeID_raw [OF assms(2)] have v: "length ?v = 16" "j = formatID ?v" by auto
  have "fst (unixMilli w) < 2 ^ 48" using assms(3,4) by order
  then have "take 6 ?u = beDigits 6 (unat (fst (unixMilli w)))"
    using u by (intro rawID_time) simp_all
  moreover have "take 6 ?v = beDigits 6 (unat (fst (unixMilli v)))"
    using v assms(4) by (intro rawID_time) simp_all
  ultimately have "take 6 ?u < take 6 ?v"
    using assms(3,4) by (simp add: beDigits_less word_less_nat_alt del: beDigits.simps)
  then have "?u < ?v" using take_drop_less_segment [of ?u ?v 6] u v by simp
  then show ?thesis using u v by (simp add: formatID_less)
qed

theorem makeID_time_order_witness:
  "str ''0195c3d2-e1f0-7fff-bfff-ffffffffffff'' < str ''0195c3d2-e1f1-7000-8000-000000000000''"
proof -
  have a: "makeID \<lparr>entropy = replicate 16 0xff, clock = [0x0195C3D2E1F0]\<rparr> =
      Inr (str ''0195c3d2-e1f0-7fff-bfff-ffffffffffff'', \<lparr>entropy = [], clock = []\<rparr>)"
    by code_simp
  have b: "makeID \<lparr>entropy = replicate 16 0, clock = [0x0195C3D2E1F1]\<rparr> =
      Inr (str ''0195c3d2-e1f1-7000-8000-000000000000'', \<lparr>entropy = [], clock = []\<rparr>)"
    by code_simp
  show ?thesis
    by (rule makeID_time_order [OF a b]) (simp_all add: unixMilli_def)
qed

lemma parseETag_formatETag: "length r = 16 \<Longrightarrow> parseETag (formatETag r) = Inr r"
  by (simp add: parseETag_def formatETag_def nth_append lowerHex_hexEncode)

text \<open>
  C40: ETags round-trip and are canonical: \<open>parseETag\<close> accepts exactly the texts that
  \<open>formatETag\<close> produces from a 16-byte revision, and returns that revision.
\<close>

theorem parseETag_iff:
  "parseETag v = Inr r \<longleftrightarrow> length r = 16 \<and> v = formatETag r"
proof
  assume p: "parseETag v = Inr r"
  then have len: "length v = 34" and ends: "v ! 0 = 34" "v ! 33 = 34"
    by (auto simp: parseETag_def split: if_splits)
  let ?e = "take 32 (drop 1 v)"
  have "list_all lowerHex ?e" "hexDecode ?e = Some r"
    using p len by (auto simp: parseETag_def Let_def split: if_splits option.splits)
  with len have e: "hexEncode r = ?e" "length r = 16"
    using hexDecode_lowerHex [of ?e] by auto
  have "v = [v ! 0] @ drop 1 v" using len by (cases v) auto
  also have "drop 1 v = ?e @ [v ! 33]"
    using len take_Suc_conv_app_nth [of 32 "drop 1 v"] by simp
  finally have "v = [v ! 0] @ ?e @ [v ! 33]" .
  with e ends show "length r = 16 \<and> v = formatETag r" by (simp add: formatETag_def)
next
  assume "length r = 16 \<and> v = formatETag r"
  then show "parseETag v = Inr r" by (simp add: parseETag_formatETag)
qed

end
