(* ===== verification/Key_Layout.thy ===== *)
theory Key_Layout
  imports Validation
begin

text \<open>
  The layout of the Pebble key space: the key builders of storage.go and index.go, the end
  of a key prefix (\<open>prefixEnd\<close>), and the facts the store rests on, namely that a prefix scan
  is a key range, that different kinds of records and different databases never share keys, and
  that a key determines what it was built from.
\<close>

section \<open>Prefixes and ranges\<close>

text \<open>\<open>for i := len(end) - 1; i >= 0; i--\<close> of \<open>prefixEnd\<close>; \<open>nil\<close> is \<open>None\<close>.\<close>

fun prefixEnd_loop :: "bytes \<Rightarrow> nat \<Rightarrow> bytes option" where
  "prefixEnd_loop e 0 = None"
| "prefixEnd_loop e (Suc i) =
     (if e ! i \<noteq> 0xff then Some (take (i + 1) (e[i := e ! i + 1])) else prefixEnd_loop e i)"

definition prefixEnd :: "bytes \<Rightarrow> bytes option" where
  "prefixEnd p = prefixEnd_loop p (length p)"

text \<open>The keys an iterator with these bounds can see; a \<open>nil\<close> bound does not restrict.\<close>

definition inBounds :: "bytes option \<Rightarrow> bytes option \<Rightarrow> bytes \<Rightarrow> bool" where
  "inBounds lower upper k =
     ((case lower of None \<Rightarrow> True | Some l \<Rightarrow> l \<le> k) \<and>
      (case upper of None \<Rightarrow> True | Some u \<Rightarrow> k < u))"

section \<open>Key builders\<close>

definition storeMetaKey :: bytes where "storeMetaKey = [0x00]"
definition dbPrefix :: bytes where "dbPrefix = [0x01]"
definition docPrefix :: bytes where "docPrefix = [0x02]"
definition idxDefPrefix :: bytes where "idxDefPrefix = [0x03]"
definition idxDataPrefix :: bytes where "idxDataPrefix = [0x04]"

definition appendKey :: "bytes \<Rightarrow> bytes \<Rightarrow> bytes" where
  "appendKey pre v = pre @ v"

definition dbKey :: "bytes \<Rightarrow> bytes" where
  "dbKey name = appendKey dbPrefix name"

definition docsPrefix :: "bytes \<Rightarrow> bytes" where
  "docsPrefix database = appendKey docPrefix database @ [0]"

definition docKey :: "bytes \<Rightarrow> bytes \<Rightarrow> bytes" where
  "docKey database docID = docsPrefix database @ docID"

definition indexDefPrefix :: "bytes \<Rightarrow> bytes" where
  "indexDefPrefix database = appendPart idxDefPrefix database"

definition indexDefKey :: "bytes \<Rightarrow> bytes \<Rightarrow> bytes" where
  "indexDefKey database index = appendPart (indexDefPrefix database) index"

definition indexDataPrefix :: "bytes \<Rightarrow> bytes" where
  "indexDataPrefix database = appendPart idxDataPrefix database"

definition indexTypePrefix :: "bytes \<Rightarrow> bytes \<Rightarrow> byte \<Rightarrow> bytes" where
  "indexTypePrefix database index valueType =
     appendPart (indexDataPrefix database) index @ [valueType]"

definition indexValuePrefix :: "bytes \<Rightarrow> bytes \<Rightarrow> bytes \<Rightarrow> bytes" where
  "indexValuePrefix database index v = appendPart (indexDataPrefix database) index @ v"

definition indexKey :: "bytes \<Rightarrow> bytes \<Rightarrow> bytes \<Rightarrow> bytes \<Rightarrow> bytes" where
  "indexKey database index v docID = indexValuePrefix database index v @ docID"

section \<open>A prefix is a key range\<close>

lemma byte_less_Suc: "b \<noteq> 0xff \<Longrightarrow> (c :: byte) < b + 1 \<longleftrightarrow> c \<le> b"
proof -
  assume b: "b \<noteq> 0xff"
  have "b \<noteq> 0xff \<longrightarrow> 1 + b \<noteq> 0" by (rule byte_all) code_simp
  with b have "1 + b \<noteq> 0" by blast
  then have "unat (1 + b) = Suc (unat b)" by (rule unatSuc)
  then show ?thesis by (simp add: word_less_nat_alt word_le_nat_alt add.commute less_Suc_eq_le)
qed

lemma prefix_range_snoc:
  assumes "(b :: byte) \<noteq> 0xff"
  shows "prefix (q @ [b]) k \<longleftrightarrow> q @ [b] \<le> k \<and> k < q @ [b + 1]"
proof (induction q arbitrary: k)
  case Nil
  show ?case
  proof (cases k)
    case k: (Cons c cs)
    have "c < b + 1 \<longleftrightarrow> c \<le> b" by (rule byte_less_Suc [OF assms])
    with k show ?thesis by (cases rule: linorder_cases [of b c]) (auto dest: order_less_imp_not_less)
  qed simp
next
  case (Cons c q)
  show ?case
  proof (cases k)
    case k: (Cons d ds)
    show ?thesis
      unfolding k by (cases rule: linorder_cases [of c d]) (auto simp: Cons.IH dest: less_asym)
  qed simp
qed

lemma byte_le_max: "(c :: byte) \<le> 0xff"
  by (rule byte_all) code_simp

lemma prefix_range_max:
  fixes q k :: bytes
  assumes "prefix q k \<longleftrightarrow> q \<le> k \<and> B"
  shows "prefix (q @ [0xff]) k \<longleftrightarrow> q @ [0xff] \<le> k \<and> B"
proof
  assume "prefix (q @ [0xff]) k"
  then show "q @ [0xff] \<le> k \<and> B"
    using assms append_prefixD prefix_imp_le by blast
next
  assume a: "q @ [0xff] \<le> k \<and> B"
  have "q \<le> q @ [0xff]" by (simp add: prefix_imp_le)
  with a have "q \<le> k" by (blast intro: order_trans)
  with a assms obtain r where r: "k = q @ r" by (auto elim: prefixE)
  from a r have ge: "[0xff] \<le> r" by simp
  then obtain c cs where c: "r = c # cs" by (cases r) auto
  with ge byte_le_max [of c] have "c = 0xff" by auto
  with r c show "prefix (q @ [0xff]) k" by simp
qed

lemma prefixEnd_loop_spec:
  "i \<le> length e \<Longrightarrow>
   prefix (take i e) k \<longleftrightarrow>
     take i e \<le> k \<and> (case prefixEnd_loop e i of None \<Rightarrow> True | Some u \<Rightarrow> k < u)"
proof (induction i)
  case 0
  then show ?case by simp
next
  case (Suc i)
  then have snoc: "take (Suc i) e = take i e @ [e ! i]"
    by (simp add: take_Suc_conv_app_nth)
  show ?case
  proof (cases "e ! i = 0xff")
    case False
    have "take (i + 1) (e[i := e ! i + 1]) = take i e @ [e ! i + 1]"
      using Suc.prems by (simp add: take_Suc_conv_app_nth)
    with False show ?thesis by (simp add: snoc prefix_range_snoc)
  next
    case True
    have "prefixEnd_loop e (Suc i) = prefixEnd_loop e i" using True by simp
    with Suc True show ?thesis
      unfolding snoc by (simp only: True) (rule prefix_range_max, simp)
  qed
qed

text \<open>
  C38: \<open>prefixEnd\<close> is the exact upper bound of a prefix: the keys with prefix \<open>p\<close> are those
  from \<open>p\<close> on and below \<open>prefixEnd p\<close>, or all from \<open>p\<close> on when it returns \<open>nil\<close>.  So every
  iterator and every DeleteRange over \<open>[p, prefixEnd p)\<close> covers the prefix and nothing else.
\<close>

theorem prefixEnd_range: "inBounds (Some p) (prefixEnd p) k \<longleftrightarrow> prefix p k"
  using prefixEnd_loop_spec [of "length p" p k] by (simp add: prefixEnd_def inBounds_def)

section \<open>Keys determine what they were built from\<close>

lemmas key_defs = dbPrefix_def docPrefix_def idxDefPrefix_def idxDataPrefix_def storeMetaKey_def
  appendKey_def dbKey_def docsPrefix_def docKey_def indexDefPrefix_def indexDefKey_def
  indexDataPrefix_def indexTypePrefix_def indexValuePrefix_def indexKey_def

lemma key_kinds [simp]:
  "hd (dbKey n) = 1" "hd (docKey n d) = 2" "hd (indexDefKey n i) = 3" "hd (indexKey n i v d) = 4"
  "hd storeMetaKey = 0" "hd (docsPrefix n) = 2" "hd (indexDefPrefix n) = 3" "hd (indexDataPrefix n) = 4"
  by (simp_all add: key_defs appendPart_append [of "[_]"] appendPart_append [of "_ # _"])

lemma key_ne [simp]:
  "dbKey n \<noteq> []" "docKey n d \<noteq> []" "indexDefKey n i \<noteq> []" "indexKey n i v d \<noteq> []"
  "storeMetaKey \<noteq> []" "docsPrefix n \<noteq> []" "indexDefPrefix n \<noteq> []" "indexDataPrefix n \<noteq> []"
  by (simp_all add: key_defs appendPart_def)

text \<open>Keys of different kinds differ.\<close>

lemma key_kind_neq:
  "hd k \<noteq> hd k' \<Longrightarrow> k \<noteq> k'"
  by auto

lemma keys_disjoint [simp]:
  "dbKey n \<noteq> docKey m d" "dbKey n \<noteq> indexDefKey m i" "dbKey n \<noteq> indexKey m i v d"
  "docKey m d \<noteq> dbKey n" "docKey n d \<noteq> indexDefKey m i" "docKey n d \<noteq> indexKey m i v e"
  "indexDefKey m i \<noteq> dbKey n" "indexDefKey m i \<noteq> docKey n d" "indexDefKey n i \<noteq> indexKey m j v d"
  "indexKey m i v d \<noteq> dbKey n" "indexKey m i v e \<noteq> docKey n d" "indexKey m j v d \<noteq> indexDefKey n i"
  "storeMetaKey \<noteq> dbKey n" "storeMetaKey \<noteq> docKey n d" "storeMetaKey \<noteq> indexDefKey n i"
  "storeMetaKey \<noteq> indexKey n i v d"
  "dbKey n \<noteq> storeMetaKey" "docKey n d \<noteq> storeMetaKey" "indexDefKey n i \<noteq> storeMetaKey"
  "indexKey n i v d \<noteq> storeMetaKey"
  by (rule key_kind_neq, simp)+

lemma prefix_hd: "prefix p k \<Longrightarrow> p \<noteq> [] \<Longrightarrow> hd p = hd k"
  by (auto elim!: prefixE)

lemma prefix_kind_neq: "p \<noteq> [] \<Longrightarrow> hd p \<noteq> hd k \<Longrightarrow> \<not> prefix p k"
  using prefix_hd by blast

lemma prefix_disjoint [simp]:
  "\<not> prefix (docsPrefix n) (dbKey m)" "\<not> prefix (docsPrefix n) (indexDefKey m i)"
  "\<not> prefix (docsPrefix n) (indexKey m i v d)" "\<not> prefix (docsPrefix n) storeMetaKey"
  "\<not> prefix (indexDefPrefix n) (dbKey m)" "\<not> prefix (indexDefPrefix n) (docKey m d)"
  "\<not> prefix (indexDefPrefix n) (indexKey m i v d)" "\<not> prefix (indexDefPrefix n) storeMetaKey"
  "\<not> prefix (indexDataPrefix n) (dbKey m)" "\<not> prefix (indexDataPrefix n) (docKey m d)"
  "\<not> prefix (indexDataPrefix n) (indexDefKey m i)" "\<not> prefix (indexDataPrefix n) storeMetaKey"
  by (rule prefix_kind_neq, simp, simp)+

lemma dbKey_inject [simp]: "dbKey n = dbKey m \<longleftrightarrow> n = m"
  by (simp add: key_defs)

lemma prefix_dbPrefix: "prefix dbPrefix k \<longleftrightarrow> (\<exists>n. k = dbKey n)"
  by (auto simp: key_defs prefix_def)

lemma zero_sep_inject:
  assumes "0 \<notin> set n" "0 \<notin> set m" "n @ 0 # x = m @ (0 :: byte) # y"
  shows "n = m \<and> x = y"
  using assms
proof (induction n arbitrary: m)
  case Nil
  then show ?case by (cases m) auto
next
  case (Cons c n)
  then show ?case by (cases m) auto
qed

lemma docKey_inject [simp]:
  "validName n \<Longrightarrow> validName m \<Longrightarrow> docKey n d = docKey m e \<longleftrightarrow> n = m \<and> d = e"
  using zero_sep_inject [of n m d e] validName_no_zero by (auto simp: key_defs)

lemma prefix_docsPrefix [simp]:
  "validName n \<Longrightarrow> validName m \<Longrightarrow> prefix (docsPrefix n) (docKey m d) \<longleftrightarrow> n = m"
  using zero_sep_inject [of n m _ d] validName_no_zero
  by (auto simp: key_defs prefix_def)

lemma prefix_docsPrefix_iff: "prefix (docsPrefix n) k \<longleftrightarrow> (\<exists>d. k = docKey n d)"
  by (auto simp: docKey_def prefix_def)

lemma prefix_appendPart:
  assumes "length p < 2 ^ 64" "length q < 2 ^ 64"
  shows "prefix (appendPart k p) (appendPart k q @ r) \<longleftrightarrow> p = q"
  using appendPart_inject [OF assms(2,1), of k r] by (auto simp: prefix_def)

abbreviation goLen :: "bytes \<Rightarrow> bool" where
  "goLen s \<equiv> length s < 2 ^ 64"

lemma validName_goLen [simp, intro]: "validName n \<Longrightarrow> goLen n"
  using validName_length [of n] by simp

lemma prefix_indexDefPrefix [simp]:
  "goLen n \<Longrightarrow> goLen m \<Longrightarrow> prefix (indexDefPrefix n) (indexDefKey m i) \<longleftrightarrow> n = m"
  using prefix_appendPart [of n m idxDefPrefix "appendPart [] i"]
  by (simp add: indexDefKey_def indexDefPrefix_def appendPart_append [of "appendPart _ _"])

lemma indexDefKey_inject [simp]:
  "goLen n \<Longrightarrow> goLen m \<Longrightarrow> goLen i \<Longrightarrow> goLen j \<Longrightarrow> indexDefKey n i = indexDefKey m j \<longleftrightarrow> n = m \<and> i = j"
  using appendPart_inject [of n m idxDefPrefix "appendPart [] i" "appendPart [] j"]
    appendPart_inject [of i j "[]" "[]" "[]"]
  by (simp add: indexDefKey_def indexDefPrefix_def appendPart_append [of "appendPart _ _"])

lemma prefix_indexDataPrefix [simp]:
  "goLen n \<Longrightarrow> goLen m \<Longrightarrow> prefix (indexDataPrefix n) (indexKey m i v d) \<longleftrightarrow> n = m"
  using prefix_appendPart [of n m idxDataPrefix "appendPart [] i @ v @ d"]
  by (simp add: indexKey_def indexValuePrefix_def indexDataPrefix_def appendPart_append [of "appendPart _ _"])

lemma indexValuePrefix_split:
  assumes "goLen n" "goLen m" "goLen i" "goLen j"
  shows "indexValuePrefix n i v = indexValuePrefix m j w \<longleftrightarrow> n = m \<and> i = j \<and> v = w"
    and "prefix (indexValuePrefix n i v) (indexValuePrefix m j w) \<longleftrightarrow> n = m \<and> i = j \<and> prefix v w"
proof -
  have e: "indexValuePrefix n i v @ x = indexValuePrefix m j w @ y \<longleftrightarrow> n = m \<and> i = j \<and> v @ x = w @ y" for x y
    using appendPart_inject [of n m idxDataPrefix "appendPart [] i @ v @ x" "appendPart [] j @ w @ y"]
      appendPart_inject [of i j "[]" "v @ x" "w @ y"] assms
    by (simp add: indexValuePrefix_def indexDataPrefix_def appendPart_append [of "appendPart _ _"])
  from e [of "[]" "[]"] show "indexValuePrefix n i v = indexValuePrefix m j w \<longleftrightarrow> n = m \<and> i = j \<and> v = w"
    by simp
  from e show "prefix (indexValuePrefix n i v) (indexValuePrefix m j w) \<longleftrightarrow> n = m \<and> i = j \<and> prefix v w"
    unfolding prefix_def by (metis append_Nil2)
qed

lemma indexTypePrefix_value: "indexTypePrefix n i t = indexValuePrefix n i [t]"
  by (simp add: indexTypePrefix_def indexValuePrefix_def)

lemma indexKey_value: "indexKey n i v d = indexValuePrefix n i (v @ d)"
  by (simp add: indexKey_def indexValuePrefix_def)

lemma indexValuePrefix_less [simp]: "indexValuePrefix n i v < indexValuePrefix n i w \<longleftrightarrow> v < w"
  by (simp add: indexValuePrefix_def)

end
