(* ===== verification/Json.thy ===== *)
theory Json
  imports Validation
begin

text \<open>
  What the program uses of \<open>unicode/utf8\<close> and \<open>encoding/json\<close>: UTF-8 validity, the decoder
  with \<open>UseNumber\<close> into \<open>any\<close> (\<open>json.NewDecoder(r).Decode(&v)\<close>), the check that nothing
  follows the value (\<open>ensureJSONEnd\<close>), \<open>json.Marshal\<close>, and \<open>validateDoc\<close> of validation.go,
  which is built from them.
\<close>

section \<open>UTF-8\<close>

definition contByte :: "byte \<Rightarrow> bool" where
  "contByte b = (0x80 \<le> b \<and> b \<le> 0xBF)"

text \<open>The length of the valid encoding at the head of a text, 0 when there is none.\<close>

fun runeLen :: "bytes \<Rightarrow> nat" where
  "runeLen [] = 0"
| "runeLen (a # r) =
     (if a < 0x80 then 1
      else if 0xC2 \<le> a \<and> a \<le> 0xDF then
        (case r of b # _ \<Rightarrow> if contByte b then 2 else 0 | _ \<Rightarrow> 0)
      else if 0xE0 \<le> a \<and> a \<le> 0xEF then
        (case r of b # c # _ \<Rightarrow>
           if (if a = 0xE0 then 0xA0 else 0x80) \<le> b \<and> b \<le> (if a = 0xED then 0x9F else 0xBF) \<and>
              contByte c then 3 else 0
         | _ \<Rightarrow> 0)
      else if 0xF0 \<le> a \<and> a \<le> 0xF4 then
        (case r of b # c # d # _ \<Rightarrow>
           if (if a = 0xF0 then 0x90 else 0x80) \<le> b \<and> b \<le> (if a = 0xF4 then 0x8F else 0xBF) \<and>
              contByte c \<and> contByte d then 4 else 0
         | _ \<Rightarrow> 0)
      else 0)"

function utf8Valid :: "bytes \<Rightarrow> bool" where
  "utf8Valid s =
     (if s = [] then True
      else if runeLen s = 0 then False
      else utf8Valid (drop (runeLen s) s))"
  by pat_completeness auto
termination
  by (relation "measure length") (auto simp: neq_Nil_conv)

declare utf8Valid.simps [simp del]

declare runeLen.simps(2) [simp del]

lemma utf8Valid_simps [simp]:
  "utf8Valid []"
  "s \<noteq> [] \<Longrightarrow> utf8Valid s \<longleftrightarrow> runeLen s \<noteq> 0 \<and> utf8Valid (drop (runeLen s) s)"
  by (subst utf8Valid.simps, simp)+

text \<open>\<open>utf8.AppendRune\<close> for a code point.\<close>

definition encodeRune :: "nat \<Rightarrow> bytes" where
  "encodeRune r =
     (if r < 0x80 then [of_nat r]
      else if r < 0x800 then [0xC0 + of_nat (r div 64), 0x80 + of_nat (r mod 64)]
      else if r < 0x10000 then
        [0xE0 + of_nat (r div 4096), 0x80 + of_nat (r div 64 mod 64), 0x80 + of_nat (r mod 64)]
      else [0xF0 + of_nat (r div 262144), 0x80 + of_nat (r div 4096 mod 64),
            0x80 + of_nat (r div 64 mod 64), 0x80 + of_nat (r mod 64)])"

definition replacementChar :: bytes where
  "replacementChar = [0xEF, 0xBF, 0xBD]"

section \<open>JSON values\<close>

text \<open>
  The values that a decoder with \<open>UseNumber\<close> produces: \<open>nil\<close>, \<open>bool\<close>, \<open>json.Number\<close> (its
  literal), \<open>string\<close>, \<open>[]any\<close> and \<open>map[string]any\<close>.  A Go map is held as its entries sorted
  by key, without duplicates.
\<close>

datatype json =
    JNull
  | JBool bool
  | JNum bytes
  | JStr bytes
  | JArr "json list"
  | JObj "(bytes \<times> json) list"

fun mapPut :: "'k::linorder \<Rightarrow> 'v \<Rightarrow> ('k \<times> 'v) list \<Rightarrow> ('k \<times> 'v) list" where
  "mapPut k v [] = [(k, v)]"
| "mapPut k v ((a, b) # m) =
     (if k < a then (k, v) # (a, b) # m else if k = a then (k, v) # m else (a, b) # mapPut k v m)"

section \<open>Decoding\<close>

definition isSpace :: "byte \<Rightarrow> bool" where
  "isSpace c = (c = 32 \<or> c = 9 \<or> c = 13 \<or> c = 10)"

definition skipSpace :: "bytes \<Rightarrow> bytes" where
  "skipSpace s = dropWhile isSpace s"

definition isDigit :: "byte \<Rightarrow> bool" where
  "isDigit c = (48 \<le> c \<and> c \<le> 57)"

text \<open>The number grammar of the scanner: the literal and what follows it.\<close>

definition scanDigits :: "bytes \<Rightarrow> (bytes \<times> bytes) option" where
  "scanDigits s =
     (let ds = takeWhile isDigit s in if ds = [] then None else Some (ds, drop (length ds) s))"

definition scanInt :: "bytes \<Rightarrow> (bytes \<times> bytes) option" where
  "scanInt s =
     (case s of [] \<Rightarrow> None
      | c # r \<Rightarrow> if c = 48 then Some ([c], r) else scanDigits s)"

definition scanFrac :: "bytes \<Rightarrow> (bytes \<times> bytes) option" where
  "scanFrac s =
     (case s of c # r \<Rightarrow>
        if c = 46 then map_option (\<lambda>(ds, t). (c # ds, t)) (scanDigits r) else Some ([], s)
      | [] \<Rightarrow> Some ([], s))"

definition scanExp :: "bytes \<Rightarrow> (bytes \<times> bytes) option" where
  "scanExp s =
     (case s of c # r \<Rightarrow>
        if c = 101 \<or> c = 69 then
          (case r of d # t \<Rightarrow>
             if d = 43 \<or> d = 45 then map_option (\<lambda>(ds, u). (c # d # ds, u)) (scanDigits t)
             else map_option (\<lambda>(ds, u). (c # ds, u)) (scanDigits r)
           | [] \<Rightarrow> None)
        else Some ([], s)
      | [] \<Rightarrow> Some ([], s))"

definition scanNumber :: "bytes \<Rightarrow> (bytes \<times> bytes) option" where
  "scanNumber s =
     (let (sign, t) = (case s of c # r \<Rightarrow> if c = 45 then ([c], r) else ([], s) | [] \<Rightarrow> ([], s)) in
      case scanInt t of None \<Rightarrow> None
      | Some (i, t) \<Rightarrow> (case scanFrac t of None \<Rightarrow> None
      | Some (f, t) \<Rightarrow> (case scanExp t of None \<Rightarrow> None
      | Some (e, t) \<Rightarrow> Some (sign @ i @ f @ e, t))))"

definition isValidNumber :: "bytes \<Rightarrow> bool" where
  "isValidNumber s = (case scanNumber s of Some (_, []) \<Rightarrow> True | _ \<Rightarrow> False)"

text \<open>Strings, after the opening quote: the unquoted text and what follows the closing quote.\<close>

definition getu4 :: "bytes \<Rightarrow> nat option" where
  "getu4 s =
     (case map fromHexChar (take 4 s) of
        [Some a, Some b, Some c, Some d] \<Rightarrow>
          Some (unat a * 4096 + unat b * 256 + unat c * 16 + unat d)
      | _ \<Rightarrow> None)"

text \<open>The second half of a surrogate pair, \<open>\\uXXXX\<close> right behind the first.\<close>

definition pairWith :: "nat \<Rightarrow> bytes \<Rightarrow> nat option" where
  "pairWith r s =
     (case s of b # u # t \<Rightarrow>
        if b = 92 \<and> u = 117 then
          (case getu4 t of Some r2 \<Rightarrow>
             if 0xD800 \<le> r \<and> r < 0xDC00 \<and> 0xDC00 \<le> r2 \<and> r2 < 0xE000
             then Some (0x10000 + (r - 0xD800) * 1024 + (r2 - 0xDC00)) else None
           | None \<Rightarrow> None)
        else None
      | _ \<Rightarrow> None)"

definition simpleEscape :: "byte \<Rightarrow> byte option" where
  "simpleEscape c = map_of [(34, 34), (92, 92), (47, 47), (98, 8), (102, 12), (110, 10), (114, 13), (116, 9)] c"

function unquote :: "bytes \<Rightarrow> (bytes \<times> bytes) option" where
  "unquote [] = None"
| "unquote (c # s) =
     (if c = 34 then Some ([], s)
      else if c < 32 then None
      else if c = 92 then
        (case s of [] \<Rightarrow> None
         | e # t \<Rightarrow>
           if e = 117 then
             (case getu4 t of None \<Rightarrow> None
              | Some r \<Rightarrow>
                if 0xD800 \<le> r \<and> r < 0xE000 then
                  (case pairWith r (drop 4 t) of
                     Some p \<Rightarrow> map_option (\<lambda>(x, u). (encodeRune p @ x, u)) (unquote (drop 10 t))
                   | None \<Rightarrow> map_option (\<lambda>(x, u). (replacementChar @ x, u)) (unquote (drop 4 t)))
                else map_option (\<lambda>(x, u). (encodeRune r @ x, u)) (unquote (drop 4 t)))
           else
             (case simpleEscape e of None \<Rightarrow> None
              | Some b \<Rightarrow> map_option (\<lambda>(x, u). (b # x, u)) (unquote t)))
      else if c < 0x80 then map_option (\<lambda>(x, u). (c # x, u)) (unquote s)
      else if runeLen (c # s) = 0 then map_option (\<lambda>(x, u). (replacementChar @ x, u)) (unquote s)
      else map_option (\<lambda>(x, u). (take (runeLen (c # s)) (c # s) @ x, u))
             (unquote (drop (runeLen (c # s) - 1) s)))"
  by pat_completeness auto
termination
  by (relation "measure length") auto

declare unquote.simps [simp del]

definition maxNestingDepth :: nat where
  "maxNestingDepth = 10000"

text \<open>
  The value at the head of a text, at nesting depth \<open>d\<close>.  Two nested calls consume a byte
  before they recur, so \<open>2 * length s + 1\<close> is fuel enough for a text \<open>s\<close>.
\<close>

fun decodeValue :: "nat \<Rightarrow> nat \<Rightarrow> bytes \<Rightarrow> (json \<times> bytes) option"
and decodeElems :: "nat \<Rightarrow> nat \<Rightarrow> bytes \<Rightarrow> (json list \<times> bytes) option"
and decodeMembers :: "nat \<Rightarrow> nat \<Rightarrow> (bytes \<times> json) list \<Rightarrow> bytes \<Rightarrow> ((bytes \<times> json) list \<times> bytes) option"
where
  "decodeValue 0 d s = None"
| "decodeValue (Suc f) d s =
     (case skipSpace s of
        [] \<Rightarrow> None
      | c # r \<Rightarrow>
        if c = 123 then
          (if d \<ge> maxNestingDepth then None
           else case skipSpace r of
               [] \<Rightarrow> None
             | e # t \<Rightarrow> if e = 125 then Some (JObj [], t)
                 else map_option (\<lambda>(m, u). (JObj m, u)) (decodeMembers f (Suc d) [] (e # t)))
        else if c = 91 then
          (if d \<ge> maxNestingDepth then None
           else case skipSpace r of
               [] \<Rightarrow> None
             | e # t \<Rightarrow> if e = 93 then Some (JArr [], t)
                 else map_option (\<lambda>(xs, u). (JArr xs, u)) (decodeElems f (Suc d) (e # t)))
        else if c = 34 then map_option (\<lambda>(x, u). (JStr x, u)) (unquote r)
        else if c = 110 then (if prefix (str ''ull'') r then Some (JNull, drop 3 r) else None)
        else if c = 116 then (if prefix (str ''rue'') r then Some (JBool True, drop 3 r) else None)
        else if c = 102 then (if prefix (str ''alse'') r then Some (JBool False, drop 4 r) else None)
        else map_option (\<lambda>(n, u). (JNum n, u)) (scanNumber (c # r)))"
| "decodeElems 0 d s = None"
| "decodeElems (Suc f) d s =
     (case decodeValue f d s of None \<Rightarrow> None
      | Some (v, r) \<Rightarrow> (case skipSpace r of [] \<Rightarrow> None
        | c # t \<Rightarrow> if c = 93 then Some ([v], t)
            else if c = 44 then map_option (\<lambda>(vs, u). (v # vs, u)) (decodeElems f d t)
            else None))"
| "decodeMembers 0 d m s = None"
| "decodeMembers (Suc f) d m s =
     (case skipSpace s of [] \<Rightarrow> None
      | q # r \<Rightarrow> if q \<noteq> 34 then None
          else (case unquote r of None \<Rightarrow> None
          | Some (k, t) \<Rightarrow> (case skipSpace t of [] \<Rightarrow> None
          | c # t \<Rightarrow> if c \<noteq> 58 then None
              else (case decodeValue f d t of None \<Rightarrow> None
              | Some (v, u) \<Rightarrow> (case skipSpace u of [] \<Rightarrow> None
              | e # w \<Rightarrow> if e = 125 then Some (mapPut k v m, w)
                  else if e = 44 then decodeMembers f d (mapPut k v m) w
                  else None)))))"

text \<open>\<open>decoder.Decode(&value)\<close>: the first value and the rest of the stream.\<close>

definition jsonDecode :: "bytes \<Rightarrow> (json \<times> bytes) option" where
  "jsonDecode s = decodeValue (2 * length s + 1) 0 s"

text \<open>The second \<open>Decode\<close> reports \<open>io.EOF\<close> exactly when only white space is left.\<close>

definition ensureJSONEnd :: "bytes \<Rightarrow> unit result" where
  "ensureJSONEnd rest = (if skipSpace rest = [] then Inr () else Inl [ErrInvalidDoc])"

section \<open>Encoding\<close>

definition htmlSafe :: "byte \<Rightarrow> bool" where
  "htmlSafe b = (32 \<le> b \<and> b < 0x80 \<and> b \<noteq> 34 \<and> b \<noteq> 38 \<and> b \<noteq> 60 \<and> b \<noteq> 62 \<and> b \<noteq> 92)"

definition shortEscape :: "byte \<Rightarrow> byte option" where
  "shortEscape c = map_of [(34, 34), (92, 92), (8, 98), (12, 102), (10, 110), (13, 114), (9, 116)] c"

text \<open>\<open>appendString\<close> with HTML escaping, without the quotes.\<close>

function escapeString :: "bytes \<Rightarrow> bytes" where
  "escapeString [] = []"
| "escapeString (c # s) =
     (if c < 0x80 then
        (if htmlSafe c then c # escapeString s
         else (case shortEscape c of
             Some e \<Rightarrow> 92 # e # escapeString s
           | None \<Rightarrow> str (CHR 92 # ''u00'') @ hexEncode [c] @ escapeString s))
      else if runeLen (c # s) = 0 then str (CHR 92 # ''ufffd'') @ escapeString s
      else if prefix [0xE2, 0x80, 0xA8] (c # s) then str (CHR 92 # ''u2028'') @ escapeString (drop 2 s)
      else if prefix [0xE2, 0x80, 0xA9] (c # s) then str (CHR 92 # ''u2029'') @ escapeString (drop 2 s)
      else take (runeLen (c # s)) (c # s) @ escapeString (drop (runeLen (c # s) - 1) s))"
  by pat_completeness auto
termination
  by (relation "measure length") auto

declare escapeString.simps [simp del]

definition quoteString :: "bytes \<Rightarrow> bytes" where
  "quoteString s = [34] @ escapeString s @ [34]"

text \<open>\<open>json.Marshal\<close>: an invalid \<open>json.Number\<close> is an error, an empty one is written as 0.\<close>

fun jsonMarshal :: "json \<Rightarrow> bytes option"
and marshalElems :: "json list \<Rightarrow> bytes option"
and marshalMembers :: "(bytes \<times> json) list \<Rightarrow> bytes option"
where
  "jsonMarshal JNull = Some (str ''null'')"
| "jsonMarshal (JBool b) = Some (if b then str ''true'' else str ''false'')"
| "jsonMarshal (JNum n) =
     (if n = [] then Some (str ''0'') else if isValidNumber n then Some n else None)"
| "jsonMarshal (JStr s) = Some (quoteString s)"
| "jsonMarshal (JArr xs) = map_option (\<lambda>b. [91] @ b @ [93]) (marshalElems xs)"
| "jsonMarshal (JObj m) = map_option (\<lambda>b. [123] @ b @ [125]) (marshalMembers m)"
| "marshalElems [] = Some []"
| "marshalElems (x # xs) =
     (case jsonMarshal x of None \<Rightarrow> None
      | Some a \<Rightarrow> if xs = [] then Some a else map_option (\<lambda>b. a @ [44] @ b) (marshalElems xs))"
| "marshalMembers [] = Some []"
| "marshalMembers ((k, v) # m) =
     (case jsonMarshal v of None \<Rightarrow> None
      | Some a \<Rightarrow>
        let p = quoteString k @ [58] @ a in
        if m = [] then Some p else map_option (\<lambda>b. p @ [44] @ b) (marshalMembers m))"

section \<open>validateDoc\<close>

definition isObject :: "json \<Rightarrow> bool" where
  "isObject v = (case v of JObj _ \<Rightarrow> True | _ \<Rightarrow> False)"

definition validateDoc :: "bytes \<Rightarrow> int \<Rightarrow> bytes result" where
  "validateDoc body maxBytes =
     (if int (length body) > maxBytes then Inl [ErrBodyTooLarge]
      else if \<not> utf8Valid body then Inl [ErrInvalidDoc]
      else case jsonDecode body of
        None \<Rightarrow> Inl [ErrInvalidDoc]
      | Some (v, rest) \<Rightarrow>
        if \<not> isObject v then Inl [ErrInvalidDoc]
        else bindE (ensureJSONEnd rest) (\<lambda>_.
          case jsonMarshal v of
            None \<Rightarrow> Inl []
          | Some canonical \<Rightarrow>
            if int (length canonical) > maxBytes then Inl [ErrBodyTooLarge] else Inr canonical))"

section \<open>The decoder consumes input, and the fuel is enough\<close>

lemma length_skipSpace: "length (skipSpace s) \<le> length s"
  by (simp add: skipSpace_def length_dropWhile_le)

lemma skipSpace_Cons: "skipSpace s = c # r \<Longrightarrow> length r < length s"
  using length_skipSpace [of s] by simp

lemma scanDigits_shorter: "scanDigits s = Some (a, r) \<Longrightarrow> length r < length s"
  by (cases s) (auto simp: scanDigits_def Let_def split: if_splits)

lemma scanInt_shorter: "scanInt s = Some (a, r) \<Longrightarrow> length r < length s"
  by (auto simp: scanInt_def dest: scanDigits_shorter split: list.splits if_splits)

lemma scanFrac_shorter: "scanFrac s = Some (a, r) \<Longrightarrow> length r \<le> length s"
  by (auto simp: scanFrac_def dest: scanDigits_shorter split: list.splits if_splits)

lemma scanExp_shorter: "scanExp s = Some (a, r) \<Longrightarrow> length r \<le> length s"
  by (auto simp: scanExp_def dest!: scanDigits_shorter split: list.splits if_splits)

lemma scanNumber_shorter:
  assumes "scanNumber s = Some (a, r)"
  shows "length r < length s"
proof -
  let ?t = "snd (case s of c # r \<Rightarrow> if c = 45 then ([c], r) else ([], s) | [] \<Rightarrow> ([], s))"
  have "length ?t \<le> length s" by (cases s) auto
  moreover from assms obtain i t1 f t2 e where "scanInt ?t = Some (i, t1)"
    "scanFrac t1 = Some (f, t2)" "scanExp t2 = Some (e, r)"
    by (auto simp: scanNumber_def Let_def split_beta split: option.splits prod.splits)
  ultimately show ?thesis
    using scanInt_shorter scanFrac_shorter scanExp_shorter by (meson order_le_less_trans order_less_le_trans)
qed

lemma unquote_shorter: "unquote s = Some (x, u) \<Longrightarrow> length u < length s"
proof (induction "length s" arbitrary: s x u rule: less_induct)
  case less
  show ?case
  proof (cases s)
    case Nil
    with less.prems show ?thesis by (simp add: unquote.simps)
  next
    case (Cons c t)
    define n where "n = length t"
    have IH: "length w < n" if "unquote y = Some (z, w)" "length y \<le> n" for y z w
      using less.hyps [of y z w] that Cons by (simp add: n_def)
    show ?thesis
      using less.prems n_def unfolding Cons
      by (subst (asm) unquote.simps)
        (auto split: if_splits list.splits option.splits dest!: IH)
  qed
qed

lemma decode_shorter:
  "decodeValue f d s = Some (v, r) \<Longrightarrow> length r < length s"
  "decodeElems f d s = Some (vs, r) \<Longrightarrow> length r < length s"
  "decodeMembers f d m s = Some (m', r) \<Longrightarrow> length r < length s"
proof (induction f arbitrary: d s v r vs m m')
  case (Suc f)
  note IH = Suc.IH
  {
    case 1
    then show ?case
      by (auto split: list.splits if_splits
        dest!: skipSpace_Cons unquote_shorter scanNumber_shorter IH(2,3))
  next
    case 2
    then show ?case
      by (auto split: list.splits if_splits option.splits dest!: skipSpace_Cons IH(1,2))
  next
    case 3
    then show ?case
      by (auto split: list.splits if_splits option.splits dest!: skipSpace_Cons unquote_shorter IH(1,3))
  }
qed simp_all

lemmas decode_simps = decodeValue.simps decodeElems.simps decodeMembers.simps

declare decode_simps [simp del]

lemma decode_fuel:
  "2 * length s < f \<Longrightarrow> decodeValue (Suc f) d s = decodeValue f d s"
  "2 * length s + 1 < f \<Longrightarrow> decodeElems (Suc f) d s = decodeElems f d s"
  "2 * length s < f \<Longrightarrow> decodeMembers (Suc f) d m s = decodeMembers f d m s"
proof (induction f arbitrary: d s m)
  case (Suc f)
  {
    case 1
    have IH: "decodeElems (Suc f) d' t = decodeElems f d' t"
        "decodeMembers (Suc f) d' m t = decodeMembers f d' m t" if "length t < length s" for t d' m
      using that 1 by (auto intro!: Suc.IH)
    have "decodeElems (Suc f) d' (e # t) = decodeElems f d' (e # t)"
        "decodeMembers (Suc f) d' m (e # t) = decodeMembers f d' m (e # t)"
      if "skipSpace s = c # r" "skipSpace r = e # t" for c r e t d' m
      using that skipSpace_Cons [of s] skipSpace_Cons [of r] by (auto intro!: IH)
    then show ?case
      unfolding decodeValue.simps(2) by (auto split: list.split)
  next
    case 2
    have V: "decodeValue (Suc f) d s = decodeValue f d s" using 2 by (intro Suc.IH) auto
    have "decodeElems (Suc f) d t = decodeElems f d t"
      if "decodeValue f d s = Some (v, r)" "skipSpace r = c # t" for v r c t
      using that 2 skipSpace_Cons [of r c t] decode_shorter(1) [of f d s v r] by (intro Suc.IH) auto
    then show ?case
      unfolding decodeElems.simps(2) V by (auto split: list.split option.split)
  next
    case 3
    have V: "decodeValue (Suc f) d t = decodeValue f d t"
      if "skipSpace s = q # r" "unquote r = Some (k, u)" "skipSpace u = c # t" for q r k u c t
      using that 3 skipSpace_Cons [of s] skipSpace_Cons [of u] unquote_shorter [of r]
      by (intro Suc.IH) fastforce
    have "decodeMembers (Suc f) d m' w = decodeMembers f d m' w"
      if "skipSpace s = q # r" "unquote r = Some (k, u)" "skipSpace u = c # t"
        "decodeValue f d t = Some (v, x)" "skipSpace x = e # w" for q r k u c t v x e w m'
      using that 3 skipSpace_Cons [of s] skipSpace_Cons [of u] unquote_shorter [of r]
        decode_shorter(1) [of f d t v x] skipSpace_Cons [of x]
      by (intro Suc.IH) fastforce
    with V show ?case
      unfolding decodeMembers.simps(2) by (auto split: list.split option.split)
  }
qed simp_all

lemma jsonDecode_fuel: "2 * length s < f \<Longrightarrow> decodeValue f 0 s = jsonDecode s"
proof (induction f)
  case (Suc f)
  show ?case
  proof (cases "2 * length s < f")
    case True
    with Suc show ?thesis by (simp add: decode_fuel(1))
  next
    case False
    with Suc.prems have "f = 2 * length s" by simp
    then show ?thesis by (simp add: jsonDecode_def)
  qed
qed simp

end
