(* ===== verification/Index_Value.thy ===== *)
theory Index_Value
  imports Complex_Main Key_Layout Json
begin

text \<open>
  The order-preserving encodings of indexed values (index.go, \<open>encodeIndexValue\<close> down to
  \<open>encodeSortableString\<close> and \<open>splitIndexEntry\<close>) and their validators (query\_cursor.go,
  \<open>validIndexValue\<close>, \<open>validSortableNumber\<close>, \<open>validSortableString\<close>).  A \<open>big.Rat\<close> is a
  \<^typ>\<open>rat\<close>, a \<open>big.Int\<close> that is not negative a \<^typ>\<open>nat\<close>.
\<close>

unbundle bit_operations_syntax

section \<open>Limits\<close>

definition maxIndexValue :: nat where "maxIndexValue = 4096"

definition maxEncodedIndexValue :: nat where "maxEncodedIndexValue = 2 * maxIndexValue + 1"

section \<open>Decimal text and rational numbers\<close>

fun decDigits :: "nat \<Rightarrow> nat list" where
  "decDigits n = (if n < 10 then [n] else decDigits (n div 10) @ [n mod 10])"

declare decDigits.simps [simp del]

text \<open>\<open>(*big.Int).String\<close> of a number that is not negative.\<close>

definition decString :: "nat \<Rightarrow> bytes" where
  "decString n = map (\<lambda>d. 48 + of_nat d) (decDigits n)"

definition decValue :: "bytes \<Rightarrow> nat" where
  "decValue s = foldl (\<lambda>n c. n * 10 + unat (c - 48)) 0 s"

text \<open>\<open>(*big.Rat).RatString\<close>: \<open>a\<close> or \<open>a/b\<close> in lowest terms.\<close>

definition ratString :: "rat \<Rightarrow> bytes" where
  "ratString q =
     (let (a, b) = quotient_of q;
          num = (if a < 0 then [45] else []) @ decString (nat \<bar>a\<bar>)
      in if b = 1 then num else num @ [47] @ decString (nat b))"

definition ratScaled :: "bool \<Rightarrow> nat \<Rightarrow> int \<Rightarrow> rat" where
  "ratScaled neg mant e =
     (let q = (if e \<ge> 0 then of_nat mant * 10 ^ nat e else of_nat mant / 10 ^ nat (- e))
      in if neg then - q else q)"

text \<open>
  \<open>(*big.Rat).SetString\<close> on a literal of the JSON grammar: the exponent has to fit in an
  \<open>int64\<close>, zero is zero whatever its exponent, and a scale beyond a million is refused.
\<close>

definition ratSetString :: "bytes \<Rightarrow> rat option" where
  "ratSetString s =
     (let (neg, t) = (case s of c # r \<Rightarrow> if c = 45 then (True, r) else (False, s) | [] \<Rightarrow> (False, s)) in
      case scanInt t of None \<Rightarrow> None
      | Some (i, t) \<Rightarrow> (case scanFrac t of None \<Rightarrow> None
      | Some (f, t) \<Rightarrow> (case scanExp t of None \<Rightarrow> None
      | Some (e, t) \<Rightarrow>
        if t \<noteq> [] then None
        else
          let frac = drop 1 f; mant = decValue (i @ frac);
              exp = (case e of [] \<Rightarrow> 0
                     | _ # x \<Rightarrow> if hd x = 45 then - int (decValue (tl x))
                                else if hd x = 43 then int (decValue (tl x)) else int (decValue x));
              exp5 = exp - int (length frac)
          in if exp < - (2 ^ 63) \<or> exp > 2 ^ 63 - 1 then None
             else if mant = 0 then Some 0
             else if \<bar>exp5\<bar> > 1000000 then None
             else Some (ratScaled neg mant exp5))))"

section \<open>Sortable numbers\<close>

text \<open>\<open>for denominator.Bit(0) == 0 \{ Rsh 1; twos++ \}\<close>; a denominator is never 0.\<close>

fun stripTwos :: "nat \<Rightarrow> nat \<Rightarrow> nat \<times> nat" where
  "stripTwos d twos = (if d \<noteq> 0 \<and> even d then stripTwos (d div 2) (twos + 1) else (d, twos))"

text \<open>The loop that divides by five while the remainder is 0.\<close>

fun stripFives :: "nat \<Rightarrow> nat \<Rightarrow> nat \<times> nat" where
  "stripFives d fives = (if d \<noteq> 0 \<and> d mod 5 = 0 then stripFives (d div 5) (fives + 1) else (d, fives))"

declare stripTwos.simps [simp del] stripFives.simps [simp del]

text \<open>\<open>for digits[len(digits)-1] == '0' \{ drop it; scale-- \}\<close>\<close>

function stripZeros :: "bytes \<Rightarrow> int \<Rightarrow> bytes \<times> int" where
  "stripZeros digits scale =
     (if digits \<noteq> [] \<and> last digits = 48 then stripZeros (butlast digits) (scale - 1)
      else (digits, scale))"
  by pat_completeness auto
termination
  by (relation "measure (\<lambda>(d, _). length d)") auto

declare stripZeros.simps [simp del]

definition signBit :: "64 word" where
  "signBit = push_bit 63 1"

definition encodeSortableNumber :: "rat \<Rightarrow> bytes" where
  "encodeSortableNumber number =
     (if number = 0 then [0x01]
      else
        let (num, den) = quotient_of \<bar>number\<bar>;
            (d1, twos) = stripTwos (nat den) 0;
            (_, fives) = stripFives d1 0;
            scale = max twos fives;
            coefficient = nat num * 2 ^ (scale - twos) * 5 ^ (scale - fives);
            (digits, scale') = stripZeros (decString coefficient) (int scale);
            exponent = int (length digits) - scale';
            encoded = putUint64 (word_of_int exponent XOR signBit) @
                      map (\<lambda>d. d - 48 + 1) digits @ [0x00]
        in if number > 0 then 0x02 # encoded else 0x00 # map (NOT) encoded)"

section \<open>Sortable strings\<close>

fun encodeSortableString :: "bytes \<Rightarrow> bytes" where
  "encodeSortableString [] = [0x00, 0x00]"
| "encodeSortableString (c # s) =
     (if c = 0x00 then 0x00 # 0xff # encodeSortableString s else c # encodeSortableString s)"

section \<open>Validity of stored values\<close>

definition validSortableNumber :: "bytes \<Rightarrow> bool" where
  "validSortableNumber v =
     (if length v = 1 then v ! 0 = 0x01
      else if length v < 11 \<or> v ! 0 \<noteq> 0x00 \<and> v ! 0 \<noteq> 0x02 then False
      else
        let negative = (v ! 0 = 0x00);
            orderedExponent = getUint64 (take 8 (drop 1 v));
            orderedExponent = (if negative then NOT orderedExponent else orderedExponent);
            exponent = sint (orderedExponent XOR signBit);
            terminator = (if negative then 0xff else 0x00);
            zero = (if negative then 0xfe else 0x01)
        in
        if exponent < - int maxIndexValue \<or> exponent > int maxIndexValue \<or>
           length v - 10 > maxIndexValue then False
        else if v ! (length v - 1) \<noteq> terminator \<or> v ! 9 = zero \<or> v ! (length v - 2) = zero then False
        else list_all (\<lambda>digit. \<not> (\<not> negative \<and> (digit < 0x01 \<or> digit > 0x0a) \<or>
                                  negative \<and> (digit < 0xf5 \<or> digit > 0xfe)))
               (take (length v - 1 - 9) (drop 9 v)))"

fun validSortableString_loop :: "bytes \<Rightarrow> bytes \<Rightarrow> bool" where
  "validSortableString_loop decoded [] = False"
| "validSortableString_loop decoded (c # v) =
     (if c \<noteq> 0x00 then validSortableString_loop (decoded @ [c]) v
      else case v of
          [] \<Rightarrow> False
        | b # r \<Rightarrow>
          if b = 0x00 then r = [] \<and> length decoded + 1 \<le> maxIndexValue \<and> utf8Valid decoded
          else if b = 0xff then validSortableString_loop (decoded @ [0x00]) r
          else False)"

definition validSortableString :: "bytes \<Rightarrow> bool" where
  "validSortableString v = validSortableString_loop [] v"

definition validIndexValue :: "bytes \<Rightarrow> bool" where
  "validIndexValue v =
     (if length v = 0 \<or> length v > maxEncodedIndexValue then False
      else if v ! 0 = 0x00 \<or> v ! 0 = 0x01 \<or> v ! 0 = 0x02 then length v = 1
      else if v ! 0 = 0x03 then validSortableNumber (drop 1 v)
      else if v ! 0 = 0x04 then validSortableString (drop 1 v)
      else False)"

section \<open>Encoding a JSON scalar\<close>

text \<open>
  The type switch on the decoded value.  Go's own numeric types cannot occur in what a
  decoder with \<open>UseNumber\<close> returns, so their case has no counterpart in \<^typ>\<open>json\<close>.
\<close>

definition encodeIndexValue :: "json \<Rightarrow> bytes result" where
  "encodeIndexValue v =
     bindE
       (case v of
          JNull \<Rightarrow> Inr [0x00]
        | JBool b \<Rightarrow> Inr (if b then [0x02] else [0x01])
        | JNum literal \<Rightarrow>
            if literal = [] then Inl [ErrInvalidIndexValue]
            else if jsonMarshal (JNum literal) = None then Inl [ErrInvalidIndexValue]
            else (case ratSetString literal of
                None \<Rightarrow> Inl [ErrInvalidIndexValue]
              | Some number \<Rightarrow>
                  if length (ratString number) + 1 > maxIndexValue then Inl [ErrInvalidIndexValue]
                  else Inr (0x03 # encodeSortableNumber number))
        | JStr s \<Rightarrow>
            if \<not> utf8Valid s then Inl [ErrInvalidIndexValue]
            else if length s + 1 > maxIndexValue then Inl [ErrInvalidIndexValue]
            else Inr (0x04 # encodeSortableString s)
        | _ \<Rightarrow> Inl [ErrInvalidIndexValue, ErrUnsupportedIdxValue])
       (\<lambda>encoded. if \<not> validIndexValue encoded then Inl [ErrInvalidIndexValue] else Inr encoded)"

section \<open>Splitting an index entry\<close>

text \<open>The string loop: the end of the encoded value from position \<open>end\<close> on, or a bad escape.\<close>

function splitString_loop :: "bytes \<Rightarrow> nat \<Rightarrow> nat option" where
  "splitString_loop rest e =
     (if \<not> e + 1 < length rest then Some e
      else if rest ! e \<noteq> 0x00 then splitString_loop rest (e + 1)
      else if rest ! (e + 1) = 0xff then splitString_loop rest (e + 2)
      else if rest ! (e + 1) = 0x00 then Some (e + 2)
      else None)"
  by pat_completeness auto
termination
  by (relation "measure (\<lambda>(rest, e). length rest - e)") auto

declare splitString_loop.simps [simp del]

definition indexByte :: "bytes \<Rightarrow> byte \<Rightarrow> int" where
  "indexByte s b = (let n = length (takeWhile (\<lambda>c. c \<noteq> b) s) in if n < length s then int n else -1)"

definition splitIndexEntry :: "bytes \<Rightarrow> bytes \<Rightarrow> (bytes \<times> bytes) option" where
  "splitIndexEntry pre key =
     (if \<not> prefix pre key \<or> length pre = 0 then None
      else
        let rest = drop (length pre) key; valueType = pre ! (length pre - 1) in
        case
          (if valueType = 0x03 then
             (if length rest = 0 then None
              else if rest ! 0 = 0x01 then Some 1
              else if rest ! 0 = 0x00 \<or> rest ! 0 = 0x02 then
                (let terminator = (if rest ! 0 = 0x00 then 0xff else 0x00) in
                 if length rest < 11 then None
                 else let position = indexByte (drop 9 rest) terminator in
                   if position < 1 then None else Some (9 + nat position + 1))
              else None)
           else if valueType = 0x04 then splitString_loop rest 0
           else None)
        of None \<Rightarrow> None
         | Some e \<Rightarrow>
           let v = valueType # take e rest in
           if \<not> validIndexValue v then None else Some (v, drop e rest))"

end
