(* ===== verification/Services.thy ===== *)
theory Services
  imports Validation Key_Layout
begin

text \<open>
  What the program calls and does not define.  The record \<open>services\<close> holds the operations of
  the packages outside the repository (Pebble, Zstandard, HKDF) and of the cryptographic
  primitives; every definition that uses them takes the record as an argument.  The locales
  state the documented behaviour the program relies on.  The theory also holds the
  state-and-error monad of the storage operations and the weakest preconditions that their
  proofs use.
\<close>

section \<open>Pebble\<close>

text \<open>
  A Pebble error: what \<open>pebble.IsCorruptionError\<close> says of it and the sentinels in its chain.
\<close>

record perr =
  corruption :: bool
  chain :: err

text \<open>
  A write queued in a batch.  A range deletion ends before its second key.
\<close>

datatype bop = BSet bytes bytes | BDelete bytes | BDeleteRange bytes "bytes option"

text \<open>
  An iterator: the entries it delivers in key order, the error it stops with after them (if
  any) and the error of closing it (if any).
\<close>

record iter =
  entries :: "(bytes \<times> bytes) list"
  iterError :: "perr option"
  iterClose :: "perr option"

record 'db services =
  dbGet :: "'db \<Rightarrow> bytes \<Rightarrow> perr + bytes option"
  getClose :: "'db \<Rightarrow> bytes \<Rightarrow> perr option"
  dbNewIter :: "'db \<Rightarrow> bytes option \<Rightarrow> bytes option \<Rightarrow> perr + iter"
  snapshotClose :: "'db \<Rightarrow> perr option"
  dbSet :: "'db \<Rightarrow> bytes \<Rightarrow> bytes \<Rightarrow> 'db \<times> perr option"
  batchQueue :: "bop list \<Rightarrow> bop \<Rightarrow> perr option"
  batchLen :: "bop list \<Rightarrow> int"
  batchCommit :: "'db \<Rightarrow> bop list \<Rightarrow> 'db \<times> perr option"
  batchClose :: "'db \<Rightarrow> perr option"
  dbClose :: "'db \<Rightarrow> err option"
  hkdf :: "bytes \<Rightarrow> bytes \<Rightarrow> bytes \<Rightarrow> bytes result"
  sha256 :: "bytes \<Rightarrow> bytes"
  gcmSeal :: "bytes \<Rightarrow> bytes \<Rightarrow> bytes \<Rightarrow> bytes \<Rightarrow> bytes"
  gcmOpen :: "bytes \<Rightarrow> bytes \<Rightarrow> bytes \<Rightarrow> bytes \<Rightarrow> bytes option"
  zstdEncoder :: "(bytes \<Rightarrow> bytes) result"
  zstdDecoder :: "(bytes \<Rightarrow> nat \<Rightarrow> bytes result) result"

definition wrapStore :: "perr \<Rightarrow> err" where
  "wrapStore e = (if corruption e then ErrCorruptData else ErrStoreUnavailable) # chain e"

definition isStoreUnavailable :: "err \<Rightarrow> bool" where
  "isStoreUnavailable e = (errors_Is e ErrStoreUnavailable \<or> errors_Is e ErrPebbleClosed)"

text \<open>The effect of a batch on the stored map, and the stored entries between two bounds.\<close>

fun applyOp :: "bop \<Rightarrow> (bytes \<rightharpoonup> bytes) \<Rightarrow> (bytes \<rightharpoonup> bytes)" where
  "applyOp (BSet k v) m = m(k \<mapsto> v)"
| "applyOp (BDelete k) m = m(k := None)"
| "applyOp (BDeleteRange lo None) m = m"
| "applyOp (BDeleteRange lo (Some hi)) m = (\<lambda>k. if lo \<le> k \<and> k < hi then None else m k)"

definition applyBatch :: "bop list \<Rightarrow> (bytes \<rightharpoonup> bytes) \<Rightarrow> (bytes \<rightharpoonup> bytes)" where
  "applyBatch ops m = fold applyOp ops m"

definition boundedKeys :: "(bytes \<rightharpoonup> bytes) \<Rightarrow> bytes option \<Rightarrow> bytes option \<Rightarrow> bytes set" where
  "boundedKeys m lo hi = {k \<in> dom m. (\<forall>l. lo = Some l \<longrightarrow> l \<le> k) \<and> (\<forall>h. hi = Some h \<longrightarrow> k < h)}"

definition sortedEntries :: "(bytes \<rightharpoonup> bytes) \<Rightarrow> bytes option \<Rightarrow> bytes option \<Rightarrow> (bytes \<times> bytes) list" where
  "sortedEntries m lo hi = map (\<lambda>k. (k, the (m k))) (sorted_list_of_set (boundedKeys m lo hi))"

text \<open>
  Pebble as documented, with the faults \<open>F\<close> it may report: a read returns the stored value, an
  iterator delivers the stored entries within its bounds in key order (all of them unless it
  reports an error), and a commit is atomic: when it reports an error the batch was applied or
  it was not.  A fault never carries a sentinel of this program.  With \<open>F = (\<lambda>_. False)\<close> Pebble
  does not fail.
\<close>

locale pebble_api =
  fixes E :: "'db services" and kv :: "'db \<Rightarrow> bytes \<rightharpoonup> bytes" and F :: "perr \<Rightarrow> bool"
  assumes kv_finite: "finite (dom (kv db))"
    and fault_chain: "F p \<Longrightarrow> set (chain p) \<subseteq> {ErrPebbleClosed}"
    and dbGet_kv: "dbGet E db k = Inr (kv db k) \<or> (\<exists>p. F p \<and> dbGet E db k = Inl p)"
    and getClose_fault: "getClose E db k = Some p \<Longrightarrow> F p"
    and dbNewIter_kv:
      "(\<exists>it rest. dbNewIter E db lo hi = Inr it \<and> entries it @ rest = sortedEntries (kv db) lo hi \<and>
          (rest = [] \<and> iterError it = None \<or> (\<exists>p. F p \<and> iterError it = Some p)) \<and>
          (\<forall>p. iterClose it = Some p \<longrightarrow> F p)) \<or>
       (\<exists>p. F p \<and> dbNewIter E db lo hi = Inl p)"
    and snapshotClose_fault: "snapshotClose E db = Some p \<Longrightarrow> F p"
    and dbSet_kv: "dbSet E db k v = (db', e) \<Longrightarrow>
      e = None \<and> kv db' = (kv db)(k \<mapsto> v) \<or>
      (\<exists>p. F p \<and> e = Some p \<and> (kv db' = (kv db)(k \<mapsto> v) \<or> kv db' = kv db))"
    and batchQueue_fault: "batchQueue E ops q = Some p \<Longrightarrow> F p"
    and batchCommit_kv: "batchCommit E db ops = (db', e) \<Longrightarrow>
      e = None \<and> kv db' = applyBatch ops (kv db) \<or>
      (\<exists>p. F p \<and> e = Some p \<and> (kv db' = applyBatch ops (kv db) \<or> kv db' = kv db))"
    and batchClose_fault: "batchClose E db = Some p \<Longrightarrow> F p"

section \<open>Cryptography and compression\<close>

text \<open>
  AES-256-GCM is deterministic in key, nonce, plaintext and additional data: it opens exactly
  what it seals, and a sealed text is 16 bytes longer than the plain text.  HKDF delivers 32
  bytes, SHA-256 sums have 32 bytes.
\<close>

locale crypto_api =
  fixes E :: "'db services"
  assumes gcmOpen_iff: "length k = 32 \<Longrightarrow> length n = 12 \<Longrightarrow>
      gcmOpen E k n c ad = Some p \<longleftrightarrow> c = gcmSeal E k n p ad"
    and length_gcmSeal: "length k = 32 \<Longrightarrow> length n = 12 \<Longrightarrow> length (gcmSeal E k n p ad) = length p + 16"
    and hkdf_ok: "\<exists>key. hkdf E secret salt info = Inr key \<and> length key = 32"
    and length_sha256: "length (sha256 E b) = 32"

text \<open>
  Zstandard: encoder and decoder are created (their options are constant and valid), the decoder
  with a capacity limit inverts the encoder when the capacity holds the result and its memory
  limit of 64 MiB does too, and the worst case of an encoded document of 64 MiB adds less than
  1 MiB.
\<close>

locale zstd_api =
  fixes E :: "'db services"
  assumes zstd_ok: "isOk (zstdEncoder E)" "isOk (zstdDecoder E)"
    and zstd_round: "zstdEncoder E = Inr enc \<Longrightarrow> zstdDecoder E = Inr dec \<Longrightarrow> length b \<le> 67108864 \<Longrightarrow>
      length b \<le> cap \<Longrightarrow> dec (enc b) cap = Inr b"
    and zstd_bound: "zstdEncoder E = Inr enc \<Longrightarrow> length b \<le> 67108864 \<Longrightarrow> length (enc b) \<le> 68157386"

section \<open>Storage operations\<close>

text \<open>
  The state of a running store: Pebble's state and the sources of randomness and time.  An
  operation returns a result and the new state.
\<close>

record 'db sys =
  pdb :: 'db
  wld :: world

type_synonym ('db, 'a) op = "'db sys \<Rightarrow> 'a result \<times> 'db sys"

definition returnM :: "'a \<Rightarrow> ('db, 'a) op" where
  "returnM a s = (Inr a, s)"

definition failM :: "err \<Rightarrow> ('db, 'a) op" where
  "failM e s = (Inl e, s)"

definition bindM :: "('db, 'a) op \<Rightarrow> ('a \<Rightarrow> ('db, 'b) op) \<Rightarrow> ('db, 'b) op" where
  "bindM m f s = (case m s of (Inl e, s') \<Rightarrow> (Inl e, s') | (Inr a, s') \<Rightarrow> f a s')"

text \<open>A computation that only reads Pebble, and one that only uses randomness and time.\<close>

definition readM :: "('db \<Rightarrow> 'a result) \<Rightarrow> ('db, 'a) op" where
  "readM f s = (f (pdb s), s)"

definition worldM :: "(world \<Rightarrow> ('a \<times> world) result) \<Rightarrow> ('db, 'a) op" where
  "worldM f s = (case f (wld s) of Inl e \<Rightarrow> (Inl e, s) | Inr (a, w) \<Rightarrow> (Inr a, s\<lparr>wld := w\<rparr>))"

text \<open>
  \<open>defer func() \{ if err := x.Close(); err != nil \{ resultErr = errors.Join(resultErr, wrapStore(..., err)) \} \}()\<close>
\<close>

definition joinClose :: "perr option \<Rightarrow> 'a result \<Rightarrow> 'a result" where
  "joinClose c r =
     (case c of None \<Rightarrow> r
      | Some e \<Rightarrow> (case r of Inl e' \<Rightarrow> Inl (e' @ wrapStore e) | Inr a \<Rightarrow> Inl (wrapStore e)))"

definition deferM :: "('db \<Rightarrow> perr option) \<Rightarrow> ('db, 'a) op \<Rightarrow> ('db, 'a) op" where
  "deferM c m s = (case m s of (r, s') \<Rightarrow> (joinClose (c (pdb s')) r, s'))"

text \<open>Queuing writes one by one, and committing a batch with a deferred close.\<close>

fun queueAll :: "'db services \<Rightarrow> bop list \<Rightarrow> bop list \<Rightarrow> bop list result" where
  "queueAll E batch [] = Inr batch"
| "queueAll E batch (q # qs) =
     (case batchQueue E batch q of Some e \<Rightarrow> Inl (wrapStore e) | None \<Rightarrow> queueAll E (batch @ [q]) qs)"

definition commitM :: "'db services \<Rightarrow> bop list \<Rightarrow> ('db, unit) op" where
  "commitM E batch s =
     (let (db', e) = batchCommit E (pdb s) batch in
      (case e of None \<Rightarrow> Inr () | Some e \<Rightarrow> Inl (wrapStore e), s\<lparr>pdb := db'\<rparr>))"

section \<open>Weakest preconditions\<close>

definition wp :: "('db, 'a) op \<Rightarrow> ('a result \<Rightarrow> 'db sys \<Rightarrow> bool) \<Rightarrow> 'db sys \<Rightarrow> bool" where
  "wp m Q s = (case m s of (r, s') \<Rightarrow> Q r s')"

named_theorems wp_simps \<open>weakest preconditions of the storage monad\<close>

lemma wp_returnM [wp_simps]: "wp (returnM a) Q s \<longleftrightarrow> Q (Inr a) s"
  by (simp add: wp_def returnM_def)

lemma wp_failM [wp_simps]: "wp (failM e) Q s \<longleftrightarrow> Q (Inl e) s"
  by (simp add: wp_def failM_def)

lemma wp_bindM [wp_simps]:
  "wp (bindM m f) Q s \<longleftrightarrow> wp m (\<lambda>r s'. case r of Inl e \<Rightarrow> Q (Inl e) s' | Inr a \<Rightarrow> wp (f a) Q s') s"
  by (simp add: wp_def bindM_def split: prod.splits sum.splits)

lemma wp_readM [wp_simps]: "wp (readM f) Q s \<longleftrightarrow> Q (f (pdb s)) s"
  by (simp add: wp_def readM_def)

lemma wp_worldM [wp_simps]:
  "wp (worldM f) Q s \<longleftrightarrow> (case f (wld s) of Inl e \<Rightarrow> Q (Inl e) s | Inr (a, w) \<Rightarrow> Q (Inr a) (s\<lparr>wld := w\<rparr>))"
  by (simp add: wp_def worldM_def split: sum.splits prod.splits)

lemma wp_deferM [wp_simps]:
  "wp (deferM c m) Q s \<longleftrightarrow> wp m (\<lambda>r s'. Q (joinClose (c (pdb s')) r) s') s"
  by (simp add: wp_def deferM_def split: prod.splits)

lemma wp_commitM [wp_simps]:
  "wp (commitM E b) Q s \<longleftrightarrow>
    (\<forall>db' e. batchCommit E (pdb s) b = (db', e) \<longrightarrow>
      Q (case e of None \<Rightarrow> Inr () | Some e \<Rightarrow> Inl (wrapStore e)) (s\<lparr>pdb := db'\<rparr>))"
  by (simp add: wp_def commitM_def split: prod.splits)

lemma wp_if [wp_simps]: "wp (if b then m else n) Q s \<longleftrightarrow> (if b then wp m Q s else wp n Q s)"
  by simp

lemma wp_mono: "wp m Q s \<Longrightarrow> (\<And>r s'. Q r s' \<Longrightarrow> R r s') \<Longrightarrow> wp m R s"
  by (auto simp: wp_def split: prod.splits)

lemma wpD: "wp m Q s \<Longrightarrow> m s = (r, s') \<Longrightarrow> Q r s'"
  by (simp add: wp_def)

lemma joinClose_simps [simp]:
  "joinClose None r = r" "joinClose c (Inr a) = Inr b \<longleftrightarrow> c = None \<and> a = b"
  "joinClose c (Inl e) = Inl e' \<longleftrightarrow> (case c of None \<Rightarrow> e' = e | Some p \<Rightarrow> e' = e @ wrapStore p)"
  "joinClose c (Inl e) \<noteq> Inr b"
  by (auto simp: joinClose_def split: option.splits)

lemma joinClose_Inr_iff [result_simps]: "joinClose c r = Inr a \<longleftrightarrow> c = None \<and> r = Inr a"
  by (cases r) (auto simp: joinClose_def split: option.splits)

lemma queueAll_Inr: "queueAll E b qs = Inr b' \<Longrightarrow> b' = b @ qs"
  by (induction E b qs rule: queueAll.induct) (auto split: option.splits)

lemma applyBatch_simps [simp]:
  "applyBatch [] m = m" "applyBatch (q # qs) m = applyBatch qs (applyOp q m)"
  "applyBatch (a @ b) m = applyBatch b (applyBatch a m)"
  by (simp_all add: applyBatch_def)

section \<open>Faults\<close>

text \<open>
  The errors that only faults cause: joined store errors, or, where randomness may fail
  (\<open>X\<close>), the error of \<open>rand.Read\<close>.
\<close>

definition faulty :: "(perr \<Rightarrow> bool) \<Rightarrow> bool \<Rightarrow> err \<Rightarrow> bool" where
  "faulty F X e \<longleftrightarrow> (\<exists>ps. ps \<noteq> [] \<and> (\<forall>p \<in> set ps. F p) \<and> e = concat (map wrapStore ps)) \<or> X \<and> e = []"

text \<open>A result that is \<open>g\<close> unless Pebble fails.\<close>

definition okOrFault :: "(perr \<Rightarrow> bool) \<Rightarrow> 'a result \<Rightarrow> 'a result \<Rightarrow> bool" where
  "okOrFault F r g \<longleftrightarrow> r = g \<or> (\<exists>e. r = Inl e \<and> faulty F False e)"

lemma faulty_wrapStore: "F p \<Longrightarrow> faulty F X (wrapStore p)"
  unfolding faulty_def by (rule disjI1, rule exI [of _ "[p]"]) simp

lemma faulty_append: "faulty F False e \<Longrightarrow> F p \<Longrightarrow> faulty F False (e @ wrapStore p)"
  unfolding faulty_def
proof (elim disjE exE conjE)
  fix ps
  assume "ps \<noteq> []" "\<forall>p \<in> set ps. F p" "e = concat (map wrapStore ps)" "F p"
  then have "ps @ [p] \<noteq> [] \<and> (\<forall>p \<in> set (ps @ [p]). F p) \<and> e @ wrapStore p = concat (map wrapStore (ps @ [p]))"
    by auto
  then show "(\<exists>ps. ps \<noteq> [] \<and> (\<forall>p \<in> set ps. F p) \<and> e @ wrapStore p = concat (map wrapStore ps)) \<or>
      False \<and> e @ wrapStore p = []" by blast
qed simp

lemma faulty_mono: "faulty F False e \<Longrightarrow> faulty F X e"
  by (auto simp: faulty_def)

lemma faulty_none: "\<not> faulty (\<lambda>_. False) False e"
  by (auto simp: faulty_def)

lemma okOrFault_refl [simp, intro]: "okOrFault F g g"
  by (simp add: okOrFault_def)

lemma okOrFault_fault: "F p \<Longrightarrow> okOrFault F (Inl (wrapStore p)) g"
  by (auto simp: okOrFault_def intro: faulty_wrapStore)

lemma okOrFault_joinClose:
  "okOrFault F r (Inr a) \<Longrightarrow> (\<And>p. c = Some p \<Longrightarrow> F p) \<Longrightarrow> okOrFault F (joinClose c r) (Inr a)"
  by (auto simp: okOrFault_def joinClose_def faulty_append faulty_wrapStore split: option.splits sum.splits)

lemma okOrFault_bindE:
  "okOrFault F r g \<Longrightarrow> (\<And>a. g = Inr a \<Longrightarrow> okOrFault F (f a) (h a)) \<Longrightarrow> okOrFault F (bindE r f) (bindE g h)"
  by (cases g) (auto simp: okOrFault_def)

lemma okOrFault_none: "okOrFault (\<lambda>_. False) r g \<longleftrightarrow> r = g"
  by (simp add: okOrFault_def faulty_none)

text \<open>A read in an operation, and a batch.\<close>

lemma wp_bind_read:
  assumes "okOrFault F (f (pdb s)) g" "\<And>e. faulty F False e \<Longrightarrow> Q (Inl e) s"
    "\<And>e. g = Inl e \<Longrightarrow> Q (Inl e) s" "\<And>a. g = Inr a \<Longrightarrow> wp (k a) Q s"
  shows "wp (bindM (readM f) k) Q s"
  using assms unfolding okOrFault_def by (auto simp: wp_simps split: sum.splits)

context pebble_api
begin

lemma queueAll_fault: "okOrFault F (queueAll E b qs) (Inr (b @ qs))"
proof (induction qs arbitrary: b)
  case (Cons q qs)
  then show ?case using Cons [of "b @ [q]"] batchQueue_fault [of b q]
    by (auto split: option.splits intro: okOrFault_fault)
qed simp

lemma fault_sentinels: "faulty F False e \<Longrightarrow> set e \<subseteq> {ErrStoreUnavailable, ErrCorruptData, ErrPebbleClosed}"
  unfolding faulty_def using fault_chain by (fastforce simp: wrapStore_def split: if_splits)

text \<open>
  Whatever a commit reports, the map is the old one or the new one, and it is the new one when
  the commit succeeds.
\<close>

lemma wp_commit:
  assumes "\<And>db'. kv db' = applyBatch ops (kv (pdb s)) \<Longrightarrow> Q (Inr ()) (s\<lparr>pdb := db'\<rparr>)"
    "\<And>db' e. kv db' = applyBatch ops (kv (pdb s)) \<or> kv db' = kv (pdb s) \<Longrightarrow> faulty F False e \<Longrightarrow>
       Q (Inl e) (s\<lparr>pdb := db'\<rparr>)"
  shows "wp (commitM E ops) Q s"
  unfolding wp_simps
proof (intro allI impI)
  fix db' e
  assume "batchCommit E (pdb s) ops = (db', e)"
  from batchCommit_kv [OF this] show "Q (case e of None \<Rightarrow> Inr () | Some e \<Rightarrow> Inl (wrapStore e)) (s\<lparr>pdb := db'\<rparr>)"
    using assms(1) [of db'] assms(2) [of db' "wrapStore (the e)"] faulty_wrapStore [of F "the e" False]
    by auto
qed

end

end
