(* ===== verification/Crypto.thy ===== *)
theory Crypto
  imports Services
begin

text \<open>
  Encryption at rest (crypto.go, document.go, format.go): the store metadata that verifies the
  master key, the wrapped database keys and the sealed document records.  Clearing key
  material in memory has no counterpart in the model.
\<close>

section \<open>Formats\<close>

definition storeMetaVersion :: byte where "storeMetaVersion = 1"
definition dbRecordVersion :: byte where "dbRecordVersion = 1"
definition docRecordVersion :: byte where "docRecordVersion = 1"
definition indexDefVersion :: byte where "indexDefVersion = 1"
definition cipherSuite1 :: byte where "cipherSuite1 = 1"
definition wrappingKey1 :: byte where "wrappingKey1 = 1"

definition keySize :: nat where "keySize = 32"
definition storeSaltLen :: nat where "storeSaltLen = 32"
definition gcmNonceLen :: nat where "gcmNonceLen = 12"
definition gcmTagLen :: nat where "gcmTagLen = 16"
definition storeMetaHeaderLen :: nat where "storeMetaHeaderLen = 1 + 1 + storeSaltLen + gcmNonceLen"
definition dbRecordHeaderLen :: nat where "dbRecordHeaderLen = 1 + 1 + gcmNonceLen"
definition docRecordHeaderLen :: nat where "docRecordHeaderLen = 1 + 1 + 16 + 8 + gcmNonceLen"

definition maxStoredDocBytes :: nat where "maxStoredDocBytes = 67108864"
definition maxDocRecordBytes :: nat where "maxDocRecordBytes = maxStoredDocBytes + 1048576"

lemmas format_defs = storeMetaVersion_def dbRecordVersion_def docRecordVersion_def indexDefVersion_def
  cipherSuite1_def wrappingKey1_def keySize_def storeSaltLen_def gcmNonceLen_def gcmTagLen_def
  storeMetaHeaderLen_def dbRecordHeaderLen_def docRecordHeaderLen_def

definition wrappingInfo :: bytes where "wrappingInfo = str ''kantandb/wrapping/v1''"
definition cursorInfo :: bytes where "cursorInfo = str ''kantandb/cursor/v1''"
definition documentInfo :: bytes where "documentInfo = str ''kantandb/document/v1''"
definition storeADInfo :: bytes where "storeADInfo = str ''kantandb/store-metadata/v1''"
definition databaseAD :: bytes where "databaseAD = str ''kantandb/database-record/v1''"
definition documentAD :: bytes where "documentAD = str ''kantandb/document-record/v1''"

definition storeVerifier :: "'db services \<Rightarrow> bytes" where
  "storeVerifier E = sha256 E (str ''kantandb/store/verifier/v1'')"

section \<open>Keys and additional data\<close>

definition recordAD :: "bytes \<Rightarrow> bytes \<Rightarrow> bytes \<Rightarrow> bytes" where
  "recordAD domain key header = domain @ putUint64 (of_nat (length key)) @ key @ header"

text \<open>\<open>aes.NewCipher\<close> accepts keys of 16, 24 and 32 bytes.\<close>

definition newGCM :: "bytes \<Rightarrow> unit result" where
  "newGCM key = guardE (length key = 16 \<or> length key = 24 \<or> length key = 32) []"

definition deriveWrapKey :: "'db services \<Rightarrow> bytes \<Rightarrow> bytes \<Rightarrow> bytes result" where
  "deriveWrapKey E masterKey salt = hkdf E masterKey salt wrappingInfo"

definition deriveKey :: "'db services \<Rightarrow> bytes \<Rightarrow> bytes \<Rightarrow> bytes result" where
  "deriveKey E input info = (if length input \<noteq> keySize then Inl [] else hkdf E input [] info)"

definition deriveCursorKey :: "'db services \<Rightarrow> bytes \<Rightarrow> bytes result" where
  "deriveCursorKey E databaseKey = deriveKey E databaseKey cursorInfo"

definition documentKeyInfo :: "bytes \<Rightarrow> bytes" where
  "documentKeyInfo docID = documentInfo @ putUint64 (of_nat (length docID)) @ docID"

definition deriveDocumentKey :: "'db services \<Rightarrow> bytes \<Rightarrow> bytes \<Rightarrow> bytes result" where
  "deriveDocumentKey E databaseKey docID = deriveKey E databaseKey (documentKeyInfo docID)"

section \<open>Database records\<close>

definition wrapDBKey :: "'db services \<Rightarrow> bytes \<Rightarrow> bytes \<Rightarrow> bytes \<Rightarrow> world \<Rightarrow> (bytes \<times> world) result" where
  "wrapDBKey E wrappingKey pebbleKey databaseKey w =
     (if length databaseKey \<noteq> keySize then Inl []
      else bindE (newGCM wrappingKey) (\<lambda>_.
           bindE (randRead gcmNonceLen w) (\<lambda>(nonce, w).
           let header = [dbRecordVersion, wrappingKey1] @ nonce in
           Inr (header @ gcmSeal E wrappingKey nonce databaseKey (recordAD databaseAD pebbleKey header), w))))"

definition unwrapDBKey :: "'db services \<Rightarrow> bytes \<Rightarrow> bytes \<Rightarrow> bytes \<Rightarrow> bytes result" where
  "unwrapDBKey E wrappingKey pebbleKey value =
     (if length value \<noteq> dbRecordHeaderLen + keySize + gcmTagLen \<or> value ! 0 \<noteq> dbRecordVersion \<or>
         value ! 1 \<noteq> wrappingKey1 then Inl [ErrCorruptData]
      else bindE (newGCM wrappingKey) (\<lambda>_.
        let header = take dbRecordHeaderLen value in
        case gcmOpen E wrappingKey (drop 2 header) (drop dbRecordHeaderLen value)
               (recordAD databaseAD pebbleKey header) of
          None \<Rightarrow> Inl [ErrCorruptData]
        | Some key \<Rightarrow> if length key \<noteq> keySize then Inl [ErrCorruptData] else Inr key))"

section \<open>Document records\<close>

record storedDoc =
  docJson :: bytes
  docRev :: revision

definition sealDoc ::
  "'db services \<Rightarrow> bytes \<Rightarrow> bytes \<Rightarrow> bytes \<Rightarrow> revision \<Rightarrow> bytes \<Rightarrow> world \<Rightarrow> (bytes \<times> world) result" where
  "sealDoc E pebbleKey databaseKey docID rv json w =
     (if length json > maxStoredDocBytes then Inl []
      else bindE (deriveDocumentKey E databaseKey docID) (\<lambda>key.
           bindE (zstdEncoder E) (\<lambda>encodeAll.
           let compressed = encodeAll json in
           if length compressed > maxDocRecordBytes - docRecordHeaderLen - gcmTagLen then Inl []
           else bindE (newGCM key) (\<lambda>_.
                bindE (randRead gcmNonceLen w) (\<lambda>(nonce, w).
                let header = [docRecordVersion, cipherSuite1] @ rv @ putUint64 (of_nat (length json)) @ nonce in
                Inr (header @ gcmSeal E key nonce compressed (recordAD documentAD pebbleKey header), w))))))"

definition parseDocRecord :: "bytes \<Rightarrow> (bytes \<times> revision \<times> 64 word) result" where
  "parseDocRecord value =
     (if length value < docRecordHeaderLen + gcmTagLen \<or> length value > maxDocRecordBytes
      then Inl [ErrCorruptData]
      else if value ! 0 \<noteq> docRecordVersion \<or> value ! 1 \<noteq> cipherSuite1 then Inl [ErrCorruptData]
      else let header = take docRecordHeaderLen value in
        Inr (header, take 16 (drop 2 header), getUint64 (take 8 (drop 18 header))))"

definition openDoc :: "'db services \<Rightarrow> bytes \<Rightarrow> bytes \<Rightarrow> bytes \<Rightarrow> bytes \<Rightarrow> storedDoc result" where
  "openDoc E pebbleKey databaseKey docID value =
     bindE (parseDocRecord value) (\<lambda>(header, rv, len).
     bindE (deriveDocumentKey E databaseKey docID) (\<lambda>key.
     bindE (newGCM key) (\<lambda>_.
     case gcmOpen E key (drop 26 header) (drop docRecordHeaderLen value)
            (recordAD documentAD pebbleKey header) of
       None \<Rightarrow> Inl [ErrCorruptData]
     | Some compressed \<Rightarrow>
       if unat len > maxStoredDocBytes then Inl [ErrCorruptData]
       else bindE (zstdDecoder E) (\<lambda>decodeAll.
         case decodeAll compressed (unat len) of
           Inl _ \<Rightarrow> Inl [ErrCorruptData]
         | Inr json \<Rightarrow>
           if (of_nat (length json) :: 64 word) \<noteq> len then Inl [ErrCorruptData]
           else Inr \<lparr>docJson = json, docRev = rv\<rparr>))))"

section \<open>Store metadata\<close>

definition storeEmpty :: "'db services \<Rightarrow> 'db \<Rightarrow> bool result" where
  "storeEmpty E db =
     (case dbNewIter E db None None of
        Inl e \<Rightarrow> Inl (wrapStore e)
      | Inr it \<Rightarrow> joinClose (iterClose it)
          (case (entries it, iterError it) of
             ([], Some e) \<Rightarrow> Inl (wrapStore e)
           | (es, _) \<Rightarrow> Inr (es = [])))"

definition openStoreMeta :: "'db services \<Rightarrow> bytes \<Rightarrow> bytes \<Rightarrow> bytes result" where
  "openStoreMeta E value masterKey =
     (if length value \<noteq> storeMetaHeaderLen + length (storeVerifier E) + gcmTagLen \<or>
         value ! 0 \<noteq> storeMetaVersion \<or> value ! 1 \<noteq> wrappingKey1 then Inl [ErrInvalidStoreKey]
      else let header = take storeMetaHeaderLen value in
        bindE (deriveWrapKey E masterKey (take storeSaltLen (drop 2 header))) (\<lambda>key.
        bindE (newGCM key) (\<lambda>_.
        case gcmOpen E key (drop (2 + storeSaltLen) header) (drop storeMetaHeaderLen value)
               (recordAD storeADInfo storeMetaKey header) of
          None \<Rightarrow> Inl [ErrInvalidStoreKey]
        | Some plain \<Rightarrow> if plain \<noteq> storeVerifier E then Inl [ErrInvalidStoreKey] else Inr key)))"

definition setM :: "'db services \<Rightarrow> bytes \<Rightarrow> bytes \<Rightarrow> ('db, unit) op" where
  "setM E k v s =
     (let (db', e) = dbSet E (pdb s) k v in
      (case e of None \<Rightarrow> Inr () | Some e \<Rightarrow> Inl (wrapStore e), s\<lparr>pdb := db'\<rparr>))"

definition initStoreMeta :: "'db services \<Rightarrow> bytes \<Rightarrow> ('db, bytes) op" where
  "initStoreMeta E masterKey =
     bindM (readM (storeEmpty E)) (\<lambda>empty.
     if \<not> empty then failM [ErrInvalidStoreKey]
     else
       bindM (worldM (randRead storeSaltLen)) (\<lambda>salt.
       bindM (readM (\<lambda>_. deriveWrapKey E masterKey salt)) (\<lambda>key.
       bindM (readM (\<lambda>_. newGCM key)) (\<lambda>_.
       bindM (worldM (randRead gcmNonceLen)) (\<lambda>nonce.
       let header = [storeMetaVersion, wrappingKey1] @ salt @ nonce in
       bindM (setM E storeMetaKey
                (header @ gcmSeal E key nonce (storeVerifier E) (recordAD storeADInfo storeMetaKey header))) (\<lambda>_.
       returnM key))))))"

definition initStoreCrypto :: "'db services \<Rightarrow> bytes \<Rightarrow> ('db, bytes) op" where
  "initStoreCrypto E masterKey s =
     (if length masterKey \<noteq> keySize then failM [ErrInvalidStoreKey] s
      else case dbGet E (pdb s) storeMetaKey of
          Inl e \<Rightarrow> failM (wrapStore e) s
        | Inr None \<Rightarrow> initStoreMeta E masterKey s
        | Inr (Some value) \<Rightarrow>
            (case (getClose E (pdb s) storeMetaKey, openStoreMeta E value masterKey) of
               (Some e, _) \<Rightarrow> failM (wrapStore e) s
             | (None, Inl _) \<Rightarrow> failM [ErrInvalidStoreKey] s
             | (None, Inr key) \<Rightarrow> returnM key s))"

end
