(* ===== verification/Crypto_Laws.thy ===== *)
theory Crypto_Laws
  imports Crypto
begin

text \<open>
  What encryption at rest promises: additional data and key derivation inputs are injective, so
  a record is bound to its key and header; the records that open are exactly the records that
  were sealed; sealing and opening are inverse to each other.
\<close>

section \<open>Binding\<close>

lemma recordAD_inject:
  assumes "length key < 2 ^ 64" "length key' < 2 ^ 64"
  shows "recordAD domain key header = recordAD domain key' header' \<longleftrightarrow> key = key' \<and> header = header'"
proof
  assume "recordAD domain key header = recordAD domain key' header'"
  then have "putUint64 (of_nat (length key)) = putUint64 (of_nat (length key'))" and
    r: "key @ header = key' @ header'"
    by (simp_all add: recordAD_def)
  then have "(of_nat (length key) :: 64 word) = of_nat (length key')" by simp
  then have "unat (of_nat (length key) :: 64 word) = unat (of_nat (length key') :: 64 word)" by simp
  then have "length key = length key'" using assms by (simp add: unat_of_nat)
  with r show "key = key' \<and> header = header'" by simp
qed simp

lemma documentKeyInfo_inject:
  "length i < 2 ^ 64 \<Longrightarrow> length j < 2 ^ 64 \<Longrightarrow> documentKeyInfo i = documentKeyInfo j \<longleftrightarrow> i = j"
  by (auto simp: documentKeyInfo_def)

lemma domains_differ:
  "recordAD storeADInfo k h \<noteq> recordAD databaseAD k' h'"
  "recordAD storeADInfo k h \<noteq> recordAD documentAD k' h'"
  "recordAD databaseAD k h \<noteq> recordAD documentAD k' h'"
  "documentKeyInfo i \<noteq> cursorInfo"
  by (simp_all add: recordAD_def storeADInfo_def databaseAD_def documentAD_def documentKeyInfo_def
      documentInfo_def cursorInfo_def str_def)

text \<open>
  C37: the additional data of a record binds its kind, its key and its header.  Two records
  authenticate the same additional data only when they are of the same kind (store metadata,
  database record, document record) and agree in the Pebble key and in the header.
\<close>

theorem recordAD_binds:
  assumes "d \<in> {storeADInfo, databaseAD, documentAD}" "d' \<in> {storeADInfo, databaseAD, documentAD}"
    "length key < 2 ^ 64" "length key' < 2 ^ 64"
  shows "recordAD d key header = recordAD d' key' header' \<longleftrightarrow> d = d' \<and> key = key' \<and> header = header'"
  using assms domains_differ domains_differ [symmetric] recordAD_inject [of key key' d header header']
  by auto

theorem recordAD_binds_witness:
  "recordAD databaseAD [1, 97] [1, 1] \<noteq> recordAD databaseAD [1] [97, 1, 1]"
  using recordAD_binds [of databaseAD databaseAD "[1, 97]" "[1]" "[1, 1]" "[97, 1, 1]"] by simp

section \<open>Sealed records\<close>

locale record_api = crypto_api E + zstd_api E for E :: "'db services"

context crypto_api
begin

lemma deriveKey_ok: "length k = keySize \<Longrightarrow> \<exists>key. deriveKey E k info = Inr key \<and> length key = 32"
  using hkdf_ok [of k "[]" info] by (auto simp: deriveKey_def)

lemma deriveDocumentKey_length: "deriveDocumentKey E dk i = Inr key \<Longrightarrow> length key = 32"
  using deriveKey_ok [of dk "documentKeyInfo i"]
  by (auto simp: deriveDocumentKey_def deriveKey_def split: if_splits)

lemma randRead_Inr: "randRead n w = Inr (b, w') \<Longrightarrow> length b = n \<and> b = take n (entropy w) \<and> w' = w\<lparr>entropy := drop n (entropy w)\<rparr>"
  by (auto simp: randRead_def split: if_splits)

text \<open>The records that unwrap are the ones that were wrapped.\<close>

lemma unwrapDBKey_iff:
  assumes "length wk = 32"
  shows "unwrapDBKey E wk pk v = Inr dk \<longleftrightarrow>
    length dk = 32 \<and> (\<exists>nonce. length nonce = 12 \<and>
      v = [1, 1] @ nonce @ gcmSeal E wk nonce dk (recordAD databaseAD pk ([1, 1] @ nonce)))"
    (is "_ \<longleftrightarrow> ?R")
proof
  assume u: "unwrapDBKey E wk pk v = Inr dk"
  let ?h = "take 14 v"
  let ?n = "drop 2 ?h"
  from u have len: "length v = 62" and v01: "v ! 0 = 1" "v ! 1 = 1"
    and o: "gcmOpen E wk ?n (drop 14 v) (recordAD databaseAD pk ?h) = Some dk" and dk: "length dk = 32"
    by (auto simp: unwrapDBKey_def format_defs result_simps Let_def numeral_2_eq_2 split: if_splits option.splits)
  have n: "length ?n = 12" using len by simp
  have h: "?h = [1, 1] @ ?n"
  proof -
    from len obtain a b r where "v = a # b # r" by (cases v; cases "tl v") auto
    with v01 show ?thesis by (simp add: numeral_eq_Suc)
  qed
  have "drop 14 v = gcmSeal E wk ?n dk (recordAD databaseAD pk ?h)"
    using gcmOpen_iff [OF assms n] o by simp
  then have "v = [1, 1] @ ?n @ gcmSeal E wk ?n dk (recordAD databaseAD pk ([1, 1] @ ?n))"
    using append_take_drop_id [of 14 v] h by (metis append.assoc)
  with n dk show ?R by blast
next
  assume ?R
  then obtain n where n: "length n = 12" "length dk = 32"
    "v = [1, 1] @ n @ gcmSeal E wk n dk (recordAD databaseAD pk ([1, 1] @ n))" by blast
  then have "take 14 v = [1, 1] @ n" "drop 14 v = gcmSeal E wk n dk (recordAD databaseAD pk ([1, 1] @ n))"
    "length v = 62" "v ! 0 = 1" "v ! 1 = 1"
    using length_gcmSeal [OF assms n(1)] by auto
  moreover have "gcmOpen E wk n (gcmSeal E wk n dk ad) ad = Some dk" for ad
    using gcmOpen_iff [OF assms n(1)] by simp
  ultimately show "unwrapDBKey E wk pk v = Inr dk"
    using assms n(1,2) by (simp add: unwrapDBKey_def format_defs newGCM_def)
qed

lemma wrapDBKey_spec:
  assumes "length wk = 32"
  shows "wrapDBKey E wk pk dk w = Inr (v, w') \<Longrightarrow> unwrapDBKey E wk pk v = Inr dk"
  unfolding unwrapDBKey_iff [OF assms]
  by (auto simp: wrapDBKey_def format_defs result_simps Let_def dest!: randRead_Inr
      intro!: exI [of _ "take 12 (entropy w)"] split: if_splits)

lemma wrapDBKey_ok:
  assumes "length wk = 32" "length dk = 32" "12 \<le> length (entropy w)"
  shows "\<exists>v. wrapDBKey E wk pk dk w = Inr (v, w\<lparr>entropy := drop 12 (entropy w)\<rparr>)"
  using assms by (simp add: wrapDBKey_def format_defs newGCM_def randRead_def Let_def)

end

text \<open>The shape of a document record.\<close>

definition docHeader :: "revision \<Rightarrow> nat \<Rightarrow> bytes \<Rightarrow> bytes" where
  "docHeader rv len nonce = [1, 1] @ rv @ putUint64 (of_nat len) @ nonce"

lemma docHeader_parts:
  assumes "length rv = 16" "length nonce = 12"
  shows "length (docHeader rv len nonce) = 38" "docHeader rv len nonce ! 0 = 1" "docHeader rv len nonce ! 1 = 1"
    "take 16 (drop 2 (docHeader rv len nonce)) = rv"
    "getUint64 (take 8 (drop 18 (docHeader rv len nonce))) = of_nat len"
    "drop 26 (docHeader rv len nonce) = nonce"
  using assms getUint64_putUint64 [of "of_nat len" "[]"]
  by (simp_all add: docHeader_def)

lemma parseDocRecord_header:
  assumes "length rv = 16" "length nonce = 12" "16 \<le> length c" "length c + 38 \<le> maxDocRecordBytes"
  shows "parseDocRecord (docHeader rv len nonce @ c) = Inr (docHeader rv len nonce, rv, of_nat len)"
proof -
  let ?h = "docHeader rv len nonce"
  note parts = docHeader_parts [OF assms(1,2), of len]
  have nth: "(?h @ c) ! 0 = 1" "(?h @ c) ! 1 = 1" using parts(1-3) by (simp_all add: nth_append)
  have tk: "take 38 (?h @ c) = ?h" using parts(1) by simp
  have len: "length (?h @ c) = 38 + length c" using parts(1) by simp
  show ?thesis
    unfolding parseDocRecord_def format_defs Let_def
    using assms(3,4) nth tk len parts(4,5) by simp
qed

context record_api
begin

lemma sealDoc_Inr:
  assumes "sealDoc E pk dk i rv json w = Inr (v, w')"
  obtains key enc nonce where "deriveDocumentKey E dk i = Inr key" "length key = 32"
    "zstdEncoder E = Inr enc" "length nonce = 12" "length json \<le> maxStoredDocBytes"
    "length (enc json) + 54 \<le> maxDocRecordBytes"
    "v = docHeader rv (length json) nonce @
           gcmSeal E key nonce (enc json) (recordAD documentAD pk (docHeader rv (length json) nonce))"
    "w' = w\<lparr>entropy := drop 12 (entropy w)\<rparr>"
proof -
  from assms have "length json \<le> maxStoredDocBytes"
    by (simp add: sealDoc_def split: if_splits)
  moreover from this assms obtain key enc where key: "deriveDocumentKey E dk i = Inr key" and
    enc: "zstdEncoder E = Inr enc" and len: "length (enc json) \<le> maxDocRecordBytes - 38 - 16"
    by (auto simp: sealDoc_def result_simps Let_def format_defs split: if_splits)
  moreover from calculation assms have
    "bindE (newGCM key) (\<lambda>_. bindE (randRead 12 w) (\<lambda>(nonce, w).
       Inr (docHeader rv (length json) nonce @
           gcmSeal E key nonce (enc json) (recordAD documentAD pk (docHeader rv (length json) nonce)), w))) = Inr (v, w')"
    unfolding sealDoc_def docHeader_def by (simp add: Let_def format_defs)
  then obtain nonce where "randRead 12 w = Inr (nonce, w')" and
    v: "v = docHeader rv (length json) nonce @
           gcmSeal E key nonce (enc json) (recordAD documentAD pk (docHeader rv (length json) nonce))"
    by (auto simp: result_simps)
  moreover from this(1) have "length nonce = 12" "w' = w\<lparr>entropy := drop 12 (entropy w)\<rparr>"
    using randRead_Inr by blast+
  moreover have "length (enc json) + 54 \<le> maxDocRecordBytes"
    using len by (simp add: maxDocRecordBytes_def)
  ultimately show ?thesis using that deriveDocumentKey_length [OF key] by blast
qed

lemma unat_of_nat_doc: "n \<le> maxStoredDocBytes \<Longrightarrow> unat (of_nat n :: 64 word) = n"
  by (simp add: maxStoredDocBytes_def unat_of_nat)

lemma openDoc_sealDoc:
  assumes "sealDoc E pk dk i rv json w = Inr (v, w')" "length rv = 16"
  shows "openDoc E pk dk i v = Inr \<lparr>docJson = json, docRev = rv\<rparr>"
proof -
  from assms(1) obtain key enc nonce where s: "deriveDocumentKey E dk i = Inr key" "length key = 32"
    "zstdEncoder E = Inr enc" "length nonce = 12" "length json \<le> maxStoredDocBytes"
    "length (enc json) + 54 \<le> maxDocRecordBytes" and
    v: "v = docHeader rv (length json) nonce @
           gcmSeal E key nonce (enc json) (recordAD documentAD pk (docHeader rv (length json) nonce))"
    by (rule sealDoc_Inr)
  from zstd_ok(2) obtain dec where dec: "zstdDecoder E = Inr dec" by (auto simp: isOk_iff)
  let ?h = "docHeader rv (length json) nonce"
  let ?c = "gcmSeal E key nonce (enc json) (recordAD documentAD pk ?h)"
  have c: "length ?c = length (enc json) + 16" by (rule length_gcmSeal [OF s(2,4)])
  have p: "parseDocRecord v = Inr (?h, rv, of_nat (length json))"
    unfolding v using c s(6) by (intro parseDocRecord_header [OF assms(2) s(4)]) auto
  have d: "drop 38 v = ?c" unfolding v using docHeader_parts(1) [OF assms(2) s(4)] by simp
  have o: "gcmOpen E key (drop 26 ?h) (drop 38 v) (recordAD documentAD pk ?h) = Some (enc json)"
    unfolding d docHeader_parts(6) [OF assms(2) s(4)] using gcmOpen_iff [OF s(2,4)] by simp
  have z: "dec (enc json) (length json) = Inr json" using s(5) by (intro zstd_round [OF s(3) dec]) (simp_all add: maxStoredDocBytes_def)
  have g: "newGCM key = Inr ()" using s(2) by (simp add: newGCM_def)
  show ?thesis
    unfolding openDoc_def format_defs p using s(1,5) g o z dec unat_of_nat_doc [OF s(5)] by simp
qed

end

context zstd_api
begin

lemma zstd_eq: "\<exists>enc. zstdEncoder E = Inr enc \<and> (\<forall>b. length b \<le> maxStoredDocBytes \<longrightarrow> length (enc b) + 54 \<le> maxDocRecordBytes)"
  using zstd_ok(1) zstd_bound by (fastforce simp: isOk_iff maxStoredDocBytes_def maxDocRecordBytes_def)

end

context record_api
begin

lemma sealDoc_ok:
  assumes "length dk = 32" "length json \<le> maxStoredDocBytes" "12 \<le> length (entropy w)"
  shows "\<exists>v. sealDoc E pk dk i rv json w = Inr (v, w\<lparr>entropy := drop 12 (entropy w)\<rparr>)"
proof -
  from deriveKey_ok [of dk "documentKeyInfo i"] assms(1)
  obtain key where k: "deriveDocumentKey E dk i = Inr key" "length key = 32"
    by (auto simp: deriveDocumentKey_def keySize_def)
  from zstd_eq obtain enc where e: "zstdEncoder E = Inr enc" "length (enc json) + 54 \<le> maxDocRecordBytes"
    using assms(2) by blast
  then have "\<not> maxDocRecordBytes - 38 - 16 < length (enc json)" by simp
  with assms k e show ?thesis
    by (simp add: sealDoc_def format_defs newGCM_def randRead_def Let_def)
qed

text \<open>Sealing fails only for a document that is too large or without randomness.\<close>

lemma sealDoc_cases:
  assumes "length dk = 32"
  shows "(\<exists>v. sealDoc E pk dk i rv json w = Inr (v, w\<lparr>entropy := drop 12 (entropy w)\<rparr>) \<and>
      length json \<le> maxStoredDocBytes \<and> 12 \<le> length (entropy w)) \<or>
    sealDoc E pk dk i rv json w = Inl [] \<and> (maxStoredDocBytes < length json \<or> length (entropy w) < 12)"
proof (cases "length json \<le> maxStoredDocBytes \<and> 12 \<le> length (entropy w)")
  case True
  then show ?thesis using sealDoc_ok [OF assms] by blast
next
  case False
  have "sealDoc E pk dk i rv json w = Inl []"
  proof (cases "length json \<le> maxStoredDocBytes")
    case True
    with False have "randRead 12 w = Inl []" by (simp add: randRead_def)
    moreover from deriveKey_ok [of dk "documentKeyInfo i"] assms(1)
    obtain key where "deriveDocumentKey E dk i = Inr key" "length key = 32"
      by (auto simp: deriveDocumentKey_def keySize_def)
    moreover from zstd_eq obtain enc where e: "zstdEncoder E = Inr enc" "length (enc json) + 54 \<le> maxDocRecordBytes"
      using True by blast
    moreover have "\<not> maxDocRecordBytes - 38 - 16 < length (enc json)" using e by simp
    ultimately show ?thesis using True by (simp add: sealDoc_def format_defs newGCM_def)
  qed (simp add: sealDoc_def)
  with False show ?thesis by auto
qed

end

end
