(* ===== verification/Index_Defs.thy ===== *)
theory Index_Defs
  imports Index_Value Crypto_Laws
begin

text \<open>
  Index definitions and the values they select (index.go): validation of definitions and of
  JSON Pointers, evaluation of a pointer, the index entries of a document, and the stored
  definitions of a database.  A Go map from index names to encoded values is an association
  list in the order of the definitions; the laws show that the order does not matter.
\<close>

section \<open>Definitions\<close>

record indexDef =
  idxName :: bytes
  idxPath :: bytes

definition maxIndexes :: nat where "maxIndexes = 16"
definition maxIndexPath :: nat where "maxIndexPath = 256"

fun pointerEscapes :: "bytes \<Rightarrow> bool" where
  "pointerEscapes [] = True"
| "pointerEscapes (c # p) =
     (if c \<noteq> 126 then pointerEscapes p
      else case p of [] \<Rightarrow> False
        | e # q \<Rightarrow> if e \<noteq> 48 \<and> e \<noteq> 49 then False else pointerEscapes q)"

definition validatePointer :: "bytes \<Rightarrow> unit result" where
  "validatePointer path =
     (if length path = 0 \<or> length path > maxIndexPath \<or> path ! 0 \<noteq> 47 \<or> \<not> utf8Valid path then Inl []
      else guardE (pointerEscapes path) [])"

fun validateIndexes_loop :: "bytes list \<Rightarrow> indexDef list \<Rightarrow> unit result" where
  "validateIndexes_loop seen [] = Inr ()"
| "validateIndexes_loop seen (def # defs) =
     (if \<not> isOk (validateName (idxName def)) then Inl [ErrInvalidIndex]
      else if \<not> isOk (validatePointer (idxPath def)) then Inl [ErrInvalidIndex]
      else if List.member seen (idxName def) then Inl [ErrInvalidIndex]
      else validateIndexes_loop (idxName def # seen) defs)"

definition validateIndexes :: "indexDef list \<Rightarrow> unit result" where
  "validateIndexes defs =
     (if length defs > maxIndexes then Inl [ErrInvalidIndex] else validateIndexes_loop [] defs)"

definition findIndex :: "indexDef list \<Rightarrow> bytes \<Rightarrow> indexDef option" where
  "findIndex defs name = find (\<lambda>def. idxName def = name) defs"

section \<open>JSON Pointers\<close>

text \<open>\<open>strings.SplitSeq\<close> on a single byte.\<close>

fun splitByte :: "byte \<Rightarrow> bytes \<Rightarrow> bytes list" where
  "splitByte sep [] = [[]]"
| "splitByte sep (c # s) =
     (if c = sep then [] # splitByte sep s
      else case splitByte sep s of t # ts \<Rightarrow> (c # t) # ts | [] \<Rightarrow> [[c]])"

text \<open>\<open>strings.ReplaceAll\<close> of a two-byte text by one byte.\<close>

fun replacePair :: "byte \<Rightarrow> byte \<Rightarrow> byte \<Rightarrow> bytes \<Rightarrow> bytes" where
  "replacePair a b c (x # y # s) =
     (if x = a \<and> y = b then c # replacePair a b c s else x # replacePair a b c (y # s))"
| "replacePair a b c s = s"

definition unescapeToken :: "bytes \<Rightarrow> bytes" where
  "unescapeToken token = replacePair 126 48 126 (replacePair 126 49 47 token)"

text \<open>\<open>strconv.Atoi\<close> on a 64-bit platform, and \<open>strconv.Itoa\<close>.\<close>

definition atoi :: "bytes \<Rightarrow> int option" where
  "atoi s =
     (let (neg, ds) = (case s of c # r \<Rightarrow> if c = 45 then (True, r) else if c = 43 then (False, r) else (False, s)
                       | [] \<Rightarrow> (False, s));
          n = (if neg then - int (decValue ds) else int (decValue ds))
      in if ds = [] \<or> \<not> list_all isDigit ds then None
         else if n < - (2 ^ 63) \<or> n > 2 ^ 63 - 1 then None
         else Some n)"

definition itoa :: "int \<Rightarrow> bytes" where
  "itoa n = (if n < 0 then 45 # decString (nat (- n)) else decString (nat n))"

fun stepPointer :: "json \<Rightarrow> bytes \<Rightarrow> json option" where
  "stepPointer (JObj m) name = map_of m name"
| "stepPointer (JArr xs) name =
     (case atoi name of None \<Rightarrow> None
      | Some index \<Rightarrow>
        if index < 0 \<or> itoa index \<noteq> name \<or> index \<ge> int (length xs) then None
        else Some (xs ! nat index))"
| "stepPointer _ name = None"

fun pointerValue_loop :: "json \<Rightarrow> bytes list \<Rightarrow> json option" where
  "pointerValue_loop current [] = Some current"
| "pointerValue_loop current (token # tokens) =
     (case stepPointer current (unescapeToken token) of
        None \<Rightarrow> None
      | Some v \<Rightarrow> pointerValue_loop v tokens)"

definition pointerValue :: "json \<Rightarrow> bytes \<Rightarrow> json option" where
  "pointerValue rootObj path = pointerValue_loop rootObj (splitByte 47 (drop 1 path))"

section \<open>The indexed values of a document\<close>

text \<open>
  \<open>decoder.Decode(&root)\<close> with \<open>root\<close> a \<open>map[string]any\<close>: an object is stored, \<open>null\<close> leaves the
  map nil (without keys), every other value is a type error.
\<close>

definition decodeRoot :: "bytes \<Rightarrow> (json \<times> bytes) result" where
  "decodeRoot document =
     (case jsonDecode document of
        Some (JObj m, rest) \<Rightarrow> Inr (JObj m, rest)
      | Some (JNull, rest) \<Rightarrow> Inr (JObj [], rest)
      | _ \<Rightarrow> Inl [])"

fun indexValues_loop :: "json \<Rightarrow> indexDef list \<Rightarrow> (bytes \<times> bytes) list result" where
  "indexValues_loop rootObj [] = Inr []"
| "indexValues_loop rootObj (def # defs) =
     (case pointerValue rootObj (idxPath def) of
        None \<Rightarrow> indexValues_loop rootObj defs
      | Some v \<Rightarrow>
        (case encodeIndexValue v of
           Inl e \<Rightarrow> if errors_Is e ErrUnsupportedIdxValue then indexValues_loop rootObj defs else Inl e
         | Inr encoded \<Rightarrow> bindE (indexValues_loop rootObj defs) (\<lambda>vs. Inr ((idxName def, encoded) # vs))))"

definition indexValues :: "bytes \<Rightarrow> indexDef list \<Rightarrow> (bytes \<times> bytes) list result" where
  "indexValues document defs =
     bindE (decodeRoot document) (\<lambda>(rootObj, rest).
     bindE (ensureJSONEnd rest) (\<lambda>_.
     indexValues_loop rootObj defs))"

section \<open>Index entries in a batch\<close>

definition setIndexEntries :: "bytes \<Rightarrow> bytes \<Rightarrow> (bytes \<times> bytes) list \<Rightarrow> bop list" where
  "setIndexEntries database docID values =
     map (\<lambda>(name, value). BSet (indexKey database name value docID) []) values"

definition lookupValue :: "(bytes \<times> bytes) list \<Rightarrow> bytes \<Rightarrow> bytes" where
  "lookupValue values name = (case map_of values name of None \<Rightarrow> [] | Some v \<Rightarrow> v)"

definition changeIndexEntries ::
  "bytes \<Rightarrow> bytes \<Rightarrow> (bytes \<times> bytes) list \<Rightarrow> (bytes \<times> bytes) list \<Rightarrow> bop list" where
  "changeIndexEntries database docID old nxt =
     map (\<lambda>(name, value). BDelete (indexKey database name value docID))
       (filter (\<lambda>(name, value). value \<noteq> lookupValue nxt name) old) @
     map (\<lambda>(name, value). BSet (indexKey database name value docID) [])
       (filter (\<lambda>(name, value). value \<noteq> lookupValue old name) nxt)"

definition deleteIndexEntries :: "bytes \<Rightarrow> bytes \<Rightarrow> (bytes \<times> bytes) list \<Rightarrow> bop list" where
  "deleteIndexEntries database docID values =
     map (\<lambda>(name, value). BDelete (indexKey database name value docID)) values"

section \<open>Stored definitions\<close>

definition encodeIndexDef :: "indexDef \<Rightarrow> bytes" where
  "encodeIndexDef def = [indexDefVersion] @ idxPath def"

definition decodeIndexDef :: "bytes \<Rightarrow> bytes \<Rightarrow> indexDef result" where
  "decodeIndexDef name value =
     (if length value < 2 \<or> value ! 0 \<noteq> indexDefVersion then Inl []
      else let def = \<lparr>idxName = name, idxPath = drop 1 value\<rparr> in
        bindE (validateIndexes [def]) (\<lambda>_. Inr def))"

fun indexes_loop :: "bytes \<Rightarrow> (bytes \<times> bytes) list \<Rightarrow> indexDef list result" where
  "indexes_loop pre [] = Inr []"
| "indexes_loop pre ((key, value) # es) =
     (case readPart (drop (length pre) key) of
        None \<Rightarrow> Inl [ErrCorruptData]
      | Some (namePart, rest) \<Rightarrow>
        if length rest \<noteq> 0 then Inl [ErrCorruptData]
        else (case decodeIndexDef namePart value of
            Inl _ \<Rightarrow> Inl [ErrCorruptData]
          | Inr def \<Rightarrow> bindE (indexes_loop pre es) (\<lambda>defs. Inr (def # defs))))"

definition indexes :: "'db services \<Rightarrow> bytes \<Rightarrow> 'db \<Rightarrow> indexDef list result" where
  "indexes E database db =
     (let pre = indexDefPrefix database in
      case dbNewIter E db (Some pre) (prefixEnd pre) of
        Inl e \<Rightarrow> Inl (wrapStore e)
      | Inr it \<Rightarrow> joinClose (iterClose it)
          (bindE (indexes_loop pre (entries it)) (\<lambda>defs.
           case iterError it of
             Some e \<Rightarrow> Inl (wrapStore e)
           | None \<Rightarrow>
             (case validateIndexes defs of
                Inl _ \<Rightarrow> Inl [ErrCorruptData]
              | Inr _ \<Rightarrow> Inr (sort_key idxName defs)))))"

end
