(* ===== verification/Store.thy ===== *)
theory Store
  imports Index_Defs
begin

text \<open>
  The storage operations of storage.go.  Every operation takes the services, the wrapping key
  of the store and its Go arguments, and runs on the state of a store; the locks it takes are
  the subject of the theory of locks.  A context is the sequence of results that successive
  calls of \<open>ctx.Err\<close> return.
\<close>

section \<open>Reading records\<close>

definition authDBRecord :: "'db services \<Rightarrow> bytes \<Rightarrow> bytes \<Rightarrow> bytes \<Rightarrow> unit result" where
  "authDBRecord E wrappingKey pebbleKey value =
     bindE (unwrapDBKey E wrappingKey pebbleKey value) (\<lambda>_. Inr ())"

definition hasDB :: "'db services \<Rightarrow> bytes \<Rightarrow> bytes \<Rightarrow> 'db \<Rightarrow> bool result" where
  "hasDB E wrappingKey name db =
     (case dbGet E db (dbKey name) of
        Inl e \<Rightarrow> Inl (wrapStore e)
      | Inr None \<Rightarrow> Inr False
      | Inr (Some value) \<Rightarrow> joinClose (getClose E db (dbKey name))
          (case authDBRecord E wrappingKey (dbKey name) value of
             Inl _ \<Rightarrow> Inl [ErrCorruptData]
           | Inr _ \<Rightarrow> Inr True))"

definition has :: "'db services \<Rightarrow> bytes \<Rightarrow> 'db \<Rightarrow> bool result" where
  "has E key db =
     (case dbGet E db key of
        Inl e \<Rightarrow> Inl (wrapStore e)
      | Inr None \<Rightarrow> Inr False
      | Inr (Some _) \<Rightarrow> (case getClose E db key of Some e \<Rightarrow> Inl (wrapStore e) | None \<Rightarrow> Inr True))"

definition readDoc :: "'db services \<Rightarrow> bytes \<Rightarrow> bytes \<Rightarrow> bytes \<Rightarrow> 'db \<Rightarrow> storedDoc result" where
  "readDoc E database docID databaseKey db =
     (let key = docKey database docID in
      case dbGet E db key of
        Inl e \<Rightarrow> Inl (wrapStore e)
      | Inr None \<Rightarrow> Inl [ErrDocNotFound]
      | Inr (Some value) \<Rightarrow> joinClose (getClose E db key)
          (case openDoc E key databaseKey docID value of
             Inl _ \<Rightarrow> Inl [ErrCorruptData]
           | Inr doc \<Rightarrow> Inr doc))"

definition databaseKey :: "'db services \<Rightarrow> bytes \<Rightarrow> bytes \<Rightarrow> 'db \<Rightarrow> bytes result" where
  "databaseKey E wrappingKey name db =
     (let pebbleKey = dbKey name in
      case dbGet E db pebbleKey of
        Inl e \<Rightarrow> Inl (wrapStore e)
      | Inr None \<Rightarrow> Inl [ErrDBNotFound]
      | Inr (Some value) \<Rightarrow> joinClose (getClose E db pebbleKey)
          (case unwrapDBKey E wrappingKey pebbleKey value of
             Inl _ \<Rightarrow> Inl [ErrCorruptData]
           | Inr key \<Rightarrow> Inr key))"

definition documentDBKey :: "'db services \<Rightarrow> bytes \<Rightarrow> bytes \<Rightarrow> 'db \<Rightarrow> bytes result" where
  "documentDBKey E wrappingKey name db =
     (case databaseKey E wrappingKey name db of
        Inl e \<Rightarrow> if errors_Is e ErrDBNotFound then Inl [ErrDocNotFound] else Inl e
      | Inr key \<Rightarrow> Inr key)"

definition cursorKey :: "'db services \<Rightarrow> bytes \<Rightarrow> bytes \<Rightarrow> 'db \<Rightarrow> bytes result" where
  "cursorKey E wrappingKey name db =
     bindE (databaseKey E wrappingKey name db) (\<lambda>key. deriveCursorKey E key)"

definition makeDBRecord :: "'db services \<Rightarrow> bytes \<Rightarrow> bytes \<Rightarrow> world \<Rightarrow> (bytes \<times> world) result" where
  "makeDBRecord E wrappingKey pebbleKey w =
     bindE (randRead keySize w) (\<lambda>(key, w). wrapDBKey E wrappingKey pebbleKey key w)"

function makeRevision :: "revision option \<Rightarrow> world \<Rightarrow> (revision \<times> world) result" where
  "makeRevision previous w =
     (case randRead 16 w of
        Inl e \<Rightarrow> Inl e
      | Inr (rv, w') \<Rightarrow> if previous = None \<or> Some rv \<noteq> previous then Inr (rv, w') else makeRevision previous w')"
  by pat_completeness auto
termination
  by (relation "measure (\<lambda>(p, w). length (entropy w))") (auto simp: randRead_def split: if_splits)

declare makeRevision.simps [simp del]

definition matchRevision :: "matchCond \<Rightarrow> revision \<Rightarrow> bool" where
  "matchRevision match current = (\<not> condSet match \<or> wildcard match \<or> matchRev match = current)"

section \<open>Batches and iterators\<close>

text \<open>A batch with its deferred close: the writes are queued one by one and committed.\<close>

definition batchM :: "'db services \<Rightarrow> bop list \<Rightarrow> ('db, unit) op" where
  "batchM E ops =
     deferM (batchClose E)
       (bindM (readM (\<lambda>_. queueAll E [] ops)) (\<lambda>batch. commitM E batch))"

text \<open>
  \<open>valid := iter.First()\<close>, and with a cursor \<open>valid = iter.SeekGE(key)\<close> and one \<open>Next\<close> when the
  iterator stands at the key itself.
\<close>

definition seekAfter :: "bytes option \<Rightarrow> (bytes \<times> bytes) list \<Rightarrow> (bytes \<times> bytes) list" where
  "seekAfter start es =
     (case start of None \<Rightarrow> es
      | Some key \<Rightarrow>
        (case dropWhile (\<lambda>(k, _). k < key) es of
           [] \<Rightarrow> []
         | (k, v) # r \<Rightarrow> if k = key then r else (k, v) # r))"

text \<open>\<open>iter.Error()\<close> after a loop that left the entries \<open>rest\<close> undelivered.\<close>

definition iterErr :: "iter \<Rightarrow> (bytes \<times> bytes) list \<Rightarrow> unit result" where
  "iterErr it rest =
     (case (rest, iterError it) of ([], Some e) \<Rightarrow> Inl (wrapStore e) | _ \<Rightarrow> Inr ())"

section \<open>Databases\<close>

definition createDB :: "'db services \<Rightarrow> bytes \<Rightarrow> bytes \<Rightarrow> indexDef list \<Rightarrow> ('db, unit) op" where
  "createDB E wrappingKey name defs =
     bindM (readM (\<lambda>_. validateIndexes defs)) (\<lambda>_.
     bindM (readM (hasDB E wrappingKey name)) (\<lambda>exists.
     if exists then failM [ErrDBExists]
     else
       bindM (worldM (makeDBRecord E wrappingKey (dbKey name))) (\<lambda>rec.
       batchM E (BSet (dbKey name) rec #
                 map (\<lambda>def. BSet (indexDefKey name (idxName def)) (encodeIndexDef def)) defs))))"

fun listDBs_loop ::
  "'db services \<Rightarrow> bytes \<Rightarrow> int \<Rightarrow> bytes list \<Rightarrow> (bytes \<times> bytes) list \<Rightarrow> (bytes list \<times> (bytes \<times> bytes) list) result" where
  "listDBs_loop E wrappingKey limit names [] = Inr (names, [])"
| "listDBs_loop E wrappingKey limit names ((k, v) # es) =
     (if \<not> int (length names) < limit then Inr (names, (k, v) # es)
      else let name = drop (length dbPrefix) k in
        case authDBRecord E wrappingKey k v of
          Inl _ \<Rightarrow> Inl [ErrCorruptData]
        | Inr _ \<Rightarrow> listDBs_loop E wrappingKey limit (names @ [name]) es)"

definition listDBs :: "'db services \<Rightarrow> bytes \<Rightarrow> int \<Rightarrow> bytes \<Rightarrow> 'db \<Rightarrow> bytes list result" where
  "listDBs E wrappingKey limit cursor db =
     (case dbNewIter E db (Some dbPrefix) (prefixEnd dbPrefix) of
        Inl e \<Rightarrow> Inl (wrapStore e)
      | Inr it \<Rightarrow> joinClose (iterClose it)
          (bindE (listDBs_loop E wrappingKey limit []
                    (seekAfter (if cursor = [] then None else Some (dbKey cursor)) (entries it))) (\<lambda>(names, rest).
           bindE (iterErr it rest) (\<lambda>_. Inr names))))"

definition deleteDB :: "'db services \<Rightarrow> bytes \<Rightarrow> bytes \<Rightarrow> ('db, unit) op" where
  "deleteDB E wrappingKey name =
     bindM (readM (hasDB E wrappingKey name)) (\<lambda>exists.
     if \<not> exists then failM [ErrDBNotFound]
     else batchM E
       [BDelete (dbKey name),
        BDeleteRange (docsPrefix name) (prefixEnd (docsPrefix name)),
        BDeleteRange (indexDataPrefix name) (prefixEnd (indexDataPrefix name)),
        BDeleteRange (indexDefPrefix name) (prefixEnd (indexDefPrefix name))])"

section \<open>Documents\<close>

definition createDocWithID :: "'db services \<Rightarrow> bytes \<Rightarrow> bytes \<Rightarrow> bytes \<Rightarrow> bytes \<Rightarrow> ('db, revision) op" where
  "createDocWithID E wrappingKey database docID json =
     bindM (readM (databaseKey E wrappingKey database)) (\<lambda>dbk.
     let key = docKey database docID in
     bindM (readM (has E key)) (\<lambda>exists.
     if exists then failM [ErrDocExists]
     else
       bindM (readM (indexes E database)) (\<lambda>defs.
       bindM (readM (\<lambda>_. indexValues json defs)) (\<lambda>values.
       bindM (worldM (makeRevision None)) (\<lambda>rv.
       bindM (worldM (sealDoc E key dbk docID rv json)) (\<lambda>rec.
       bindM (batchM E (BSet key rec # setIndexEntries database docID values)) (\<lambda>_.
       returnM rv)))))))"

definition getDoc :: "'db services \<Rightarrow> bytes \<Rightarrow> bytes \<Rightarrow> bytes \<Rightarrow> 'db \<Rightarrow> storedDoc result" where
  "getDoc E wrappingKey database docID db =
     bindE (documentDBKey E wrappingKey database db) (\<lambda>dbk.
     readDoc E database docID dbk db)"

fun listDocs_loop :: "bytes \<Rightarrow> int \<Rightarrow> bytes list \<Rightarrow> (bytes \<times> bytes) list \<Rightarrow> (bytes list \<times> (bytes \<times> bytes) list) result" where
  "listDocs_loop pre limit ids [] = Inr (ids, [])"
| "listDocs_loop pre limit ids ((k, v) # es) =
     (if \<not> int (length ids) \<le> limit then Inr (ids, (k, v) # es)
      else case parseDocRecord v of
          Inl _ \<Rightarrow> Inl [ErrCorruptData]
        | Inr _ \<Rightarrow> listDocs_loop pre limit (ids @ [drop (length pre) k]) es)"

definition listDocs :: "'db services \<Rightarrow> bytes \<Rightarrow> bytes \<Rightarrow> int \<Rightarrow> bytes \<Rightarrow> 'db \<Rightarrow> (bytes list \<times> bool) result" where
  "listDocs E wrappingKey database limit cursor db =
     bindE (hasDB E wrappingKey database db) (\<lambda>exists.
     if \<not> exists then Inl [ErrDBNotFound]
     else let pre = docsPrefix database in
       case dbNewIter E db (Some pre) (prefixEnd pre) of
         Inl e \<Rightarrow> Inl (wrapStore e)
       | Inr it \<Rightarrow> joinClose (iterClose it)
           (bindE (listDocs_loop pre limit []
                     (seekAfter (if cursor = [] then None else Some (docKey database cursor)) (entries it))) (\<lambda>(ids, rest).
            bindE (iterErr it rest) (\<lambda>_.
            if int (length ids) > limit then (if limit < 0 then Inl [GoPanic] else Inr (take (nat limit) ids, True))
            else Inr (ids, False)))))"

definition replaceDoc ::
  "'db services \<Rightarrow> bytes \<Rightarrow> bytes \<Rightarrow> bytes \<Rightarrow> bytes \<Rightarrow> matchCond \<Rightarrow> ('db, revision) op" where
  "replaceDoc E wrappingKey database docID json match =
     bindM (readM (documentDBKey E wrappingKey database)) (\<lambda>dbk.
     let key = docKey database docID in
     bindM (readM (readDoc E database docID dbk)) (\<lambda>current.
     if \<not> matchRevision match (docRev current) then failM [ErrPreconditionFailed]
     else
       bindM (readM (indexes E database)) (\<lambda>defs.
       bindM (readM (\<lambda>_. mapErr (\<lambda>_. [ErrCorruptData]) (indexValues (docJson current) defs))) (\<lambda>oldValues.
       bindM (readM (\<lambda>_. indexValues json defs)) (\<lambda>newValues.
       bindM (worldM (makeRevision (Some (docRev current)))) (\<lambda>rv.
       bindM (worldM (sealDoc E key dbk docID rv json)) (\<lambda>rec.
       bindM (batchM E (BSet key rec # changeIndexEntries database docID oldValues newValues)) (\<lambda>_.
       returnM rv))))))))"

definition patchDoc ::
  "'db services \<Rightarrow> bytes \<Rightarrow> bytes \<Rightarrow> bytes \<Rightarrow> matchCond \<Rightarrow> (bytes \<Rightarrow> bytes result) \<Rightarrow> ('db, storedDoc) op" where
  "patchDoc E wrappingKey database docID match apply =
     bindM (readM (documentDBKey E wrappingKey database)) (\<lambda>dbk.
     let key = docKey database docID in
     bindM (readM (readDoc E database docID dbk)) (\<lambda>current.
     if \<not> matchRevision match (docRev current) then failM [ErrPreconditionFailed]
     else
       bindM (readM (\<lambda>_. apply (docJson current))) (\<lambda>json.
       bindM (readM (indexes E database)) (\<lambda>defs.
       bindM (readM (\<lambda>_. mapErr (\<lambda>_. [ErrCorruptData]) (indexValues (docJson current) defs))) (\<lambda>oldValues.
       bindM (readM (\<lambda>_. indexValues json defs)) (\<lambda>newValues.
       bindM (worldM (makeRevision (Some (docRev current)))) (\<lambda>rv.
       bindM (worldM (sealDoc E key dbk docID rv json)) (\<lambda>rec.
       bindM (batchM E (BSet key rec # changeIndexEntries database docID oldValues newValues)) (\<lambda>_.
       returnM \<lparr>docJson = json, docRev = rv\<rparr>)))))))))"

definition deleteDoc :: "'db services \<Rightarrow> bytes \<Rightarrow> bytes \<Rightarrow> bytes \<Rightarrow> matchCond \<Rightarrow> ('db, unit) op" where
  "deleteDoc E wrappingKey database docID match =
     bindM (readM (documentDBKey E wrappingKey database)) (\<lambda>dbk.
     let key = docKey database docID in
     bindM (readM (readDoc E database docID dbk)) (\<lambda>current.
     if \<not> matchRevision match (docRev current) then failM [ErrPreconditionFailed]
     else
       bindM (readM (indexes E database)) (\<lambda>defs.
       bindM (readM (\<lambda>_. mapErr (\<lambda>_. [ErrCorruptData]) (indexValues (docJson current) defs))) (\<lambda>values.
       batchM E (BDelete key # deleteIndexEntries database docID values)))))"


section \<open>Operations that draw identifiers\<close>

text \<open>
  No operation of the store adds to the entropy of the world, so the loops that draw a new
  identifier after a collision end.
\<close>

definition left :: "'db sys \<Rightarrow> nat" where
  "left s = length (entropy (wld s))"

definition shrinks :: "('db, 'a) op \<Rightarrow> bool" where
  "shrinks m \<longleftrightarrow> (\<forall>s. left (snd (m s)) \<le> left s)"

lemma shrinks_basic [intro!]:
  "shrinks (returnM a)" "shrinks (failM e)" "shrinks (readM f)" "shrinks (commitM E b)"
  by (auto simp: shrinks_def returnM_def failM_def readM_def commitM_def left_def Let_def split: prod.splits)

lemma shrinks_bindM [intro!]:
  assumes "shrinks m" "\<And>a. shrinks (f a)"
  shows "shrinks (bindM m f)"
  unfolding shrinks_def
proof
  fix s
  show "left (snd (bindM m f s)) \<le> left s"
    using assms(1) [unfolded shrinks_def, rule_format, of s]
      assms(2) [unfolded shrinks_def, rule_format, of _ "snd (m s)"]
    by (auto simp: bindM_def split: prod.splits sum.splits) (metis order_trans)
qed

lemma shrinks_deferM [intro!]: "shrinks m \<Longrightarrow> shrinks (deferM c m)"
  by (auto simp: shrinks_def deferM_def split: prod.splits) (metis snd_conv)

lemma shrinks_worldM [intro!]:
  "(\<And>w a w'. g w = Inr (a, w') \<Longrightarrow> length (entropy w') \<le> length (entropy w)) \<Longrightarrow> shrinks (worldM g)"
  by (auto simp: shrinks_def worldM_def left_def split: prod.splits sum.splits)

lemma randRead_entropy: "randRead n w = Inr (b, w') \<Longrightarrow> length (entropy w) = n + length (entropy w')"
  by (auto simp: randRead_def split: if_splits)

lemma makeRevision_entropy:
  "makeRevision p w = Inr (rv, w') \<Longrightarrow> length (entropy w') + 16 \<le> length (entropy w)"
proof (induction p w rule: makeRevision.induct)
  case (1 p w)
  then show ?case
    by (subst (asm) (2) makeRevision.simps)
      (fastforce split: sum.splits prod.splits if_splits dest: randRead_entropy)
qed

lemma sealDoc_entropy: "sealDoc E pk dk i rv json w = Inr (v, w') \<Longrightarrow> length (entropy w') \<le> length (entropy w)"
  by (auto simp: sealDoc_def result_simps Let_def split: if_splits dest!: randRead_entropy)

lemma makeID_entropy: "makeID w = Inr (i, w') \<Longrightarrow> length (entropy w) = 16 + length (entropy w')"
  by (auto simp: makeID_def result_simps Let_def unixMilli_def split: list.splits dest!: randRead_entropy)

lemma createDocWithID_shrinks: "shrinks (createDocWithID E wk database i json)"
  unfolding createDocWithID_def batchM_def Let_def
  by auto (metis makeRevision_entropy sealDoc_entropy add_leD1)+

lemma createDoc_decreases:
  assumes "createDocWithID E wk database docID json (s\<lparr>wld := w\<rparr>) = (r, s')" "makeID (wld s) = Inr (docID, w)"
  shows "left s' < left s"
proof -
  have "left s' \<le> left (s\<lparr>wld := w\<rparr>)"
    using createDocWithID_shrinks [of E wk database docID json] assms(1) by (metis shrinks_def snd_conv)
  also have "\<dots> < left s" using makeID_entropy [OF assms(2)] by (simp add: left_def)
  finally show ?thesis .
qed

function createDoc :: "'db services \<Rightarrow> bytes \<Rightarrow> bytes \<Rightarrow> bytes \<Rightarrow> ('db, bytes \<times> revision) op" where
  "createDoc E wrappingKey database json s =
     (case makeID (wld s) of
        Inl e \<Rightarrow> (Inl e, s)
      | Inr (docID, w) \<Rightarrow>
        (case createDocWithID E wrappingKey database docID json (s\<lparr>wld := w\<rparr>) of
           (Inl e, s') \<Rightarrow> if errors_Is e ErrDocExists then createDoc E wrappingKey database json s' else (Inl e, s')
         | (Inr rv, s') \<Rightarrow> (Inr (docID, rv), s')))"
  by pat_completeness auto
termination
  by (relation "measure (\<lambda>(E, wk, d, j, s). left s)") (auto dest!: createDoc_decreases [OF sym])

declare createDoc.simps [simp del]


text \<open>Identifiers and revisions for an import: identifiers are drawn again until they differ.\<close>

function makeImportIDs_loop ::
  "nat \<Rightarrow> bytes list \<Rightarrow> revision list \<Rightarrow> world \<Rightarrow> ((bytes list \<times> revision list) \<times> world) result" where
  "makeImportIDs_loop count ids revisions w =
     (if \<not> length ids < count then Inr ((ids, revisions), w)
      else case makeID w of
          Inl e \<Rightarrow> Inl e
        | Inr (docID, w') \<Rightarrow>
          if List.member ids docID then makeImportIDs_loop count ids revisions w'
          else (case makeRevision None w' of
              Inl e \<Rightarrow> Inl e
            | Inr (rv, w'') \<Rightarrow> makeImportIDs_loop count (ids @ [docID]) (revisions @ [rv]) w''))"
  by pat_completeness auto
termination
  by (relation "measure (\<lambda>(c, i, r, w). length (entropy w))")
    (auto dest!: makeID_entropy makeRevision_entropy)

declare makeImportIDs_loop.simps [simp del]

definition makeImportIDs :: "nat \<Rightarrow> world \<Rightarrow> ((bytes list \<times> revision list) \<times> world) result" where
  "makeImportIDs count = makeImportIDs_loop count [] []"

fun hasAnyDoc :: "'db services \<Rightarrow> bytes \<Rightarrow> bytes list \<Rightarrow> 'db \<Rightarrow> bool result" where
  "hasAnyDoc E database [] db = Inr False"
| "hasAnyDoc E database (docID # ids) db =
     bindE (has E (docKey database docID) db) (\<lambda>exists.
     if exists then Inr True else hasAnyDoc E database ids db)"

lemma makeImportIDs_loop_entropy:
  "makeImportIDs_loop c ids rvs w = Inr ((ids', rvs'), w') \<Longrightarrow>
    length (entropy w') \<le> length (entropy w) \<and> (length (entropy w') = length (entropy w) \<longrightarrow> ids' = ids)"
proof (induction c ids rvs w rule: makeImportIDs_loop.induct)
  case (1 c ids rvs w)
  then show ?case
    by (subst (asm) (3) makeImportIDs_loop.simps)
      (fastforce split: if_splits sum.splits prod.splits dest!: makeID_entropy makeRevision_entropy)
qed

lemma import_decreases:
  assumes "hasAnyDoc E database ids db = Inr True" "makeImportIDs count w = Inr ((ids, rvs), w')"
  shows "length (entropy w') < length (entropy w)"
proof -
  have "ids \<noteq> []" using assms(1) by auto
  then show ?thesis
    using makeImportIDs_loop_entropy [OF assms(2) [unfolded makeImportIDs_def]]
    by (meson le_neq_implies_less)
qed

text \<open>The loop of \<open>importDocs\<close> that draws identifiers until none of them exists.\<close>

function importIDs :: "'db services \<Rightarrow> bytes \<Rightarrow> nat \<Rightarrow> ('db, bytes list \<times> revision list) op" where
  "importIDs E database count s =
     (case makeImportIDs count (wld s) of
        Inl e \<Rightarrow> (Inl e, s)
      | Inr ((ids, revisions), w) \<Rightarrow>
        (case hasAnyDoc E database ids (pdb s) of
           Inl e \<Rightarrow> (Inl e, s\<lparr>wld := w\<rparr>)
         | Inr collision \<Rightarrow>
           if collision then importIDs E database count (s\<lparr>wld := w\<rparr>)
           else (Inr (ids, revisions), s\<lparr>wld := w\<rparr>)))"
  by pat_completeness auto
termination
  by (relation "measure (\<lambda>(E, d, c, s). left s)") (auto simp: left_def dest!: import_decreases)

declare importIDs.simps [simp del]

type_synonym ctx = "nat \<Rightarrow> err option"

definition background :: ctx where
  "background = (\<lambda>_. None)"

fun importFill ::
  "'db services \<Rightarrow> bytes \<Rightarrow> bytes \<Rightarrow> indexDef list \<Rightarrow> ctx \<Rightarrow> int \<Rightarrow> nat \<Rightarrow> bop list \<Rightarrow>
   (bytes \<times> bytes \<times> revision) list \<Rightarrow> ('db, bop list) op" where
  "importFill E database dbk defs ctx maxBatchBytes i batch [] = returnM batch"
| "importFill E database dbk defs ctx maxBatchBytes i batch ((document, docID, rv) # rest) =
     (case ctx i of Some e \<Rightarrow> failM e
      | None \<Rightarrow>
        bindM (readM (\<lambda>_. mapErr (\<lambda>e. BulkLine (i + 1) # e) (indexValues document defs))) (\<lambda>values.
        let key = docKey database docID in
        bindM (worldM (sealDoc E key dbk docID rv document)) (\<lambda>rec.
        bindM (readM (\<lambda>_. queueAll E batch (BSet key rec # setIndexEntries database docID values))) (\<lambda>batch.
        if batchLen E batch > maxBatchBytes then failM [BulkLine (i + 1), ErrBulkLimit]
        else importFill E database dbk defs ctx maxBatchBytes (i + 1) batch rest))))"

definition importDocs ::
  "'db services \<Rightarrow> bytes \<Rightarrow> ctx \<Rightarrow> bytes \<Rightarrow> bytes list \<Rightarrow> int \<Rightarrow> ('db, bytes list) op" where
  "importDocs E wrappingKey ctx database documents maxBatchBytes =
     bindM (readM (databaseKey E wrappingKey database)) (\<lambda>dbk.
     bindM (readM (indexes E database)) (\<lambda>defs.
     bindM (importIDs E database (length documents)) (\<lambda>(ids, revisions).
     deferM (batchClose E)
       (bindM (importFill E database dbk defs ctx maxBatchBytes 0 [] (zip documents (zip ids revisions))) (\<lambda>batch.
        case ctx (length documents) of Some e \<Rightarrow> failM e
        | None \<Rightarrow> bindM (commitM E batch) (\<lambda>_. returnM ids))))))"

section \<open>Export\<close>

text \<open>\<open>yield\<close> is a callback with a state of its own.\<close>

fun exportDocs_loop ::
  "'db services \<Rightarrow> bytes \<Rightarrow> bytes \<Rightarrow> ctx \<Rightarrow> nat \<Rightarrow> (bytes \<Rightarrow> 'y \<Rightarrow> unit result \<times> 'y) \<Rightarrow>
   (bytes \<times> bytes) list \<Rightarrow> 'y \<Rightarrow> unit result \<times> 'y" where
  "exportDocs_loop E pre dbk ctx i yield [] y = (Inr (), y)"
| "exportDocs_loop E pre dbk ctx i yield ((k, v) # es) y =
     (case ctx i of Some e \<Rightarrow> (Inl e, y)
      | None \<Rightarrow>
        let docID = drop (length pre) k in
        if \<not> isOk (validateID docID) then (Inl [ErrCorruptData], y)
        else case openDoc E k dbk docID v of
            Inl e \<Rightarrow> (Inl e, y)
          | Inr doc \<Rightarrow>
            (case yield (docJson doc) y of
               (Inl e, y') \<Rightarrow> (Inl e, y')
             | (Inr _, y') \<Rightarrow> exportDocs_loop E pre dbk ctx (i + 1) yield es y'))"

definition exportDocs ::
  "'db services \<Rightarrow> bytes \<Rightarrow> ctx \<Rightarrow> bytes \<Rightarrow> (bytes \<Rightarrow> 'y \<Rightarrow> unit result \<times> 'y) \<Rightarrow> 'db \<Rightarrow> 'y \<Rightarrow> unit result \<times> 'y" where
  "exportDocs E wrappingKey ctx database yield db y =
     (case databaseKey E wrappingKey database db of
        Inl e \<Rightarrow> (Inl e, y)
      | Inr dbk \<Rightarrow>
        let pre = docsPrefix database in
        (case dbNewIter E db (Some pre) (prefixEnd pre) of
           Inl e \<Rightarrow> (joinClose (snapshotClose E db) (Inl (wrapStore e)), y)
         | Inr it \<Rightarrow>
           (case exportDocs_loop E pre dbk ctx 0 yield (entries it) y of
              (r, y') \<Rightarrow>
                (joinClose (snapshotClose E db) (joinClose (iterClose it) (bindE r (\<lambda>_. iterErr it []))), y'))))"

section \<open>Opening and closing the store\<close>

text \<open>\<open>opened\<close> is the result of \<open>pebble.Open\<close>.\<close>

definition openStore :: "'db services \<Rightarrow> 'db result \<Rightarrow> bytes \<Rightarrow> world \<Rightarrow> (bytes \<times> 'db sys) result" where
  "openStore E opened masterKey w =
     (case opened of
        Inl e \<Rightarrow> Inl e
      | Inr db \<Rightarrow>
        (case initStoreCrypto E masterKey \<lparr>pdb = db, wld = w\<rparr> of
           (Inl e, s) \<Rightarrow> (case dbClose E (pdb s) of None \<Rightarrow> Inl e | Some c \<Rightarrow> Inl (e @ c))
         | (Inr key, s) \<Rightarrow> Inr (key, s)))"

definition closeStore :: "'db services \<Rightarrow> 'db \<Rightarrow> unit result" where
  "closeStore E db = (case dbClose E db of None \<Rightarrow> Inr () | Some e \<Rightarrow> Inl e)"

end
