(* ===== verification/Index_Query.thy ===== *)
theory Index_Query
  imports Store
begin

text \<open>
  Queries on an index (index.go, \<open>queryDocsCtx\<close> and \<open>queryRangePage\<close>; server.go, \<open>cmpOp\<close>).  A
  snapshot is the state of Pebble at the time of the query.
\<close>

section \<open>Comparison operators\<close>

type_synonym cmpOp = byte

definition cmpEq :: cmpOp where "cmpEq = 0"
definition cmpLT :: cmpOp where "cmpLT = 1"
definition cmpLE :: cmpOp where "cmpLE = 2"
definition cmpGT :: cmpOp where "cmpGT = 3"
definition cmpGE :: cmpOp where "cmpGE = 4"

definition cmpValid :: "cmpOp \<Rightarrow> bool" where
  "cmpValid op = (op \<le> cmpGE)"

lemmas cmp_defs = cmpEq_def cmpLT_def cmpLE_def cmpGT_def cmpGE_def

section \<open>Equality\<close>

definition snapshotHas :: "'db services \<Rightarrow> bytes \<Rightarrow> 'db \<Rightarrow> bool result" where
  "snapshotHas E key db =
     (case dbGet E db key of
        Inl e \<Rightarrow> Inl (wrapStore e)
      | Inr None \<Rightarrow> Inr False
      | Inr (Some _) \<Rightarrow> (case getClose E db key of Some e \<Rightarrow> Inl (wrapStore e) | None \<Rightarrow> Inr True))"

fun queryDocs_loop ::
  "'db services \<Rightarrow> ctx \<Rightarrow> bytes \<Rightarrow> bytes \<Rightarrow> int \<Rightarrow> 'db \<Rightarrow> bytes list \<Rightarrow> (bytes \<times> bytes) list \<Rightarrow>
   (bytes list \<times> (bytes \<times> bytes) list) result" where
  "queryDocs_loop E ctx database pre limit db ids [] = Inr (ids, [])"
| "queryDocs_loop E ctx database pre limit db ids ((k, v) # es) =
     (if \<not> int (length ids) \<le> limit then Inr (ids, (k, v) # es)
      else case ctx (length ids) of Some e \<Rightarrow> Inl e
      | None \<Rightarrow>
        let docID = drop (length pre) k in
        if length v \<noteq> 0 \<or> \<not> isOk (validateID docID) then Inl [ErrCorruptData]
        else bindE (snapshotHas E (docKey database docID) db) (\<lambda>exists.
          if \<not> exists then Inl [ErrCorruptData]
          else queryDocs_loop E ctx database pre limit db (ids @ [docID]) es))"

definition queryDocsCtx ::
  "'db services \<Rightarrow> bytes \<Rightarrow> ctx \<Rightarrow> bytes \<Rightarrow> bytes \<Rightarrow> bytes \<Rightarrow> int \<Rightarrow> bytes \<Rightarrow> 'db \<Rightarrow> (bytes list \<times> bool) result" where
  "queryDocsCtx E wrappingKey ctx database index encoded limit cursor db =
     bindE (hasDB E wrappingKey database db) (\<lambda>exists.
     if \<not> exists then Inl [ErrDBNotFound]
     else bindE (indexes E database db) (\<lambda>defs.
       if findIndex defs index = None then Inl [ErrIndexNotFound]
       else if \<not> validIndexValue encoded then Inl [ErrInvalidIndexValue]
       else let pre = indexValuePrefix database index encoded in
         joinClose (snapshotClose E db)
           (case dbNewIter E db (Some pre) (prefixEnd pre) of
              Inl e \<Rightarrow> Inl (wrapStore e)
            | Inr it \<Rightarrow> joinClose (iterClose it)
                (bindE (queryDocs_loop E ctx database pre limit db []
                          (seekAfter (if cursor = [] then None else Some (pre @ cursor)) (entries it))) (\<lambda>(ids, rest).
                 bindE (iterErr it rest) (\<lambda>_.
                 if int (length ids) > limit then (if limit < 0 then Inl [GoPanic] else Inr (take (nat limit) ids, True))
                 else Inr (ids, False)))))))"

definition queryDocs ::
  "'db services \<Rightarrow> bytes \<Rightarrow> bytes \<Rightarrow> bytes \<Rightarrow> bytes \<Rightarrow> int \<Rightarrow> bytes \<Rightarrow> 'db \<Rightarrow> (bytes list \<times> bool) result" where
  "queryDocs E wrappingKey database index encoded limit cursor db =
     queryDocsCtx E wrappingKey background database index encoded limit cursor db"

section \<open>Ranges\<close>

record indexPage =
  pageIDs :: "bytes list"
  lastValue :: bytes
  pageMore :: bool

text \<open>
  The bounds of the iterator: the entries of the value's type, cut at the boundary value.
\<close>

definition rangeBounds :: "cmpOp \<Rightarrow> bytes \<Rightarrow> bytes \<Rightarrow> bytes option \<times> bytes option" where
  "rangeBounds op typePrefix boundary =
     (let lo = Some typePrefix; hi = prefixEnd typePrefix in
      if op = cmpLT then (lo, Some boundary)
      else if op = cmpLE then (lo, prefixEnd boundary)
      else if op = cmpGT then (prefixEnd boundary, hi)
      else if op = cmpGE then (Some boundary, hi)
      else (lo, hi))"

fun queryRange_loop ::
  "'db services \<Rightarrow> ctx \<Rightarrow> bytes \<Rightarrow> bytes \<Rightarrow> int \<Rightarrow> bytes \<Rightarrow> 'db \<Rightarrow> nat \<Rightarrow> bool \<Rightarrow> bytes list \<Rightarrow> bytes list \<Rightarrow>
   (bytes \<times> bytes) list \<Rightarrow> ((bytes list \<times> bytes list) \<times> (bytes \<times> bytes) list) result" where
  "queryRange_loop E ctx database typePrefix limit afterID db i past ids vals [] = Inr ((ids, vals), [])"
| "queryRange_loop E ctx database typePrefix limit afterID db i past ids vals ((k, v) # es) =
     (if \<not> int (length ids) \<le> limit then Inr ((ids, vals), (k, v) # es)
      else case ctx i of Some e \<Rightarrow> Inl e
      | None \<Rightarrow>
        (case splitIndexEntry typePrefix k of
           None \<Rightarrow> Inl [ErrCorruptData]
         | Some (value, docID) \<Rightarrow>
           if length v \<noteq> 0 \<or> \<not> isOk (validateID docID) then Inl [ErrCorruptData]
           else if \<not> past
           then queryRange_loop E ctx database typePrefix limit afterID db (i + 1) (docID = afterID) ids vals es
           else bindE (snapshotHas E (docKey database docID) db) (\<lambda>exists.
             if \<not> exists then Inl [ErrCorruptData]
             else queryRange_loop E ctx database typePrefix limit afterID db (i + 1) past (ids @ [docID]) (vals @ [value]) es)))"

definition queryRangePage ::
  "'db services \<Rightarrow> bytes \<Rightarrow> ctx \<Rightarrow> bytes \<Rightarrow> bytes \<Rightarrow> cmpOp \<Rightarrow> bytes \<Rightarrow> int \<Rightarrow> bytes \<Rightarrow> bytes \<Rightarrow> 'db \<Rightarrow> indexPage result" where
  "queryRangePage E wrappingKey ctx database index op encoded limit afterValue afterID db =
     bindE (hasDB E wrappingKey database db) (\<lambda>exists.
     if \<not> exists then Inl [ErrDBNotFound]
     else bindE (indexes E database db) (\<lambda>defs.
       if findIndex defs index = None then Inl [ErrIndexNotFound]
       else if \<not> cmpValid op \<or> op = cmpEq \<or> \<not> validIndexValue encoded \<or> encoded ! 0 \<noteq> 0x03 \<and> encoded ! 0 \<noteq> 0x04
       then Inl [ErrInvalidIndexValue]
       else if length afterValue > 0 \<and>
         (\<not> validIndexValue afterValue \<or> afterValue ! 0 \<noteq> encoded ! 0 \<or> \<not> isOk (validateID afterID))
       then Inl [ErrInvalidQueryCursor]
       else let typePrefix = indexTypePrefix database index (encoded ! 0);
                (lo, hi) = rangeBounds op typePrefix (indexValuePrefix database index encoded)
         in joinClose (snapshotClose E db)
           (case dbNewIter E db lo hi of
              Inl e \<Rightarrow> Inl (wrapStore e)
            | Inr it \<Rightarrow> joinClose (iterClose it)
                (bindE (queryRange_loop E ctx database typePrefix limit afterID db 0
                          (length afterValue > 0 \<or> afterID = []) [] []
                          (seekAfter (if length afterValue > 0 then Some (indexKey database index afterValue afterID) else None)
                             (entries it)))
                   (\<lambda>((ids, vals), rest).
                 bindE (iterErr it rest) (\<lambda>_.
                 if int (length ids) > limit
                 then (if limit < 1 then Inl [GoPanic]
                       else Inr \<lparr>pageIDs = take (nat limit) ids, lastValue = vals ! nat (limit - 1), pageMore = True\<rparr>)
                 else Inr \<lparr>pageIDs = ids, lastValue = [], pageMore = False\<rparr>))))))"

definition queryRangeDocs ::
  "'db services \<Rightarrow> bytes \<Rightarrow> bytes \<Rightarrow> bytes \<Rightarrow> cmpOp \<Rightarrow> bytes \<Rightarrow> int \<Rightarrow> bytes \<Rightarrow> 'db \<Rightarrow> (bytes list \<times> bool) result" where
  "queryRangeDocs E wrappingKey database index op encoded limit cursor db =
     bindE (queryRangePage E wrappingKey background database index op encoded limit [] cursor db) (\<lambda>page.
     Inr (pageIDs page, pageMore page))"

end
