(* ===== verification/Cursors.thy ===== *)
theory Cursors
  imports Base64 Index_Query
begin

text \<open>
  The cursors that a client hands back to continue a query (query\_cursor.go, path\_cursor.go):
  the position in the query is encoded, sealed with a key of the database and written in
  base64.  A \<open>cipher.AEAD\<close> is its key.
\<close>

section \<open>Cursors of index queries\<close>

definition queryCursorVersion :: byte where "queryCursorVersion = 3"

definition maxQueryCursorSize :: nat where
  "maxQueryCursorSize = 1 + 10 + 63 + 10 + 63 + 1 + 10 + maxEncodedIndexValue + 10 + maxEncodedIndexValue + 10 + 36"

definition maxEncryptedQueryCursorSize :: nat where
  "maxEncryptedQueryCursorSize = maxQueryCursorSize + 12 + 16"

record queryCursor =
  qcDatabase :: bytes
  qcIndex :: bytes
  qcOp :: cmpOp
  qcValue :: bytes
  qcLastValue :: bytes
  qcID :: bytes

definition validateQueryCursor :: "queryCursor \<Rightarrow> unit result" where
  "validateQueryCursor cursor =
     (if \<not> isOk (validateName (qcDatabase cursor)) \<or> \<not> isOk (validateName (qcIndex cursor)) \<or>
         \<not> cmpValid (qcOp cursor) \<or> \<not> validIndexValue (qcValue cursor) \<or> \<not> isOk (validateID (qcID cursor))
      then Inl [ErrInvalidQueryCursor]
      else if qcOp cursor = cmpEq \<and> length (qcLastValue cursor) \<noteq> 0 then Inl [ErrInvalidQueryCursor]
      else if qcOp cursor \<noteq> cmpEq \<and>
         (\<not> validIndexValue (qcLastValue cursor) \<or> qcLastValue cursor ! 0 \<noteq> qcValue cursor ! 0)
      then Inl [ErrInvalidQueryCursor]
      else Inr ())"

definition newQueryCipher :: "bytes \<Rightarrow> bytes result" where
  "newQueryCipher key = bindE (newGCM key) (\<lambda>_. Inr key)"

definition queryCursorData :: "queryCursor \<Rightarrow> bytes" where
  "queryCursorData cursor =
     (let data = [queryCursorVersion];
          data = appendPart data (qcDatabase cursor);
          data = appendPart data (qcIndex cursor);
          data = data @ [qcOp cursor];
          data = appendPart data (qcValue cursor);
          data = appendPart data (qcLastValue cursor)
      in appendPart data (qcID cursor))"

definition encodeQueryCursor :: "'db services \<Rightarrow> bytes \<Rightarrow> queryCursor \<Rightarrow> world \<Rightarrow> (bytes \<times> world) result" where
  "encodeQueryCursor E box cursor w =
     (if \<not> isOk (validateQueryCursor cursor) then Inl [ErrInvalidQueryCursor]
      else bindE (randRead gcmNonceLen w) (\<lambda>(nonce, w).
        Inr (b64Encode (nonce @ gcmSeal E box nonce (queryCursorData cursor) []), w)))"

text \<open>\<open>ok\<close> of \<open>readPart\<close> and the checks behind it, as a result.\<close>

definition partE :: "bytes \<Rightarrow> (bytes \<times> bytes) result" where
  "partE data = (case readPart data of None \<Rightarrow> Inl [ErrInvalidQueryCursor] | Some p \<Rightarrow> Inr p)"

definition parseQueryCursor :: "bytes \<Rightarrow> queryCursor result" where
  "parseQueryCursor data =
     bindE (partE (drop 1 data)) (\<lambda>(database, rest).
     bindE (partE rest) (\<lambda>(index, rest).
     bindE (guardE (length rest \<noteq> 0) [ErrInvalidQueryCursor]) (\<lambda>_.
     let op = rest ! 0 in
     bindE (partE (drop 1 rest)) (\<lambda>(value, rest).
     bindE (partE rest) (\<lambda>(lastValue, rest).
     bindE (partE rest) (\<lambda>(docID, rest).
     bindE (guardE (length rest = 0) [ErrInvalidQueryCursor]) (\<lambda>_.
     let cursor = \<lparr>qcDatabase = database, qcIndex = index, qcOp = op, qcValue = value,
                    qcLastValue = lastValue, qcID = docID\<rparr> in
     bindE (validateQueryCursor cursor) (\<lambda>_. Inr cursor))))))))"

text \<open>The sealed text of a token and its plain data, as both kinds of cursors open it.\<close>

definition openToken :: "'db services \<Rightarrow> bytes \<Rightarrow> bytes \<Rightarrow> nat \<Rightarrow> nat \<Rightarrow> byte \<Rightarrow> bytes result" where
  "openToken E box token maxSealed maxSize version =
     (if token = [] \<or> length token > b64Len maxSealed then Inl [ErrInvalidQueryCursor]
      else case b64Decode token of None \<Rightarrow> Inl [ErrInvalidQueryCursor]
      | Some sealed \<Rightarrow>
        if b64Encode sealed \<noteq> token \<or> length sealed > maxSealed then Inl [ErrInvalidQueryCursor]
        else if length sealed < gcmNonceLen + gcmTagLen then Inl [ErrInvalidQueryCursor]
        else case gcmOpen E box (take gcmNonceLen sealed) (drop gcmNonceLen sealed) [] of
            None \<Rightarrow> Inl [ErrInvalidQueryCursor]
          | Some data \<Rightarrow>
            if length data = 0 \<or> length data > maxSize \<or> data ! 0 \<noteq> version
            then Inl [ErrInvalidQueryCursor] else Inr data)"

definition decodeQueryCursor :: "'db services \<Rightarrow> bytes \<Rightarrow> bytes \<Rightarrow> queryCursor result" where
  "decodeQueryCursor E box token =
     bindE (openToken E box token maxEncryptedQueryCursorSize maxQueryCursorSize queryCursorVersion) parseQueryCursor"

section \<open>Cursors of path queries\<close>

definition queryMethod :: bytes where "queryMethod = str ''QUERY''"

definition pathCursorVersion :: byte where "pathCursorVersion = 2"

definition maxPathCursorSize :: nat where
  "maxPathCursorSize = 1 + 10 + length queryMethod + 1 + 1 + 10 + 63 + 10 + 32 + 10 + 63 + 1 + 10 +
     maxEncodedIndexValue + 10 + maxEncodedIndexValue + 10 + 36"

definition maxEncryptedPathCursorSize :: nat where
  "maxEncryptedPathCursorSize = maxPathCursorSize + 12 + 16"

type_synonym pathDialect = byte
type_synonym pathOrder = byte

definition dialectJSONPath :: pathDialect where "dialectJSONPath = 1"
definition orderDocument :: pathOrder where "orderDocument = 1"
definition orderIndex :: pathOrder where "orderIndex = 2"

record pathCursor =
  pcMethod :: bytes
  pcDialect :: pathDialect
  pcOrder :: pathOrder
  pcDatabase :: bytes
  pcPathHash :: bytes
  pcIndex :: bytes
  pcOp :: cmpOp
  pcValue :: bytes
  pcLastValue :: bytes
  pcID :: bytes

definition validatePathCursor :: "pathCursor \<Rightarrow> unit result" where
  "validatePathCursor cursor =
     (if pcMethod cursor \<noteq> queryMethod \<or> pcDialect cursor \<noteq> dialectJSONPath \<or>
         pcOrder cursor \<noteq> orderDocument \<and> pcOrder cursor \<noteq> orderIndex
      then Inl [ErrInvalidQueryCursor]
      else if \<not> isOk (validateName (pcDatabase cursor)) then Inl [ErrInvalidQueryCursor]
      else if \<not> cmpValid (pcOp cursor) \<or> \<not> validIndexValue (pcValue cursor) \<or> \<not> isOk (validateID (pcID cursor))
      then Inl [ErrInvalidQueryCursor]
      else if pcOrder cursor = orderDocument
      then (if pcIndex cursor \<noteq> [] \<or> length (pcLastValue cursor) \<noteq> 0 then Inl [ErrInvalidQueryCursor] else Inr ())
      else if \<not> isOk (validateName (pcIndex cursor)) then Inl [ErrInvalidQueryCursor]
      else if pcOp cursor = cmpEq \<and> length (pcLastValue cursor) \<noteq> 0 then Inl [ErrInvalidQueryCursor]
      else if pcOp cursor \<noteq> cmpEq \<and>
         (\<not> validIndexValue (pcLastValue cursor) \<or> pcLastValue cursor ! 0 \<noteq> pcValue cursor ! 0)
      then Inl [ErrInvalidQueryCursor]
      else Inr ())"

definition pathCursorData :: "pathCursor \<Rightarrow> bytes" where
  "pathCursorData cursor =
     (let data = [pathCursorVersion];
          data = appendPart data (pcMethod cursor);
          data = data @ [pcDialect cursor, pcOrder cursor];
          data = appendPart data (pcDatabase cursor);
          data = appendPart data (pcPathHash cursor);
          data = appendPart data (pcIndex cursor);
          data = data @ [pcOp cursor];
          data = appendPart data (pcValue cursor);
          data = appendPart data (pcLastValue cursor)
      in appendPart data (pcID cursor))"

definition encodePathCursor :: "'db services \<Rightarrow> bytes \<Rightarrow> pathCursor \<Rightarrow> world \<Rightarrow> (bytes \<times> world) result" where
  "encodePathCursor E box cursor w =
     (if \<not> isOk (validatePathCursor cursor) then Inl [ErrInvalidQueryCursor]
      else bindE (randRead gcmNonceLen w) (\<lambda>(nonce, w).
        Inr (b64Encode (nonce @ gcmSeal E box nonce (pathCursorData cursor) []), w)))"

definition parsePathCursor :: "bytes \<Rightarrow> pathCursor result" where
  "parsePathCursor data =
     bindE (partE (drop 1 data)) (\<lambda>(method, rest).
     bindE (guardE (\<not> length rest < 2) [ErrInvalidQueryCursor]) (\<lambda>_.
     let dialect = rest ! 0; order = rest ! 1 in
     bindE (partE (drop 2 rest)) (\<lambda>(database, rest).
     bindE (partE rest) (\<lambda>(hash, rest).
     bindE (guardE (length hash = 32) [ErrInvalidQueryCursor]) (\<lambda>_.
     bindE (partE rest) (\<lambda>(index, rest).
     bindE (guardE (length rest \<noteq> 0) [ErrInvalidQueryCursor]) (\<lambda>_.
     let op = rest ! 0 in
     bindE (partE (drop 1 rest)) (\<lambda>(value, rest).
     bindE (partE rest) (\<lambda>(lastValue, rest).
     bindE (partE rest) (\<lambda>(docID, rest).
     bindE (guardE (length rest = 0) [ErrInvalidQueryCursor]) (\<lambda>_.
     let cursor = \<lparr>pcMethod = method, pcDialect = dialect, pcOrder = order, pcDatabase = database,
                    pcPathHash = hash, pcIndex = index, pcOp = op, pcValue = value,
                    pcLastValue = lastValue, pcID = docID\<rparr> in
     bindE (mapErr (\<lambda>_. [ErrInvalidQueryCursor]) (validatePathCursor cursor)) (\<lambda>_. Inr cursor))))))))))))"

definition decodePathCursor :: "'db services \<Rightarrow> bytes \<Rightarrow> bytes \<Rightarrow> pathCursor result" where
  "decodePathCursor E box token =
     bindE (openToken E box token maxEncryptedPathCursorSize maxPathCursorSize pathCursorVersion) parsePathCursor"

definition pathHash :: "'db services \<Rightarrow> bytes \<Rightarrow> bytes" where
  "pathHash E path = sha256 E path"

end
