(* ===== verification/Path_Query.thy ===== *)
theory Path_Query
  imports Cursors
begin

text \<open>
  Queries by JSONPath (query.go; path\_cursor.go, \<open>matchPathCursor\<close>): decoding the request body,
  checking and planning the path, and running the plan as a scan over the documents or on an
  index.  The package \<open>theory/jsonpath\<close> is a parameter: its parser, the text and the segments of
  a parsed path, and the values it selects.  Successive calls of \<open>ctx.Err\<close> are numbered, so
  the functions that call it take the number of their first call and return the next one.
\<close>

section \<open>Limits\<close>

definition maxQueryBody :: int where "maxQueryBody = 64 * 1024"
definition maxQueryPath :: nat where "maxQueryPath = 256"
definition maxPathDepth :: int where "maxPathDepth = 16"
definition maxPathSegments :: nat where "maxPathSegments = 32"
definition maxQueryNodes :: int where "maxQueryNodes = 1000000"
definition maxScanDocs :: int where "maxScanDocs = 10000"
definition defaultListLimit :: int where "defaultListLimit = 100"
definition maxListLimit :: int where "maxListLimit = 1000"

section \<open>The JSONPath package\<close>

text \<open>
  The selectors the program distinguishes: \<open>spec.Name\<close>, \<open>spec.Index\<close> and all others.
\<close>

datatype selector = SelName bytes | SelIndex int | SelOther

record segment =
  isDescendant :: bool
  selectors :: "selector list"

record 'p pathEngine =
  jpParse :: "bytes \<Rightarrow> 'p option"
  jpString :: "'p \<Rightarrow> bytes"
  jpSegments :: "'p \<Rightarrow> segment list"
  jpSelect :: "'p \<Rightarrow> json \<Rightarrow> json list"

section \<open>The request\<close>

record pathQuery =
  pqPath :: bytes
  pqValue :: json
  pqCursor :: bytes
  pqOp :: cmpOp
  pqLimit :: int

record 'p pathPlan =
  plPath :: 'p
  plText :: bytes
  plIndex :: bytes

record pathPage =
  ppIDs :: "bytes list"
  ppLastID :: bytes
  ppMore :: bool

definition parseCmpOp :: "bytes \<Rightarrow> cmpOp option" where
  "parseCmpOp raw =
     map_of [(str ''eq'', cmpEq), (str ''lt'', cmpLT), (str ''le'', cmpLE), (str ''gt'', cmpGT), (str ''ge'', cmpGE)] raw"

text \<open>
  \<open>decoder.Decode\<close> into a string and into an int: \<open>null\<close> leaves the variable as it is, a value
  of another type is an error.
\<close>

definition decodeString :: "bytes \<Rightarrow> bytes \<Rightarrow> (bytes \<times> bytes) option" where
  "decodeString old s =
     (case jsonDecode s of Some (JStr x, r) \<Rightarrow> Some (x, r) | Some (JNull, r) \<Rightarrow> Some (old, r) | _ \<Rightarrow> None)"

definition decodeInt :: "int \<Rightarrow> bytes \<Rightarrow> (int \<times> bytes) option" where
  "decodeInt old s =
     (case jsonDecode s of
        Some (JNum n, r) \<Rightarrow> map_option (\<lambda>k. (k, r)) (atoi n)
      | Some (JNull, r) \<Rightarrow> Some (old, r)
      | _ \<Rightarrow> None)"

text \<open>The switch on the name of a field.\<close>

definition decodeField :: "bytes \<Rightarrow> pathQuery \<Rightarrow> bytes \<Rightarrow> (pathQuery \<times> bytes) option" where
  "decodeField name query s =
     (if name = str ''path'' then map_option (\<lambda>(x, r). (query\<lparr>pqPath := x\<rparr>, r)) (decodeString (pqPath query) s)
      else if name = str ''op'' then
        (case decodeString [] s of None \<Rightarrow> None
         | Some (raw, r) \<Rightarrow> map_option (\<lambda>op. (query\<lparr>pqOp := op\<rparr>, r)) (parseCmpOp raw))
      else if name = str ''value'' then map_option (\<lambda>(v, r). (query\<lparr>pqValue := v\<rparr>, r)) (jsonDecode s)
      else if name = str ''limit'' then map_option (\<lambda>(k, r). (query\<lparr>pqLimit := k\<rparr>, r)) (decodeInt (pqLimit query) s)
      else if name = str ''cursor'' then map_option (\<lambda>(x, r). (query\<lparr>pqCursor := x\<rparr>, r)) (decodeString (pqCursor query) s)
      else None)"

lemma jsonDecode_shorter: "jsonDecode s = Some (v, r) \<Longrightarrow> length r < length s"
  unfolding jsonDecode_def by (rule decode_shorter(1))

lemma decodeField_shorter: "decodeField name query s = Some (q, r) \<Longrightarrow> length r < length s"
  by (auto simp: decodeField_def decodeString_def decodeInt_def dest!: jsonDecode_shorter
    split: if_splits option.splits json.splits)

text \<open>
  The loop over the fields with the token reader: \<open>first\<close> tells whether a field must follow
  without a comma.  The result holds the names that were seen and what follows the object.
\<close>

function decodePathQuery_loop ::
  "pathQuery \<Rightarrow> bytes list \<Rightarrow> bool \<Rightarrow> bytes \<Rightarrow> (pathQuery \<times> bytes list \<times> bytes) option" where
  "decodePathQuery_loop query seen first s =
     (case skipSpace s of
        [] \<Rightarrow> None
      | c # r \<Rightarrow>
        if c = 125 then Some (query, seen, r)
        else
          (case (if first then c # r else if c = 44 then skipSpace r else []) of
             [] \<Rightarrow> None
           | q # t \<Rightarrow>
             if q \<noteq> 34 then None
             else
               (case unquote t of None \<Rightarrow> None
                | Some (name, u) \<Rightarrow>
                  if List.member seen name then None
                  else
                    (case skipSpace u of [] \<Rightarrow> None
                     | d # w \<Rightarrow>
                       if d \<noteq> 58 then None
                       else
                         (case decodeField name query w of None \<Rightarrow> None
                          | Some (query', x) \<Rightarrow> decodePathQuery_loop query' (name # seen) False x)))))"
  by pat_completeness auto

termination
proof (relation "measure (\<lambda>(_, _, _, s). length s)", goal_cases)
  case (2 query seen first s c r q t p name u d w p' query' x)
  from 2(1) have "length r < length s" by (rule skipSpace_Cons)
  moreover have "length t \<le> length r"
    using 2(3) length_skipSpace [of r] by (auto split: if_splits)
  moreover from 2(5) have "length u < length t" by (metis 2(6) prod.sel unquote_shorter)
  moreover from 2(8) have "length w < length u" by (rule skipSpace_Cons)
  moreover from 2(10) have "length x < length w" by (metis 2(11) decodeField_shorter)
  ultimately show ?case by simp
qed simp

declare decodePathQuery_loop.simps [simp del]

definition jsonEnd :: "bytes \<Rightarrow> unit result" where
  "jsonEnd rest = guardE (skipSpace rest = []) []"

definition isScalar :: "json \<Rightarrow> bool" where
  "isScalar v = (case v of JArr _ \<Rightarrow> False | JObj _ \<Rightarrow> False | _ \<Rightarrow> True)"

definition isOrdered :: "json \<Rightarrow> bool" where
  "isOrdered v = (case v of JNum _ \<Rightarrow> True | JStr _ \<Rightarrow> True | _ \<Rightarrow> False)"

definition decodePathQuery :: "bytes \<Rightarrow> pathQuery result" where
  "decodePathQuery body =
     (case skipSpace body of
        [] \<Rightarrow> Inl []
      | c # r \<Rightarrow>
        if c \<noteq> 123 then Inl []
        else
          (case decodePathQuery_loop \<lparr>pqPath = [], pqValue = JNull, pqCursor = [], pqOp = cmpEq, pqLimit = defaultListLimit\<rparr> [] True r of
             None \<Rightarrow> Inl []
           | Some (query, seen, rest) \<Rightarrow>
             bindE (jsonEnd rest) (\<lambda>_.
             if \<not> List.member seen (str ''path'') \<or> \<not> List.member seen (str ''value'') \<or> pqPath query = [] then Inl []
             else if pqLimit query < 1 \<or> pqLimit query > maxListLimit then Inl []
             else if \<not> isScalar (pqValue query) then Inl []
             else if pqOp query \<noteq> cmpEq \<and> \<not> isOrdered (pqValue query) then Inl []
             else Inr query)))"

section \<open>Checking the path\<close>

text \<open>The largest depth of brackets outside of quotes; \<open>quote\<close> is 0 outside of them.\<close>

fun pathDepth_loop :: "byte \<Rightarrow> bool \<Rightarrow> int \<Rightarrow> int \<Rightarrow> bytes \<Rightarrow> int" where
  "pathDepth_loop quote escaped depth maxDepth [] = maxDepth"
| "pathDepth_loop quote escaped depth maxDepth (char # path) =
     (if quote \<noteq> 0 then
        (if escaped then pathDepth_loop quote False depth maxDepth path
         else if char = 92 then pathDepth_loop quote True depth maxDepth path
         else if char = quote then pathDepth_loop 0 escaped depth maxDepth path
         else pathDepth_loop quote escaped depth maxDepth path)
      else if char = 39 \<or> char = 34 then pathDepth_loop char escaped depth maxDepth path
      else if char = 91 \<or> char = 40 then pathDepth_loop quote escaped (depth + 1) (max maxDepth (depth + 1)) path
      else if char = 93 \<or> char = 41 then pathDepth_loop quote escaped (depth - 1) maxDepth path
      else pathDepth_loop quote escaped depth maxDepth path)"

definition validatePathText :: "bytes \<Rightarrow> unit result" where
  "validatePathText path =
     (if length path = 0 \<or> length path > maxQueryPath \<or> \<not> utf8Valid path then Inl [ErrInvalidPath]
      else guardE (\<not> pathDepth_loop 0 False 0 0 path > maxPathDepth) [ErrInvalidPath])"

text \<open>
  The open delimiters are a stack with its top first; a closing delimiter or a comma without an
  open one is an index out of range.
\<close>

fun safePath_loop :: "byte \<Rightarrow> bool \<Rightarrow> bytes \<Rightarrow> nat \<Rightarrow> byte option \<Rightarrow> bytes \<Rightarrow> bool result" where
  "safePath_loop quote escaped delimiters descendants prev [] = Inr (descendants \<le> 1)"
| "safePath_loop quote escaped delimiters descendants prev (char # path) =
     (if quote \<noteq> 0 then
        (if escaped then safePath_loop quote False delimiters descendants (Some char) path
         else if char = 92 then safePath_loop quote True delimiters descendants (Some char) path
         else if char = quote then safePath_loop 0 escaped delimiters descendants (Some char) path
         else safePath_loop quote escaped delimiters descendants (Some char) path)
      else if char = 39 \<or> char = 34 then safePath_loop char escaped delimiters descendants (Some char) path
      else if char = 91 \<or> char = 40 then safePath_loop quote escaped (char # delimiters) descendants (Some char) path
      else if char = 93 \<or> char = 41 then
        (if delimiters = [] then Inl [GoPanic]
         else safePath_loop quote escaped (tl delimiters) descendants (Some char) path)
      else if char = 44 then
        (if delimiters = [] then Inl [GoPanic]
         else if hd delimiters = 91 then Inr False
         else safePath_loop quote escaped delimiters descendants (Some char) path)
      else if char = 46 then
        safePath_loop quote escaped delimiters (if prev = Some 46 then descendants + 1 else descendants) (Some char) path
      else safePath_loop quote escaped delimiters descendants (Some char) path)"

definition safePath :: "bytes \<Rightarrow> bool result" where
  "safePath path = safePath_loop 0 False [] 0 None path"

section \<open>Planning\<close>

text \<open>\<open>strings.ReplaceAll\<close> of one byte by two.\<close>

definition replaceByte :: "byte \<Rightarrow> bytes \<Rightarrow> bytes \<Rightarrow> bytes" where
  "replaceByte a t s = concat (map (\<lambda>c. if c = a then t else [c]) s)"

definition escapeName :: "bytes \<Rightarrow> bytes" where
  "escapeName name = replaceByte 47 [126, 49] (replaceByte 126 [126, 48] name)"

definition isArrayIndex :: "bytes \<Rightarrow> bool" where
  "isArrayIndex name = (case atoi name of None \<Rightarrow> False | Some index \<Rightarrow> index \<ge> 0 \<and> itoa index = name)"

fun jsonPathPointer_loop :: "bytes \<Rightarrow> segment list \<Rightarrow> bytes option" where
  "jsonPathPointer_loop pointer [] = Some pointer"
| "jsonPathPointer_loop pointer (segment # segments) =
     (if isDescendant segment \<or> length (selectors segment) \<noteq> 1 then None
      else case hd (selectors segment) of
          SelName name \<Rightarrow>
            if isArrayIndex name then None
            else jsonPathPointer_loop (pointer @ 47 # escapeName name) segments
        | SelIndex _ \<Rightarrow> None
        | SelOther \<Rightarrow> None)"

text \<open>The pointer, or \<open>None\<close> when the path has none (\<open>ok\<close> is false).\<close>

definition jsonPathPointer :: "segment list \<Rightarrow> bytes option" where
  "jsonPathPointer segments =
     (case jsonPathPointer_loop [] segments of
        None \<Rightarrow> None
      | Some result \<Rightarrow> if result \<noteq> [] then Some result else None)"

definition planPathQuery ::
  "'db services \<Rightarrow> 'p pathEngine \<Rightarrow> bytes \<Rightarrow> bytes \<Rightarrow> bytes \<Rightarrow> 'db \<Rightarrow> 'p pathPlan result" where
  "planPathQuery E J wrappingKey database raw db =
     bindE (validatePathText raw) (\<lambda>_.
     case jpParse J raw of
       None \<Rightarrow> Inl [ErrInvalidPath]
     | Some path \<Rightarrow>
       if length (jpSegments J path) > maxPathSegments then Inl [ErrInvalidPath]
       else
         bindE (safePath (jpString J path)) (\<lambda>safe.
         if \<not> safe then Inl [ErrInvalidPath]
         else
           let plan = \<lparr>plPath = path, plText = jpString J path, plIndex = []\<rparr> in
           bindE (hasDB E wrappingKey database db) (\<lambda>exists.
           if \<not> exists then Inl [ErrDBNotFound]
           else
             (case jsonPathPointer (jpSegments J path) of
                None \<Rightarrow> Inr plan
              | Some pointer \<Rightarrow>
                bindE (indexes E database db) (\<lambda>defs.
                case find (\<lambda>def. idxPath def = pointer) defs of
                  None \<Rightarrow> Inr plan
                | Some def \<Rightarrow> Inr (plan\<lparr>plIndex := idxName def\<rparr>))))))"

section \<open>Matching a document\<close>

fun children :: "json \<Rightarrow> json list" where
  "children (JArr xs) = xs"
| "children (JObj m) = map snd m"
| "children _ = []"

lemma children_size: "(\<Sum>x \<leftarrow> children v. Suc (size x)) \<le> size v"
proof (cases v)
  case (JArr xs)
  have "(\<Sum>x \<leftarrow> xs. Suc (size x)) \<le> size_list size xs" by (induction xs) simp_all
  with JArr show ?thesis by simp
next
  case (JObj m)
  have "(\<Sum>x \<leftarrow> map snd m. Suc (size x)) \<le> size_list (size_prod (\<lambda>_. 0) size) m" by (induction m) auto
  with JObj show ?thesis by simp
qed simp_all

text \<open>The loop with its stack, top first.  \<open>i\<close> numbers the calls of \<open>ctx.Err\<close>.\<close>

function checkQueryNodes_loop :: "ctx \<Rightarrow> nat \<Rightarrow> int \<Rightarrow> int \<Rightarrow> json list \<Rightarrow> nat result" where
  "checkQueryNodes_loop ctx i limit work [] = Inr i"
| "checkQueryNodes_loop ctx i limit work (v # stack) =
     (case ctx i of Some e \<Rightarrow> Inl e
      | None \<Rightarrow>
        if work \<ge> limit then Inl [ErrQueryLimit]
        else checkQueryNodes_loop ctx (i + 1) limit (work + 1) (rev (children v) @ stack))"
  by pat_completeness auto

termination
proof (relation "measure (\<lambda>(_, _, _, _, stack). \<Sum>x \<leftarrow> stack. Suc (size x))", goal_cases)
  case (2 ctx i limit work v stack)
  have "(\<Sum>x \<leftarrow> rev (children v). Suc (size x)) = (\<Sum>x \<leftarrow> children v. Suc (size x))"
    by (simp only: rev_map [symmetric] sum_list_rev)
  with children_size [of v] show ?case by simp
qed simp

definition checkQueryNodes :: "ctx \<Rightarrow> nat \<Rightarrow> json \<Rightarrow> int \<Rightarrow> nat result" where
  "checkQueryNodes ctx i rootValue limit = checkQueryNodes_loop ctx i limit 0 [rootValue]"

definition matchesValue :: "cmpOp \<Rightarrow> bytes \<Rightarrow> json \<Rightarrow> bool" where
  "matchesValue op expected v =
     (case encodeIndexValue v of
        Inl _ \<Rightarrow> False
      | Inr actual \<Rightarrow>
        actual ! 0 = expected ! 0 \<and>
        (let order = bytesCompare actual expected in
         op = cmpEq \<and> order = 0 \<or> op = cmpLT \<and> order < 0 \<or> op = cmpLE \<and> order \<le> 0 \<or>
         op = cmpGT \<and> order > 0 \<or> op = cmpGE \<and> order \<ge> 0))"

definition pathMatches ::
  "'p pathEngine \<Rightarrow> ctx \<Rightarrow> nat \<Rightarrow> 'p \<Rightarrow> json \<Rightarrow> cmpOp \<Rightarrow> bytes \<Rightarrow> int \<Rightarrow> (bool \<times> nat) result" where
  "pathMatches J ctx i path rootValue op expected maxNodes =
     bindE (checkQueryNodes ctx i rootValue maxNodes) (\<lambda>i.
     let values = jpSelect J path rootValue in
     case ctx i of Some e \<Rightarrow> Inl e
     | None \<Rightarrow> Inr (list_ex (matchesValue op expected) values, i + 1))"

section \<open>Scanning\<close>

fun queryPathDocs_loop ::
  "'db services \<Rightarrow> 'p pathEngine \<Rightarrow> ctx \<Rightarrow> bytes \<Rightarrow> bytes \<Rightarrow> 'p \<Rightarrow> cmpOp \<Rightarrow> bytes \<Rightarrow> int \<Rightarrow> int \<Rightarrow>
   nat \<Rightarrow> int \<Rightarrow> pathPage \<Rightarrow> (bytes \<times> bytes) list \<Rightarrow> (pathPage \<times> (bytes \<times> bytes) list) result" where
  "queryPathDocs_loop E J ctx pre dbk path op encoded limit maxWork i work page [] = Inr (page, [])"
| "queryPathDocs_loop E J ctx pre dbk path op encoded limit maxWork i work page ((k, v) # es) =
     (case ctx i of Some e \<Rightarrow> Inl e
      | None \<Rightarrow>
        if work \<ge> maxWork then Inr (page\<lparr>ppMore := True\<rparr>, (k, v) # es)
        else
          let docID = drop (length pre) k in
          if \<not> isOk (validateID docID) then Inl [ErrCorruptData]
          else
            bindE (openDoc E k dbk docID v) (\<lambda>doc.
            case jsonDecode (docJson doc) of
              None \<Rightarrow> Inl [ErrCorruptData]
            | Some (rootValue, _) \<Rightarrow>
              bindE (pathMatches J ctx (i + 1) path rootValue op encoded maxQueryNodes) (\<lambda>(matches, i).
              let ids = (if matches then ppIDs page @ [docID] else ppIDs page) in
              if int (length ids) > limit
              then (if limit < 1 then Inl [GoPanic]
                    else Inr (\<lparr>ppIDs = take (nat limit) ids, ppLastID = last (take (nat limit) ids), ppMore = True\<rparr>, (k, v) # es))
              else queryPathDocs_loop E J ctx pre dbk path op encoded limit maxWork i (work + 1)
                     (page\<lparr>ppIDs := ids, ppLastID := docID\<rparr>) es)))"

definition queryPathDocs ::
  "'db services \<Rightarrow> 'p pathEngine \<Rightarrow> bytes \<Rightarrow> ctx \<Rightarrow> bytes \<Rightarrow> 'p \<Rightarrow> cmpOp \<Rightarrow> json \<Rightarrow> int \<Rightarrow> int \<Rightarrow> bytes \<Rightarrow> 'db \<Rightarrow> pathPage result" where
  "queryPathDocs E J wrappingKey ctx database path op v limit maxWork afterID db =
     bindE (databaseKey E wrappingKey database db) (\<lambda>dbk.
     bindE (encodeIndexValue v) (\<lambda>encoded.
     let pre = docsPrefix database in
     joinClose (snapshotClose E db)
       (case dbNewIter E db (Some pre) (prefixEnd pre) of
          Inl e \<Rightarrow> Inl (wrapStore e)
        | Inr it \<Rightarrow> joinClose (iterClose it)
            (bindE (queryPathDocs_loop E J ctx pre dbk path op encoded limit maxWork 0 0
                      \<lparr>ppIDs = [], ppLastID = [], ppMore = False\<rparr>
                      (seekAfter (if afterID = [] then None else Some (docKey database afterID)) (entries it))) (\<lambda>(page, rest).
             bindE (iterErr it rest) (\<lambda>_. Inr page))))))"

section \<open>Running a plan\<close>

definition planOrder :: "'p pathPlan \<Rightarrow> pathOrder" where
  "planOrder plan = (if plIndex plan \<noteq> [] then orderIndex else orderDocument)"

definition matchPathCursor ::
  "'db services \<Rightarrow> pathCursor \<Rightarrow> bytes \<Rightarrow> 'p pathPlan \<Rightarrow> pathQuery \<Rightarrow> bytes \<Rightarrow> unit result" where
  "matchPathCursor E cursor database plan query encoded =
     (if pcMethod cursor \<noteq> queryMethod \<or> pcDialect cursor \<noteq> dialectJSONPath \<or> pcOrder cursor \<noteq> planOrder plan \<or>
         pcDatabase cursor \<noteq> database \<or> pcPathHash cursor \<noteq> pathHash E (plText plan) \<or> pcIndex cursor \<noteq> plIndex plan \<or>
         pcOp cursor \<noteq> pqOp query \<or> pcValue cursor \<noteq> encoded
      then Inl [ErrInvalidQueryCursor] else Inr ())"

text \<open>Where a query starts: after which ID and which value.\<close>

definition pathStart ::
  "'db services \<Rightarrow> bytes \<Rightarrow> bytes \<Rightarrow> 'p pathPlan \<Rightarrow> pathQuery \<Rightarrow> bytes \<Rightarrow> (bytes \<times> bytes) result" where
  "pathStart E box database plan query encoded =
     (if pqCursor query = [] then Inr ([], [])
      else case decodePathCursor E box (pqCursor query) of
          Inl _ \<Rightarrow> Inl [ErrInvalidQueryCursor]
        | Inr cursor \<Rightarrow>
          if \<not> isOk (matchPathCursor E cursor database plan query encoded) then Inl [ErrInvalidQueryCursor]
          else Inr (pcID cursor, pcLastValue cursor))"

text \<open>One page: the IDs, the position of its end and whether there is more.\<close>

definition pathRun ::
  "'db services \<Rightarrow> 'p pathEngine \<Rightarrow> bytes \<Rightarrow> ctx \<Rightarrow> bytes \<Rightarrow> 'p pathPlan \<Rightarrow> pathQuery \<Rightarrow> bytes \<Rightarrow> bytes \<Rightarrow> bytes \<Rightarrow> 'db \<Rightarrow>
   (bytes list \<times> bytes \<times> bytes \<times> bool) result" where
  "pathRun E J wrappingKey ctx database plan query encoded afterID lastV db =
     (if plIndex plan = [] then
        bindE (queryPathDocs E J wrappingKey ctx database (plPath plan) (pqOp query) (pqValue query) (pqLimit query)
                 maxScanDocs afterID db) (\<lambda>page.
        Inr (ppIDs page, ppLastID page, lastV, ppMore page))
      else if pqOp query = cmpEq then
        bindE (queryDocsCtx E wrappingKey ctx database (plIndex plan) encoded (pqLimit query) afterID db) (\<lambda>(ids, more).
        Inr (ids, afterID, lastV, more))
      else
        bindE (queryRangePage E wrappingKey ctx database (plIndex plan) (pqOp query) encoded (pqLimit query) lastV afterID db) (\<lambda>page.
        Inr (pageIDs page, afterID, lastValue page, pageMore page)))"

definition executePathQuery ::
  "'db services \<Rightarrow> 'p pathEngine \<Rightarrow> bytes \<Rightarrow> ctx \<Rightarrow> bytes \<Rightarrow> 'p pathPlan \<Rightarrow> pathQuery \<Rightarrow> ('db, bytes list \<times> bytes) op" where
  "executePathQuery E J wrappingKey ctx database plan query =
     bindM (readM (cursorKey E wrappingKey database)) (\<lambda>key.
     bindM (readM (\<lambda>_. newQueryCipher key)) (\<lambda>box.
     bindM (readM (\<lambda>_. encodeIndexValue (pqValue query))) (\<lambda>encoded.
     bindM (readM (\<lambda>_. pathStart E box database plan query encoded)) (\<lambda>(afterID, lastV).
     bindM (readM (pathRun E J wrappingKey ctx database plan query encoded afterID lastV)) (\<lambda>(ids, afterID, lastV, more).
     if \<not> more then returnM (ids, [])
     else if plIndex plan \<noteq> [] \<and> ids = [] then failM [GoPanic]
     else
       let afterID = (if plIndex plan \<noteq> [] then last ids else afterID);
           cursor = \<lparr>pcMethod = queryMethod, pcDialect = dialectJSONPath, pcOrder = planOrder plan,
                     pcDatabase = database, pcPathHash = pathHash E (plText plan), pcIndex = plIndex plan,
                     pcOp = pqOp query, pcValue = encoded, pcLastValue = lastV, pcID = afterID\<rparr>
       in bindM (worldM (encodePathCursor E box cursor)) (\<lambda>token. returnM (ids, token)))))))"

end
