(* ===== verification/Mime.thy ===== *)
theory Mime
  imports Json
begin

text \<open>
  What the program uses of the package \<open>mime\<close>: \<open>ParseMediaType\<close>, which splits a header value into
  the media type in lower case and its parameters and checks both.  Of the code points beyond
  ASCII only those matter that \<open>strings.ToLower\<close> maps into ASCII (U+0130 and U+212A): every
  other one makes the media type invalid before and after lowering.
\<close>

section \<open>Tokens\<close>

definition isTSpecial :: "byte \<Rightarrow> bool" where
  "isTSpecial c = List.member (str [CHR ''('', CHR '')'', CHR ''<'', CHR ''>'', CHR ''@'', CHR '','', CHR '';'',
     CHR '':'', CHR 0x5C, CHR 0x22, CHR ''/'', CHR ''['', CHR '']'', CHR ''?'', CHR ''='']) c"

definition isTokenChar :: "byte \<Rightarrow> bool" where
  "isTokenChar c = (c > 0x20 \<and> c < 0x7f \<and> \<not> isTSpecial c)"

definition consumeToken :: "bytes \<Rightarrow> bytes \<times> bytes" where
  "consumeToken v = (takeWhile isTokenChar v, dropWhile isTokenChar v)"

fun toLower :: "bytes \<Rightarrow> bytes" where
  "toLower [] = []"
| "toLower (c # s) =
     (if c = 0xC4 \<and> prefix [0xB0] s then 0x69 # toLower (drop 1 s)
      else if c = 0xE2 \<and> prefix [0x84, 0xAA] s then 0x6B # toLower (drop 2 s)
      else (if c \<ge> 0x41 \<and> c \<le> 0x5A then c + 0x20 else c) # toLower s)"

definition trimLeftSpace :: "bytes \<Rightarrow> bytes" where
  "trimLeftSpace s = trimLeft spaceSeqs s"

section \<open>Parameters\<close>

text \<open>The loop over a quoted string: \<open>buffer\<close> and the rest of the input.\<close>

fun quoted :: "bytes \<Rightarrow> bytes \<Rightarrow> (bytes \<times> bytes) option" where
  "quoted buffer [] = None"
| "quoted buffer (r # v) =
     (if r = 0x22 then Some (buffer, v)
      else if r = 0x5C \<and> v \<noteq> [] \<and> isTSpecial (hd v) then quoted (buffer @ [hd v]) (tl v)
      else if r = 0x0D \<or> r = 0x0A then None
      else quoted (buffer @ [r]) v)"

definition consumeValue :: "bytes \<Rightarrow> bytes \<times> bytes" where
  "consumeValue v =
     (if v = [] then ([], [])
      else if hd v \<noteq> 0x22 then consumeToken v
      else case quoted [] (tl v) of Some p \<Rightarrow> p | None \<Rightarrow> ([], v))"

definition consumeMediaParam :: "bytes \<Rightarrow> bytes \<times> bytes \<times> bytes" where
  "consumeMediaParam v =
     (let rest = trimLeftSpace v in
      if \<not> prefix [0x3B] rest then ([], [], v)
      else let (param, rest) = consumeToken (trimLeftSpace (drop 1 rest)); param = toLower param in
        if param = [] then ([], [], v)
        else let rest = trimLeftSpace rest in
          if \<not> prefix [0x3D] rest then ([], [], v)
          else let rest = trimLeftSpace (drop 1 rest); (value, rest2) = consumeValue rest in
            if value = [] \<and> rest2 = rest then ([], [], v) else (param, value, rest2))"

definition checkMediaType :: "bytes \<Rightarrow> bool" where
  "checkMediaType s =
     (let (typ, rest) = consumeToken s in
      typ \<noteq> [] \<and> (rest = [] \<or>
        prefix [0x2F] rest \<and> (let (subtype, rest) = consumeToken (drop 1 rest) in subtype \<noteq> [] \<and> rest = [])))"

lemma trimLeft_length: "length (trimLeft seqs s) \<le> length s"
proof (induction seqs s rule: trimLeft.induct)
  case (1 seqs s)
  then show ?case
    by (subst trimLeft.simps) (auto intro: order_trans)
qed

lemma quoted_length: "quoted b v = Some (x, r) \<Longrightarrow> length r < length v"
  by (induction b v rule: quoted.induct) (fastforce split: if_splits)+

lemma consumeMediaParam_length: "consumeMediaParam v = (p, x, r) \<Longrightarrow> p \<noteq> [] \<Longrightarrow> length r < length v"
proof -
  have tok: "length (dropWhile P w) \<le> length w" for P :: "byte \<Rightarrow> bool" and w by (rule length_dropWhile_le)
  have val: "consumeValue w = (x, r) \<Longrightarrow> length r \<le> length w" for w x r
    using quoted_length [of "[]" "tl w" x r] tok [of isTokenChar w]
    by (auto simp: consumeValue_def consumeToken_def split: if_splits option.splits)
  assume a: "consumeMediaParam v = (p, x, r)" "p \<noteq> []"
  let ?r1 = "trimLeftSpace v"
  let ?r2 = "dropWhile isTokenChar (trimLeftSpace (drop 1 ?r1))"
  let ?r3 = "trimLeftSpace (drop 1 (trimLeftSpace ?r2))"
  from a have "consumeValue ?r3 = (x, r)" "prefix [0x3B] ?r1"
    by (auto simp: consumeMediaParam_def consumeToken_def Let_def split: if_splits prod.splits)
  moreover have "length ?r3 \<le> length (drop 1 ?r1)"
    using trimLeft_length [of spaceSeqs "drop 1 (trimLeftSpace ?r2)"] trimLeft_length [of spaceSeqs ?r2]
      tok [of isTokenChar "trimLeftSpace (drop 1 ?r1)"] trimLeft_length [of spaceSeqs "drop 1 ?r1"]
    by (simp add: trimLeftSpace_def)
  moreover have "?r1 \<noteq> []" using \<open>prefix [0x3B] ?r1\<close> by auto
  ultimately show ?thesis
    using val [of ?r3 x r] trimLeft_length [of spaceSeqs v] by (cases ?r1) (auto simp: trimLeftSpace_def)
qed

section \<open>Media types\<close>

text \<open>The loop over the parameters; \<open>params\<close> are those seen so far.\<close>

function mediaParams :: "(bytes \<times> bytes) list \<Rightarrow> bytes \<Rightarrow> bool" where
  "mediaParams params v =
     (let v = trimLeftSpace v in
      if v = [] then True
      else let (key, value, rest) = consumeMediaParam v in
        if key = [] then trimSpace rest = [0x3B]
        else if (case map_of params key of None \<Rightarrow> False | Some w \<Rightarrow> w \<noteq> value) then False
        else mediaParams ((key, value) # params) rest)"
  by pat_completeness auto
termination
proof (relation "measure (\<lambda>(p, v). length v)", goal_cases)
  case (2 params v w x key y val rest)
  then have "length rest < length w" using consumeMediaParam_length [of w key val rest] by auto
  then show ?case using 2(1) trimLeft_length [of spaceSeqs v] by (simp add: trimLeftSpace_def)
qed simp

declare mediaParams.simps [simp del]

text \<open>The media type, or \<open>None\<close> for an error.\<close>

definition parseMediaType :: "bytes \<Rightarrow> bytes option" where
  "parseMediaType v =
     (let base = takeWhile (\<lambda>c. c \<noteq> 0x3B) v; mediatype = trimSpace (toLower base) in
      if \<not> checkMediaType mediatype then None
      else if mediaParams [] (drop (length base) v) then Some mediatype else None)"

end
