(* ===== verification/Request.thy ===== *)
theory Request
  imports Path_Query Mime
begin

text \<open>
  The request parsers of server.go: query parameters (\<open>parseDocQuery\<close>, \<open>parseListQuery\<close>,
  \<open>decodeQueryValue\<close>, \<open>queryStart\<close>), the body that creates a database (\<open>decodeDBRequest\<close>) and
  media types, over a model of what they use of \<open>net/url\<close> and of decoding into structs.
\<close>

section \<open>Query strings\<close>

text \<open>\<open>url.QueryUnescape\<close>.\<close>

fun queryUnescape :: "bytes \<Rightarrow> bytes option" where
  "queryUnescape [] = Some []"
| "queryUnescape (c # s) =
     (if c = 37 then
        (case s of
           a # b # t \<Rightarrow>
             (case (fromHexChar a, fromHexChar b) of
                (Some x, Some y) \<Rightarrow> map_option (\<lambda>u. (x * 16 + y) # u) (queryUnescape t)
              | _ \<Rightarrow> None)
         | _ \<Rightarrow> None)
      else map_option (\<lambda>u. (if c = 43 then 32 else c) # u) (queryUnescape s))"

text \<open>\<open>url.Values\<close>: the values of every key, in the order of the text.\<close>

type_synonym urlValues = "(bytes \<times> bytes list) list"

fun addValue :: "bytes \<Rightarrow> bytes \<Rightarrow> urlValues \<Rightarrow> urlValues" where
  "addValue k v [] = [(k, [v])]"
| "addValue k v ((a, vs) # m) = (if a = k then (a, vs @ [v]) # m else (a, vs) # addValue k v m)"

definition cutAt :: "byte \<Rightarrow> bytes \<Rightarrow> bytes \<times> bytes" where
  "cutAt sep s = (takeWhile (\<lambda>c. c \<noteq> sep) s, drop 1 (dropWhile (\<lambda>c. c \<noteq> sep) s))"

text \<open>
  \<open>url.ParseQuery\<close>: the values and whether all parameters were well formed; a malformed one is
  left out.  The cap on the number of parameters that the package applies is far beyond what a
  request with at most five of them can have.
\<close>

fun parseQuery_loop :: "urlValues \<Rightarrow> bool \<Rightarrow> bytes list \<Rightarrow> urlValues \<times> bool" where
  "parseQuery_loop m ok [] = (m, ok)"
| "parseQuery_loop m ok (part # parts) =
     (if List.member part 59 then parseQuery_loop m False parts
      else if part = [] then parseQuery_loop m ok parts
      else
        let (k, v) = cutAt 61 part in
        case (queryUnescape k, queryUnescape v) of
          (Some key, Some val) \<Rightarrow> parseQuery_loop (addValue key val m) ok parts
        | _ \<Rightarrow> parseQuery_loop m False parts)"

definition parseQuery :: "bytes \<Rightarrow> urlValues \<times> bool" where
  "parseQuery query = parseQuery_loop [] True (splitByte 38 query)"

section \<open>Errors of a request\<close>

text \<open>The status, the code and the message of an error response.\<close>

record apiError =
  errStatus :: nat
  errCode :: bytes
  errMessage :: bytes

definition apiErr :: "nat \<Rightarrow> string \<Rightarrow> string \<Rightarrow> apiError" where
  "apiErr status code message = \<lparr>errStatus = status, errCode = str code, errMessage = str message\<rparr>"

section \<open>Document queries\<close>

record docQuery =
  dqValue :: json
  dqCursor :: bytes
  dqIndex :: bytes
  dqOp :: cmpOp
  dqLimit :: int
  dqIndexed :: bool

definition decodeQueryValue :: "bytes \<Rightarrow> json option" where
  "decodeQueryValue raw =
     (case jsonDecode raw of
        None \<Rightarrow> None
      | Some (v, rest) \<Rightarrow> if skipSpace rest \<noteq> [] then None else if isScalar v then Some v else None)"

definition parseLimit :: "bytes \<Rightarrow> int option" where
  "parseLimit raw =
     (case atoi raw of None \<Rightarrow> None | Some limit \<Rightarrow> if limit < 1 \<or> limit > maxListLimit then None else Some limit)"

definition knownParam :: "bytes \<times> bytes list \<Rightarrow> bool" where
  "knownParam p =
     (List.member [str ''limit'', str ''cursor'', str ''index'', str ''op'', str ''value''] (fst p) \<and> length (snd p) = 1)"

definition parseDocQuery :: "bytes \<Rightarrow> apiError + docQuery" where
  "parseDocQuery rawQuery =
     (let (values, ok) = parseQuery rawQuery;
          param = (\<lambda>name. map_option hd (map_of values (str name)));
          invalid = (\<lambda>message. Inl (apiErr 400 ''invalid_query'' message)) in
      if \<not> ok then invalid ''Query is invalid''
      else if \<not> list_all knownParam values then invalid ''Query is invalid''
      else
        bindE (case param ''limit'' of
                 None \<Rightarrow> Inr defaultListLimit
               | Some raw \<Rightarrow>
                 (case parseLimit raw of
                    None \<Rightarrow> Inl (apiErr 400 ''invalid_limit'' ''Limit must be between 1 and 1000'')
                  | Some limit \<Rightarrow> Inr limit)) (\<lambda>limit.
        let cursor = (case param ''cursor'' of None \<Rightarrow> [] | Some c \<Rightarrow> c);
            hasIndex = param ''index'' \<noteq> None; hasValue = param ''value'' \<noteq> None; hasOp = param ''op'' \<noteq> None in
        if hasIndex \<noteq> hasValue then invalid ''Index and value must appear together''
        else if hasOp \<and> \<not> hasIndex then invalid ''Operator requires index and value''
        else if \<not> hasIndex then
          (if cursor \<noteq> [] \<and> \<not> isOk (validateID cursor) then Inl (apiErr 400 ''invalid_cursor'' ''Cursor is invalid'')
           else Inr \<lparr>dqValue = JNull, dqCursor = cursor, dqIndex = [], dqOp = cmpEq, dqLimit = limit, dqIndexed = False\<rparr>)
        else
          let index = the (param ''index'') in
          if \<not> isOk (validateName index) then invalid ''Index is invalid''
          else case decodeQueryValue (the (param ''value'')) of
              None \<Rightarrow> invalid ''Value must be one JSON scalar''
            | Some v \<Rightarrow>
              (case (case param ''op'' of None \<Rightarrow> Some cmpEq | Some raw \<Rightarrow> parseCmpOp raw) of
                 None \<Rightarrow> invalid ''Operator is invalid''
               | Some op \<Rightarrow>
                 if op \<noteq> cmpEq \<and> \<not> isOrdered v then invalid ''Operator does not support this value''
                 else Inr \<lparr>dqValue = v, dqCursor = cursor, dqIndex = index, dqOp = op, dqLimit = limit, dqIndexed = True\<rparr>)))"

definition queryStart ::
  "'db services \<Rightarrow> bytes \<Rightarrow> bytes \<Rightarrow> docQuery \<Rightarrow> (bytes \<times> bytes \<times> bytes) result" where
  "queryStart E box database query =
     bindE (encodeIndexValue (dqValue query)) (\<lambda>encoded.
     if dqCursor query = [] then Inr (encoded, [], [])
     else case decodeQueryCursor E box (dqCursor query) of
         Inl _ \<Rightarrow> Inl [ErrInvalidQueryCursor]
       | Inr cursor \<Rightarrow>
         if qcDatabase cursor \<noteq> database \<or> qcIndex cursor \<noteq> dqIndex query \<or> qcOp cursor \<noteq> dqOp query \<or>
            qcValue cursor \<noteq> encoded
         then Inl [ErrInvalidQueryCursor]
         else Inr (encoded, qcLastValue cursor, qcID cursor))"

text \<open>\<open>r.URL.Query()\<close> leaves malformed parameters out; \<open>Get\<close> returns the first value.\<close>

definition parseListQuery :: "bytes \<Rightarrow> (bytes \<Rightarrow> unit result) \<Rightarrow> apiError + (int \<times> bytes)" where
  "parseListQuery rawQuery validateCursor =
     (let values = fst (parseQuery rawQuery);
          param = (\<lambda>name. map_option hd (map_of values (str name))) in
      bindE (case param ''limit'' of
               None \<Rightarrow> Inr defaultListLimit
             | Some raw \<Rightarrow>
               (case parseLimit raw of
                  None \<Rightarrow> Inl (apiErr 400 ''invalid_limit'' ''Limit must be between 1 and 1000'')
                | Some limit \<Rightarrow> Inr limit)) (\<lambda>limit.
      let cursor = (case param ''cursor'' of None \<Rightarrow> [] | Some c \<Rightarrow> c) in
      if cursor \<noteq> [] \<and> \<not> isOk (validateCursor cursor) then Inl (apiErr 400 ''invalid_cursor'' ''Cursor is invalid'')
      else Inr (limit, cursor)))"

section \<open>Media types\<close>

definition isJSON :: "bytes \<Rightarrow> bool" where
  "isJSON value = (parseMediaType value = Some (str ''application/json''))"

section \<open>The body that creates a database\<close>

record indexRequest =
  irName :: bytes
  irPath :: bytes

text \<open>\<open>Indexes\<close> is nil or the slice.\<close>

record dbRequest =
  drName :: bytes
  drIndexes :: "indexRequest list option"

definition indexDefs :: "dbRequest \<Rightarrow> indexDef list" where
  "indexDefs r =
     (case drIndexes r of
        None \<Rightarrow> []
      | Some reqs \<Rightarrow> map (\<lambda>index. \<lparr>idxName = irName index, idxPath = irPath index\<rparr>) reqs)"

text \<open>
  Struct fields match their key up to case folding.  Beyond ASCII, U+017F folds to s and U+212A
  to k.
\<close>

fun foldKey :: "bytes \<Rightarrow> bytes" where
  "foldKey [] = []"
| "foldKey (c # s) =
     (if c = 0xC5 \<and> prefix [0xBF] s then 0x73 # foldKey (drop 1 s)
      else if c = 0xE2 \<and> prefix [0x84, 0xAA] s then 0x6B # foldKey (drop 2 s)
      else (if c \<ge> 0x41 \<and> c \<le> 0x5A then c + 0x20 else c) # foldKey s)"

definition isField :: "string \<Rightarrow> bytes \<Rightarrow> bool" where
  "isField name key = (foldKey key = str name)"

text \<open>
  The members of an object, after its opening brace, and the elements of an array, after its
  opening bracket: \<open>h\<close> decodes one value into the state.  Every step consumes input, so the
  length of the text is fuel enough.
\<close>

fun members_loop :: "nat \<Rightarrow> (bytes \<Rightarrow> 's \<Rightarrow> bytes \<Rightarrow> ('s \<times> bytes) option) \<Rightarrow> 's \<Rightarrow> bytes \<Rightarrow> ('s \<times> bytes) option" where
  "members_loop 0 h st s = None"
| "members_loop (Suc f) h st s =
     (case skipSpace s of [] \<Rightarrow> None
      | q # r \<Rightarrow>
        if q \<noteq> 34 then None
        else case unquote r of None \<Rightarrow> None
          | Some (k, t) \<Rightarrow>
            (case skipSpace t of [] \<Rightarrow> None
             | c # u \<Rightarrow>
               if c \<noteq> 58 then None
               else case h k st u of None \<Rightarrow> None
                 | Some (st', w) \<Rightarrow>
                   (case skipSpace w of [] \<Rightarrow> None
                    | e # x \<Rightarrow>
                      if e = 125 then Some (st', x) else if e = 44 then members_loop f h st' x else None)))"

definition objectInto :: "(bytes \<Rightarrow> 's \<Rightarrow> bytes \<Rightarrow> ('s \<times> bytes) option) \<Rightarrow> 's \<Rightarrow> bytes \<Rightarrow> ('s \<times> bytes) option" where
  "objectInto h st s =
     (case skipSpace s of
        [] \<Rightarrow> None
      | c # r \<Rightarrow>
        if c = 110 then (if prefix (str ''ull'') r then Some (st, drop 3 r) else None)
        else if c \<noteq> 123 then None
        else case skipSpace r of
            [] \<Rightarrow> None
          | e # t \<Rightarrow> if e = 125 then Some (st, t) else members_loop (length r) h st r)"

fun elems_loop :: "nat \<Rightarrow> (nat \<Rightarrow> 's \<Rightarrow> bytes \<Rightarrow> ('s \<times> bytes) option) \<Rightarrow> nat \<Rightarrow> 's \<Rightarrow> bytes \<Rightarrow> ('s \<times> nat \<times> bytes) option" where
  "elems_loop 0 h i st s = None"
| "elems_loop (Suc f) h i st s =
     (case h i st s of None \<Rightarrow> None
      | Some (st', r) \<Rightarrow>
        (case skipSpace r of [] \<Rightarrow> None
         | c # t \<Rightarrow> if c = 93 then Some (st', i + 1, t) else if c = 44 then elems_loop f h (i + 1) st' t else None))"

definition indexInto :: "indexRequest \<Rightarrow> bytes \<Rightarrow> (indexRequest \<times> bytes) option" where
  "indexInto =
     objectInto (\<lambda>key index s.
       if isField ''name'' key then map_option (\<lambda>(x, r). (index\<lparr>irName := x\<rparr>, r)) (decodeString (irName index) s)
       else if isField ''path'' key then map_option (\<lambda>(x, r). (index\<lparr>irPath := x\<rparr>, r)) (decodeString (irPath index) s)
       else None)"

text \<open>
  The slice of \<open>Indexes\<close> while it is decoded: its backing array and its length.  Decoding an array
  into it again reuses the elements that are there, also those behind its length.
\<close>

type_synonym indexSlice = "indexRequest list \<times> nat"

definition elemInto :: "nat \<Rightarrow> indexRequest list \<Rightarrow> bytes \<Rightarrow> (indexRequest list \<times> bytes) option" where
  "elemInto i slots s =
     (let old = (if i < length slots then slots ! i else \<lparr>irName = [], irPath = []\<rparr>) in
      map_option (\<lambda>(x, r). (take i slots @ [x] @ drop (i + 1) slots, r)) (indexInto old s))"

definition indexesInto :: "indexSlice option \<Rightarrow> bytes \<Rightarrow> (indexSlice option \<times> bytes) option" where
  "indexesInto old s =
     (case skipSpace s of
        [] \<Rightarrow> None
      | c # r \<Rightarrow>
        if c = 110 then (if prefix (str ''ull'') r then Some (None, drop 3 r) else None)
        else if c \<noteq> 91 then None
        else case skipSpace r of
            [] \<Rightarrow> None
          | e # t \<Rightarrow>
            if e = 93 then Some (Some ([], 0), t)
            else map_option (\<lambda>(slots, n, u). (Some (slots, n), u))
                   (elems_loop (length r) elemInto 0 (case old of None \<Rightarrow> [] | Some (slots, _) \<Rightarrow> slots) r))"

text \<open>
  The two decodings of the body: into the request, and of the raw text of its last \<open>indexes\<close>
  (\<open>null\<close> there is refused); \<open>None\<close> as the last component stands for a body without the key.
\<close>

type_synonym dbRequestState = "bytes \<times> indexSlice option \<times> bool"

definition dbRequestInto :: "dbRequestState \<Rightarrow> bytes \<Rightarrow> (dbRequestState \<times> bytes) option" where
  "dbRequestInto =
     objectInto (\<lambda>key (name, sl, isNull) s.
       if isField ''name'' key then map_option (\<lambda>(x, r). ((x, sl, isNull), r)) (decodeString name s)
       else if isField ''indexes'' key then map_option (\<lambda>(sl1, r). ((name, sl1, sl1 = None), r)) (indexesInto sl s)
       else None)"

definition decodeDBRequest :: "bytes \<Rightarrow> dbRequest option" where
  "decodeDBRequest body =
     (case dbRequestInto ([], None, False) body of
        None \<Rightarrow> None
      | Some ((name, sl, isNull), rest) \<Rightarrow>
        if skipSpace rest \<noteq> [] then None
        else if isNull then None
        else Some \<lparr>drName = name, drIndexes = map_option (\<lambda>(slots, n). take n slots) sl\<rparr>)"

end
