(* ===== verification/Patch.thy ===== *)
theory Patch
  imports Mime
begin

text \<open>
  Patches (patch.go): the media types of the two patch formats and the application of a patch
  to a stored document.  The package \<open>evanphx/json-patch\<close> is a parameter: its merge, its
  parser, its options and its application.  A Go error of the package matters in one respect,
  whether its chain holds an \<open>AccumulatedCopySizeError\<close>.
\<close>

section \<open>The patch package\<close>

datatype patchErr = CopySizeErr | OtherPatchErr

record applyOptions =
  supportNegativeIndices :: bool
  accumulatedCopySizeLimit :: int

record 'p patchEngine =
  mergePatch :: "bytes \<Rightarrow> bytes \<Rightarrow> patchErr + bytes"
  decodePatch :: "bytes \<Rightarrow> patchErr + 'p"
  newApplyOptions :: applyOptions
  applyWithOptions :: "'p \<Rightarrow> bytes \<Rightarrow> applyOptions \<Rightarrow> patchErr + bytes"

section \<open>Media types\<close>

definition mergePatchType :: bytes where
  "mergePatchType = str ''application/merge-patch+json''"

definition jsonPatchType :: bytes where
  "jsonPatchType = str ''application/json-patch+json''"

definition parsePatchType :: "bytes \<Rightarrow> bytes result" where
  "parsePatchType value =
     (case parseMediaType value of
        None \<Rightarrow> Inl [ErrInvalidPatch]
      | Some mediaType \<Rightarrow>
        if mediaType \<noteq> mergePatchType \<and> mediaType \<noteq> jsonPatchType then Inl [ErrInvalidPatch]
        else Inr mediaType)"

section \<open>Applying a patch\<close>

text \<open>The patched document before it is validated.\<close>

definition patchResult :: "'p patchEngine \<Rightarrow> bytes \<Rightarrow> bytes \<Rightarrow> bytes \<Rightarrow> int \<Rightarrow> (patchErr + bytes) option" where
  "patchResult P document body mediaType maxBytes =
     (if mediaType = mergePatchType then Some (mergePatch P document body)
      else if mediaType = jsonPatchType then
        Some (bindE (decodePatch P body) (\<lambda>patch.
          let options = (newApplyOptions P)\<lparr>supportNegativeIndices := False, accumulatedCopySizeLimit := maxBytes\<rparr>
          in applyWithOptions P patch document options))
      else None)"

definition applyPatch :: "'p patchEngine \<Rightarrow> bytes \<Rightarrow> bytes \<Rightarrow> bytes \<Rightarrow> int \<Rightarrow> bytes result" where
  "applyPatch P document body mediaType maxBytes =
     (case patchResult P document body mediaType maxBytes of
        None \<Rightarrow> Inl [ErrInvalidPatch]
      | Some (Inl CopySizeErr) \<Rightarrow> Inl [ErrBodyTooLarge]
      | Some (Inl OtherPatchErr) \<Rightarrow> Inl [ErrInvalidPatch]
      | Some (Inr result) \<Rightarrow>
        (case validateDoc result maxBytes of
           Inl e \<Rightarrow> if errors_Is e ErrBodyTooLarge then Inl e else Inl [ErrInvalidPatch]
         | Inr canonical \<Rightarrow> Inr canonical))"

end
