(* ===== verification/Bulk.thy ===== *)
theory Bulk
  imports Mime
begin

text \<open>
  Bulk import and export (bulk.go): the media type, the reader that splits the body of an
  import into lines and validates each as a document, and the stream that writes an export.
  The request body is what its reader delivers; \<open>bufio.Reader.ReadSlice\<close> is modelled with its
  buffer of 4096 bytes.
\<close>

section \<open>Media type\<close>

definition bulkMediaType :: bytes where
  "bulkMediaType = str ''application/x-ndjson''"

definition isNDJSON :: "bytes \<Rightarrow> bool" where
  "isNDJSON value = (parseMediaType value = Some bulkMediaType)"

section \<open>Reading slices\<close>

text \<open>
  The body: the bytes it delivers, how it ends, and whether the reader reports the end
  together with the last bytes (\<open>eager\<close>) or in a call of its own; \<open>io.Reader\<close> allows both.
\<close>

record bulkReader = reader +
  eager :: bool

datatype sliceEnd = SliceOk | SliceFull | SliceErr "err option"

definition bufSize :: nat where "bufSize = 4096"

definition readSlice :: "bulkReader \<Rightarrow> bytes \<times> sliceEnd \<times> bulkReader" where
  "readSlice r =
     (let u = content r in
      if List.member (take bufSize u) 10
      then let fragment = takeWhile (\<lambda>c. c \<noteq> 10) u @ [10] in
        (fragment, SliceOk, r\<lparr>content := drop (length fragment) u\<rparr>)
      else if length u < bufSize \<or> length u = bufSize \<and> eager r
      then (u, SliceErr (failure r), r\<lparr>content := []\<rparr>)
      else (take bufSize u, SliceFull, r\<lparr>content := drop bufSize u\<rparr>))"

section \<open>Lines\<close>

definition lineLen :: "bytes \<Rightarrow> bool \<Rightarrow> int" where
  "lineLen line complete =
     (let len = length line in
      if complete \<and> len > 0 \<and> line ! (len - 1) = 10
      then (if len - 1 > 0 \<and> line ! (len - 1 - 1) = 13 then int (len - 1 - 1) else int (len - 1))
      else int len)"

definition trimSuffix :: "bytes \<Rightarrow> byte \<Rightarrow> bytes" where
  "trimSuffix line c = (if line \<noteq> [] \<and> last line = c then butlast line else line)"

definition trimLineEnd :: "bytes \<Rightarrow> bool \<Rightarrow> bytes" where
  "trimLineEnd line complete = (if \<not> complete then line else trimSuffix (trimSuffix line 10) 13)"

section \<open>Reading documents\<close>

lemma readSlice_shorter:
  "readSlice r = (f, e, r') \<Longrightarrow> e = SliceOk \<or> e = SliceFull \<Longrightarrow> length (content r') < length (content r)"
  by (auto simp: readSlice_def bufSize_def Let_def split: if_splits) (cases "content r", auto)

text \<open>
  The loop of \<open>readBulkCtx\<close>.  When a read fails, \<open>ctxErr\<close> is what \<open>ctx.Err\<close> returns then and
  \<open>expired\<close> tells whether a deadline has passed.
\<close>

function readBulk_loop ::
  "err option \<Rightarrow> bool \<Rightarrow> int \<Rightarrow> int \<Rightarrow> int \<Rightarrow> bytes list \<Rightarrow> bytes \<Rightarrow> int \<Rightarrow> nat \<Rightarrow> bulkReader \<Rightarrow> bytes list result" where
  "readBulk_loop ctxErr expired maxLine maxBytes maxDocs documents line count lineNumber r =
     (let (fragment, end, r') = readSlice r;
          count = count + int (length fragment);
          line = line @ fragment;
          eof = (end = SliceErr None)
      in
      if count > maxBytes then Inl [ErrBulkLimit]
      else if lineLen line (end = SliceOk) > maxLine then Inl [BulkLine lineNumber, ErrBulkLimit]
      else if end = SliceFull
      then readBulk_loop ctxErr expired maxLine maxBytes maxDocs documents line count lineNumber r'
      else if end \<noteq> SliceOk \<and> \<not> eof
      then (case ctxErr of Some e \<Rightarrow> Inl e
            | None \<Rightarrow> if expired then Inl [ErrDeadlineExceeded]
                else Inl (ErrBulkRead # (case end of SliceErr (Some e) \<Rightarrow> e | _ \<Rightarrow> [])))
      else if eof \<and> length line = 0
      then (if length documents = 0 then Inl [ErrBulkEmpty] else Inr documents)
      else let line = trimLineEnd line (end = SliceOk) in
        if length line = 0 then Inl [BulkLine lineNumber, ErrInvalidDoc]
        else if int (length documents) \<ge> maxDocs then Inl [BulkLine lineNumber, ErrBulkLimit]
        else (case validateDoc line maxLine of
            Inl e \<Rightarrow> Inl (BulkLine lineNumber # e)
          | Inr document \<Rightarrow>
            if eof then Inr (documents @ [document])
            else readBulk_loop ctxErr expired maxLine maxBytes maxDocs (documents @ [document]) [] count (lineNumber + 1) r'))"
  by pat_completeness auto

termination
  by (relation "measure (\<lambda>(_, _, _, _, _, _, _, _, _, r). length (content r))")
    (auto dest!: readSlice_shorter [OF sym] split: sliceEnd.splits, (metis sliceEnd.exhaust)?)

declare readBulk_loop.simps [simp del]

definition readBulkCtx :: "err option \<Rightarrow> bool \<Rightarrow> bulkReader \<Rightarrow> int \<Rightarrow> int \<Rightarrow> int \<Rightarrow> bytes list result" where
  "readBulkCtx ctxErr expired reader maxLine maxBytes maxDocs =
     readBulk_loop ctxErr expired maxLine maxBytes maxDocs [] [] 0 1 reader"

definition readBulk :: "bulkReader \<Rightarrow> int \<Rightarrow> int \<Rightarrow> int \<Rightarrow> bytes list result" where
  "readBulk reader maxLine maxBytes maxDocs = readBulkCtx None False reader maxLine maxBytes maxDocs"

section \<open>Writing an export\<close>

text \<open>
  The response writer: the status it has sent, the bytes it has taken and how many more the
  connection takes before a write fails.
\<close>

record responseWriter =
  status :: "nat option"
  sent :: bytes
  room :: nat

definition writeHeader :: "nat \<Rightarrow> responseWriter \<Rightarrow> responseWriter" where
  "writeHeader code w = (if status w = None then w\<lparr>status := Some code\<rparr> else w)"

definition netWrite :: "bytes \<Rightarrow> responseWriter \<Rightarrow> nat \<times> bool \<times> responseWriter" where
  "netWrite p w =
     (let n = min (length p) (room w) in
      (n, n = length p, w\<lparr>sent := sent w @ take n p, room := room w - n\<rparr>))"

definition bulkBufferSize :: nat where "bulkBufferSize = 32 * 1024"

text \<open>
  The stream with its \<open>bufio.Writer\<close>: the bytes in the buffer and whether a write has failed
  (the error stays).  \<open>canFlush\<close> tells whether the response controller supports flushing.
\<close>

record bulkStream =
  writer :: responseWriter
  buffered :: bytes
  bufErr :: bool
  pending :: int
  started :: bool

definition newBulkStream :: "responseWriter \<Rightarrow> bulkStream" where
  "newBulkStream w = \<lparr>writer = w, buffered = [], bufErr = False, pending = 0, started = False\<rparr>"

definition bufFlush :: "bulkStream \<Rightarrow> bool \<times> bulkStream" where
  "bufFlush s =
     (if bufErr s then (False, s)
      else if buffered s = [] then (True, s)
      else let (n, ok, w) = netWrite (buffered s) (writer s) in
        if ok then (True, s\<lparr>writer := w, buffered := []\<rparr>)
        else (False, s\<lparr>writer := w, buffered := drop n (buffered s), bufErr := True\<rparr>))"

lemma bufFlush_progress: "bufErr (snd (bufFlush s)) \<or> buffered (snd (bufFlush s)) = []"
  by (auto simp: bufFlush_def Let_def split: prod.splits)

function bufWrite :: "bytes \<Rightarrow> bulkStream \<Rightarrow> bool \<times> bulkStream" where
  "bufWrite p s =
     (if length p > bulkBufferSize - length (buffered s) \<and> \<not> bufErr s
      then if buffered s = []
        then let (n, ok, w) = netWrite p (writer s) in bufWrite (drop n p) (s\<lparr>writer := w, bufErr := \<not> ok\<rparr>)
        else let n = bulkBufferSize - length (buffered s) in
          bufWrite (drop n p) (snd (bufFlush (s\<lparr>buffered := buffered s @ take n p\<rparr>)))
      else if bufErr s then (False, s)
      else (True, s\<lparr>buffered := buffered s @ p\<rparr>))"
  by pat_completeness auto

termination
proof (relation "measures [\<lambda>(p, s). if bufErr s then 0 else 1, \<lambda>(p, s). length p + (if buffered s = [] then 0 else 1)]",
    goal_cases)
  case (2 p s x n y ok w)
  then show ?case by (cases ok) (auto simp: netWrite_def Let_def bulkBufferSize_def min_def split: if_splits)
next
  case (3 p s n)
  then show ?case
    using bufFlush_progress [of "s\<lparr>buffered := buffered s @ take n p\<rparr>"] by auto
qed simp

declare bufWrite.simps [simp del]

definition bufWriteByte :: "byte \<Rightarrow> bulkStream \<Rightarrow> bool \<times> bulkStream" where
  "bufWriteByte c s =
     (if bufErr s then (False, s)
      else let (ok, s) = (if bulkBufferSize - length (buffered s) = 0 then bufFlush s else (True, s)) in
        if \<not> ok then (False, s) else (True, s\<lparr>buffered := buffered s @ [c]\<rparr>))"

definition streamFlush :: "bool \<Rightarrow> bulkStream \<Rightarrow> unit result \<times> bulkStream" where
  "streamFlush canFlush s =
     (let (ok, s) = bufFlush s in
      if \<not> ok then (Inl [], s)
      else (if canFlush then Inr () else Inl [], s\<lparr>pending := 0\<rparr>))"

definition streamWrite :: "bool \<Rightarrow> bytes \<Rightarrow> bulkStream \<Rightarrow> unit result \<times> bulkStream" where
  "streamWrite canFlush document s =
     (let s = (if \<not> started s then s\<lparr>writer := writeHeader 200 (writer s), started := True\<rparr> else s);
          (ok, s) = bufWrite document s
      in
      if \<not> ok then (Inl [], s)
      else let (ok, s) = bufWriteByte 10 s in
        if \<not> ok then (Inl [], s)
        else let s = s\<lparr>pending := pending s + int (length document) + 1\<rparr> in
          if pending s < int bulkBufferSize then (Inr (), s) else streamFlush canFlush s)"

end
