(* ===== verification/Http_Api.thy ===== *)
theory Http_Api
  imports Request Patch Bulk
begin

text \<open>
  The HTTP API (server.go; bulk.go, the JSON bodies of bulk responses; config.go, \<open>bulkConfig\<close>).
  A handler maps a request and the state of the server to a response and the new state.  The
  response holds what the handler writes; a write error of the connection is modelled only in
  the stream of an export, and what is logged is left out.  A run-time panic is the error
  \<open>GoPanic\<close>: \<open>recover\<close> answers it like any other internal failure.
\<close>

section \<open>Configuration and state\<close>

record bulkConfig =
  bulkMaxBytes :: int
  bulkMaxDocuments :: int
  bulkMaxBatchBytes :: int
  bulkTimeout :: int
  bulkConcurrency :: int

record ('db, 'p, 'q) apiEnv =
  services :: "'db services"
  wrappingKey :: bytes
  pathLib :: "'p pathEngine"
  patchLib :: "'q patchEngine"
  maxBodyBytes :: int
  bulkCfg :: bulkConfig
  buildVersion :: bytes

text \<open>\<open>bulkSlots\<close> is the number of tokens in the channel.\<close>

record 'db apiState =
  store :: "'db sys"
  bulkSlots :: int
  stopping :: bool

definition newAPIWithBulk :: "'db sys \<Rightarrow> 'db apiState" where
  "newAPIWithBulk s = \<lparr>store = s, bulkSlots = 0, stopping = False\<rparr>"

definition takeBulkSlot :: "('db, 'p, 'q) apiEnv \<Rightarrow> 'db apiState \<Rightarrow> bool \<times> 'db apiState" where
  "takeBulkSlot env st =
     (if bulkSlots st < bulkConcurrency (bulkCfg env) then (True, st\<lparr>bulkSlots := bulkSlots st + 1\<rparr>) else (False, st))"

definition freeBulkSlot :: "'db apiState \<Rightarrow> 'db apiState" where
  "freeBulkSlot st = st\<lparr>bulkSlots := bulkSlots st - 1\<rparr>"

definition stop :: "'db apiState \<Rightarrow> 'db apiState" where
  "stop st = st\<lparr>stopping := True\<rparr>"

section \<open>Requests and responses\<close>

text \<open>
  A request, with what its connection and its context do: the results of \<open>ctx.Err\<close> during the
  operation, the context error and whether the deadline has passed when a read fails, the
  result of setting a network deadline, whether the response can be flushed and how many bytes
  of an export the connection takes.
\<close>

datatype deadlineResult = DeadlineSet | DeadlineNotSupported | DeadlineError err

record request =
  reqMethod :: bytes
  urlPath :: bytes
  escapedPath :: bytes
  rawQuery :: bytes
  pathValues :: "(bytes \<times> bytes) list"
  contentType :: bytes
  ifMatch :: "bytes list"
  reqBody :: bulkReader
  reqCtx :: ctx
  reqCtxErr :: "err option"
  reqExpired :: bool
  reqDeadline :: deadlineResult
  reqCanFlush :: bool
  reqRoom :: nat

definition pathValue :: "request \<Rightarrow> string \<Rightarrow> bytes" where
  "pathValue r name = (case map_of (pathValues r) (str name) of None \<Rightarrow> [] | Some v \<Rightarrow> v)"

type_synonym headers = "(bytes \<times> bytes) list"

record response =
  respStatus :: nat
  respHeaders :: headers
  respBody :: bytes

definition setHeader :: "string \<Rightarrow> bytes \<Rightarrow> headers \<Rightarrow> headers" where
  "setHeader name v h = filter (\<lambda>(k, _). k \<noteq> str name) h @ [(str name, v)]"

text \<open>Marshalled structs: fields in the order of their declaration.\<close>

fun joinComma :: "bytes list \<Rightarrow> bytes" where
  "joinComma [] = []"
| "joinComma [x] = x"
| "joinComma (x # y # xs) = x @ [44] @ joinComma (y # xs)"

definition jsonFields :: "(string \<times> bytes) list \<Rightarrow> bytes" where
  "jsonFields fs = [123] @ joinComma (map (\<lambda>(k, v). quoteString (str k) @ [58] @ v) fs) @ [125]"

definition jsonStrings :: "bytes list \<Rightarrow> bytes" where
  "jsonStrings xs = [91] @ joinComma (map quoteString xs) @ [93]"

definition writeJSON :: "headers \<Rightarrow> nat \<Rightarrow> bytes \<Rightarrow> response" where
  "writeJSON h sts body =
     \<lparr>respStatus = sts, respHeaders = setHeader ''Content-Type'' (str ''application/json; charset=utf-8'') h, respBody = body\<rparr>"

definition writeData :: "headers \<Rightarrow> nat \<Rightarrow> bytes \<Rightarrow> bytes \<Rightarrow> response" where
  "writeData h sts ctype body =
     \<lparr>respStatus = sts, respHeaders = setHeader ''Content-Type'' ctype h, respBody = body\<rparr>"

definition writeStatus :: "headers \<Rightarrow> nat \<Rightarrow> response" where
  "writeStatus h sts = \<lparr>respStatus = sts, respHeaders = h, respBody = []\<rparr>"

definition errorEnvelope :: "bytes \<Rightarrow> bytes \<Rightarrow> bytes" where
  "errorEnvelope code message =
     jsonFields [(''error'', jsonFields [(''code'', quoteString code), (''message'', quoteString message)])]"

definition writeApiError :: "headers \<Rightarrow> apiError \<Rightarrow> response" where
  "writeApiError h e = writeJSON h (errStatus e) (errorEnvelope (errCode e) (errMessage e))"

definition writeError :: "headers \<Rightarrow> nat \<Rightarrow> string \<Rightarrow> string \<Rightarrow> response" where
  "writeError h sts code message = writeApiError h (apiErr sts code message)"

definition writeFailure :: "headers \<Rightarrow> err \<Rightarrow> response" where
  "writeFailure h e =
     (if errors_Is e ErrCorruptData then writeError h 500 ''corrupt_data'' ''Stored data is corrupt''
      else if isStoreUnavailable e then writeError h 503 ''service_unavailable'' ''Service is unavailable''
      else writeError h 500 ''internal_error'' ''Internal server error'')"

text \<open>\<open>a.fail\<close> logs and writes the failure.\<close>

definition fail :: "headers \<Rightarrow> err \<Rightarrow> response" where
  "fail h e = writeFailure h e"

definition methodNotAllowed :: response where
  "methodNotAllowed = writeError [] 405 ''method_not_allowed'' ''Method is not allowed''"

definition notFound :: response where
  "notFound = writeError [] 404 ''route_not_found'' ''Route does not exist''"

text \<open>Running a storage operation in the state of the server.\<close>

definition onStore :: "('db, 'a) op \<Rightarrow> 'db apiState \<Rightarrow> 'a result \<times> 'db apiState" where
  "onStore m st = (case m (store st) of (r, s) \<Rightarrow> (r, st\<lparr>store := s\<rparr>))"

section \<open>Service information\<close>

definition apiWelcome :: "('db, 'p, 'q) apiEnv \<Rightarrow> request \<Rightarrow> 'db apiState \<Rightarrow> response \<times> 'db apiState" where
  "apiWelcome env r st =
     (writeJSON [] 200 (jsonFields [(''name'', quoteString (str ''KantanDB'')), (''version'', quoteString (buildVersion env))]), st)"

definition apiHealth :: "('db, 'p, 'q) apiEnv \<Rightarrow> request \<Rightarrow> 'db apiState \<Rightarrow> response \<times> 'db apiState" where
  "apiHealth env r st = (writeJSON [] 200 (jsonFields [(''status'', quoteString (str ''ok''))]), st)"

section \<open>Databases\<close>

definition marshalDBRequest :: "dbRequest \<Rightarrow> bytes" where
  "marshalDBRequest request =
     jsonFields ((''name'', quoteString (drName request)) #
       (case drIndexes request of
          None \<Rightarrow> []
        | Some reqs \<Rightarrow>
          [(''indexes'', [91] @ joinComma (map (\<lambda>i. jsonFields [(''name'', quoteString (irName i)), (''path'', quoteString (irPath i))]) reqs) @ [93])]))"

text \<open>\<open>readBody\<close> with its two error responses; the code and the message differ between handlers.\<close>

definition requestBody :: "headers \<Rightarrow> request \<Rightarrow> int \<Rightarrow> string \<Rightarrow> string \<Rightarrow> response + bytes" where
  "requestBody h r limit code message =
     (case readBody (reader.truncate (reqBody r)) limit of
        Inl e \<Rightarrow>
          if errors_Is e ErrBodyTooLarge
          then Inl (writeError h 413 ''content_too_large'' ''Request body exceeds the size limit'')
          else Inl (writeError h 400 code message)
      | Inr body \<Rightarrow> Inr body)"

definition unsupportedJSON :: "headers \<Rightarrow> response" where
  "unsupportedJSON h = writeError h 415 ''unsupported_media_type'' ''Content-Type must be application/json''"

definition invalidName :: "headers \<Rightarrow> response" where
  "invalidName h = writeError h 400 ''invalid_name'' ''Database name is invalid''"

definition apiCreateDB :: "('db, 'p, 'q) apiEnv \<Rightarrow> request \<Rightarrow> 'db apiState \<Rightarrow> response \<times> 'db apiState" where
  "apiCreateDB env r st =
     (if \<not> isJSON (contentType r) then (unsupportedJSON [], st)
      else case requestBody [] r (maxBodyBytes env) ''invalid_request'' ''Could not read request body'' of
          Inl resp \<Rightarrow> (resp, st)
        | Inr body \<Rightarrow>
          (case decodeDBRequest body of
             None \<Rightarrow> (writeError [] 400 ''invalid_request'' ''Request body must contain a database name and optional indexes'', st)
           | Some request \<Rightarrow>
             if \<not> isOk (validateName (drName request)) then (invalidName [], st)
             else case onStore (createDB (services env) (wrappingKey env) (drName request) (indexDefs request)) st of
                 (Inl e, st') \<Rightarrow>
                   (if errors_Is e ErrDBExists then writeError [] 409 ''database_exists'' ''Database already exists''
                    else if errors_Is e ErrInvalidIndex then writeError [] 400 ''invalid_request'' ''Index definitions are invalid''
                    else fail [] e, st')
               | (Inr _, st') \<Rightarrow>
                   (writeJSON (setHeader ''Location'' (str ''/db/'' @ drName request) []) 201 (marshalDBRequest request), st')))"

definition apiListDBs :: "('db, 'p, 'q) apiEnv \<Rightarrow> request \<Rightarrow> 'db apiState \<Rightarrow> response \<times> 'db apiState" where
  "apiListDBs env r st =
     (case parseListQuery (rawQuery r) validateName of
        Inl e \<Rightarrow> (writeApiError [] e, st)
      | Inr (limit, cursor) \<Rightarrow>
        (case onStore (readM (listDBs (services env) (wrappingKey env) limit cursor)) st of
           (Inl e, st') \<Rightarrow> (fail [] e, st')
         | (Inr names, st') \<Rightarrow> (writeJSON [] 200 (jsonFields [(''databases'', jsonStrings names)]), st')))"

definition apiDeleteDB :: "('db, 'p, 'q) apiEnv \<Rightarrow> request \<Rightarrow> 'db apiState \<Rightarrow> response \<times> 'db apiState" where
  "apiDeleteDB env r st =
     (let name = pathValue r ''database'' in
      if \<not> isOk (validateName name) then (invalidName [], st)
      else case onStore (deleteDB (services env) (wrappingKey env) name) st of
          (Inl e, st') \<Rightarrow>
            (if errors_Is e ErrDBNotFound then writeError [] 404 ''database_not_found'' ''Database does not exist'' else fail [] e, st')
        | (Inr _, st') \<Rightarrow> (writeStatus [] 204, st'))"

section \<open>Lists and index queries\<close>

definition docList :: "bytes list \<Rightarrow> bytes \<Rightarrow> bytes" where
  "docList ids cursor = jsonFields [(''documents'', jsonStrings ids), (''cursor'', quoteString cursor)]"

text \<open>
  The first part of a query on an index: the cipher of the cursors, the encoded value and the
  position to start from.
\<close>

definition listStart ::
  "('db, 'p, 'q) apiEnv \<Rightarrow> bytes \<Rightarrow> docQuery \<Rightarrow> 'db \<Rightarrow> (bytes \<times> bytes \<times> bytes \<times> bytes) result" where
  "listStart env database query db =
     bindE (cursorKey (services env) (wrappingKey env) database db) (\<lambda>key.
     bindE (newQueryCipher key) (\<lambda>box.
     bindE (queryStart (services env) box database query) (\<lambda>(encoded, lastV, cursor).
     Inr (box, encoded, lastV, cursor))))"

text \<open>The second part: the page, the value it ends with and whether there is more.\<close>

definition listRun ::
  "('db, 'p, 'q) apiEnv \<Rightarrow> ctx \<Rightarrow> bytes \<Rightarrow> docQuery \<Rightarrow> bytes \<Rightarrow> bytes \<Rightarrow> bytes \<Rightarrow> 'db \<Rightarrow> (bytes list \<times> bytes \<times> bool) result" where
  "listRun env ctx database query encoded lastV cursor db =
     (if dqOp query = cmpEq then
        bindE (queryDocsCtx (services env) (wrappingKey env) ctx database (dqIndex query) encoded (dqLimit query) cursor db) (\<lambda>(ids, hasMore).
        Inr (ids, lastV, hasMore))
      else
        bindE (queryRangePage (services env) (wrappingKey env) ctx database (dqIndex query) (dqOp query) encoded (dqLimit query) lastV cursor db) (\<lambda>page.
        Inr (pageIDs page, lastValue page, pageMore page)))"

definition listError :: "headers \<Rightarrow> err \<Rightarrow> response" where
  "listError h e =
     (if errors_Is e ErrDBNotFound then writeError h 404 ''database_not_found'' ''Database does not exist''
      else if errors_Is e ErrIndexNotFound then writeError h 404 ''index_not_found'' ''Index does not exist''
      else if errors_Is e ErrInvalidIndexValue then writeError h 400 ''invalid_query'' ''Query is invalid''
      else fail h e)"

definition apiListDocs :: "('db, 'p, 'q) apiEnv \<Rightarrow> request \<Rightarrow> 'db apiState \<Rightarrow> response \<times> 'db apiState" where
  "apiListDocs env r st =
     (let h = setHeader ''Accept-Query'' (str ''application/json'') [];
          database = pathValue r ''database'';
          db = pdb (store st) in
      if \<not> isOk (validateName database) then (invalidName h, st)
      else case parseDocQuery (rawQuery r) of
          Inl e \<Rightarrow> (writeApiError h e, st)
        | Inr query \<Rightarrow>
          if \<not> dqIndexed query then
            (case listDocs (services env) (wrappingKey env) database (dqLimit query) (dqCursor query) db of
               Inl e \<Rightarrow> (listError h e, st)
             | Inr (ids, hasMore) \<Rightarrow>
               if hasMore \<and> ids = [] then (fail h [GoPanic], st)
               else (writeJSON h 200 (docList ids (if hasMore then last ids else [])), st))
          else
            (case listStart env database query db of
               Inl e \<Rightarrow>
                 (if errors_Is e ErrInvalidQueryCursor then writeError h 400 ''invalid_cursor'' ''Cursor is invalid'' else listError h e, st)
             | Inr (box, encoded, lastV, cursor) \<Rightarrow>
               (case listRun env (reqCtx r) database query encoded lastV cursor db of
                  Inl e \<Rightarrow> (listError h e, st)
                | Inr (ids, lastV, hasMore) \<Rightarrow>
                  if \<not> hasMore then (writeJSON h 200 (docList ids []), st)
                  else if ids = [] then (fail h [GoPanic], st)
                  else
                    (case onStore (worldM (encodeQueryCursor (services env) box
                            \<lparr>qcDatabase = database, qcIndex = dqIndex query, qcOp = dqOp query, qcValue = encoded,
                             qcLastValue = lastV, qcID = last ids\<rparr>)) st of
                       (Inl e, st') \<Rightarrow> (fail h e, st')
                     | (Inr token, st') \<Rightarrow> (writeJSON h 200 (docList ids token), st')))))"

section \<open>Path queries\<close>

definition queryOptions :: "('db, 'p, 'q) apiEnv \<Rightarrow> request \<Rightarrow> 'db apiState \<Rightarrow> response \<times> 'db apiState" where
  "queryOptions env r st =
     (writeStatus (setHeader ''Allow'' (str ''GET, POST, QUERY, DELETE, OPTIONS'')
        (setHeader ''Accept-Query'' (str ''application/json'') [])) 204, st)"

definition queryError :: "headers \<Rightarrow> err \<Rightarrow> response" where
  "queryError h e =
     (if errors_Is e ErrInvalidQueryCursor then writeError h 400 ''invalid_cursor'' ''Cursor is invalid''
      else if errors_Is e ErrDBNotFound then writeError h 404 ''database_not_found'' ''Database does not exist''
      else if errors_Is e ErrInvalidIndexValue then writeError h 400 ''invalid_query'' ''Query is invalid''
      else if errors_Is e ErrDeadlineExceeded then writeError h 503 ''query_timeout'' ''Query exceeded the execution limit''
      else if errors_Is e ErrQueryLimit then writeError h 503 ''query_limit'' ''Query exceeded the evaluation limit''
      else fail h e)"

definition apiQueryDocs :: "('db, 'p, 'q) apiEnv \<Rightarrow> request \<Rightarrow> 'db apiState \<Rightarrow> response \<times> 'db apiState" where
  "apiQueryDocs env r st =
     (let h = setHeader ''Cache-Control'' (str ''no-store'') (setHeader ''Accept-Query'' (str ''application/json'') []);
          database = pathValue r ''database'' in
      if \<not> isOk (validateName database) then (invalidName h, st)
      else if rawQuery r \<noteq> [] then (writeError h 400 ''invalid_query'' ''URI query parameters are not supported'', st)
      else if \<not> isJSON (contentType r) then (unsupportedJSON h, st)
      else case requestBody h r (min (maxBodyBytes env) maxQueryBody) ''invalid_request'' ''Could not read request body'' of
          Inl resp \<Rightarrow> (resp, st)
        | Inr body \<Rightarrow>
          (case decodePathQuery body of
             Inl _ \<Rightarrow> (writeError h 400 ''invalid_query'' ''Query body is invalid'', st)
           | Inr query \<Rightarrow>
             (case planPathQuery (services env) (pathLib env) (wrappingKey env) database (pqPath query) (pdb (store st)) of
                Inl e \<Rightarrow>
                  (if errors_Is e ErrInvalidPath then writeError h 400 ''invalid_query'' ''Path is invalid'' else queryError h e, st)
              | Inr plan \<Rightarrow>
                (case onStore (executePathQuery (services env) (pathLib env) (wrappingKey env) (reqCtx r) database plan query) st of
                   (Inl e, st') \<Rightarrow> (queryError h e, st')
                 | (Inr (ids, cursor), st') \<Rightarrow> (writeJSON h 200 (docList ids cursor), st')))))"

section \<open>Documents\<close>

text \<open>The checks of the path of a document, in their order.\<close>

definition validDocPath :: "request \<Rightarrow> response option" where
  "validDocPath r =
     (if \<not> isOk (validateName (pathValue r ''database'')) then Some (invalidName [])
      else if \<not> isOk (validateID (pathValue r ''id'')) then Some (writeError [] 400 ''invalid_id'' ''Document ID is invalid'')
      else None)"

text \<open>The document in a request body: read, then validated.\<close>

definition requestDoc :: "('db, 'p, 'q) apiEnv \<Rightarrow> request \<Rightarrow> response + bytes" where
  "requestDoc env r =
     bindE (requestBody [] r (maxBodyBytes env) ''invalid_document'' ''Could not read document'') (\<lambda>body.
     case validateDoc body (maxBodyBytes env) of
       Inl e \<Rightarrow>
         if errors_Is e ErrBodyTooLarge then Inl (writeError [] 413 ''content_too_large'' ''Document exceeds the size limit'')
         else Inl (writeError [] 400 ''invalid_document'' ''Document must be a JSON object'')
     | Inr document \<Rightarrow> Inr document)"

definition apiCreateDoc :: "('db, 'p, 'q) apiEnv \<Rightarrow> request \<Rightarrow> 'db apiState \<Rightarrow> response \<times> 'db apiState" where
  "apiCreateDoc env r st =
     (if \<not> isJSON (contentType r) then (unsupportedJSON [], st)
      else
        let database = pathValue r ''database'' in
        if \<not> isOk (validateName database) then (invalidName [], st)
        else case requestDoc env r of
            Inl resp \<Rightarrow> (resp, st)
          | Inr document \<Rightarrow>
            (case onStore (createDoc (services env) (wrappingKey env) database document) st of
               (Inl e, st') \<Rightarrow>
                 (if errors_Is e ErrDBNotFound then writeError [] 404 ''database_not_found'' ''Database does not exist''
                  else if errors_Is e ErrInvalidIndexValue then writeError [] 400 ''invalid_document'' ''An indexed value exceeds the size limit''
                  else fail [] e, st')
             | (Inr (docID, rv), st') \<Rightarrow>
                 (writeJSON (setHeader ''ETag'' (formatETag rv) (setHeader ''Location'' (str ''/db/'' @ database @ str ''/'' @ docID) [])) 201
                    (jsonFields [(''id'', quoteString docID)]), st')))"

definition docNotFound :: response where
  "docNotFound = writeError [] 404 ''document_not_found'' ''Document does not exist''"

definition sendDoc :: "storedDoc \<Rightarrow> response" where
  "sendDoc doc = writeData (setHeader ''ETag'' (formatETag (docRev doc)) []) 200 (str ''application/json'') (docJson doc)"

definition apiGetDoc :: "('db, 'p, 'q) apiEnv \<Rightarrow> request \<Rightarrow> 'db apiState \<Rightarrow> response \<times> 'db apiState" where
  "apiGetDoc env r st =
     (case validDocPath r of Some resp \<Rightarrow> (resp, st)
      | None \<Rightarrow>
        (case onStore (readM (getDoc (services env) (wrappingKey env) (pathValue r ''database'') (pathValue r ''id''))) st of
           (Inl e, st') \<Rightarrow> (if errors_Is e ErrDocNotFound then docNotFound else fail [] e, st')
         | (Inr doc, st') \<Rightarrow> (sendDoc doc, st')))"

definition preconditionFailed :: response where
  "preconditionFailed = writeError [] 412 ''precondition_failed'' ''If-Match precondition failed''"

definition invalidIfMatch :: response where
  "invalidIfMatch = writeError [] 400 ''invalid_if_match'' ''If-Match is invalid''"

definition apiReplaceDoc :: "('db, 'p, 'q) apiEnv \<Rightarrow> request \<Rightarrow> 'db apiState \<Rightarrow> response \<times> 'db apiState" where
  "apiReplaceDoc env r st =
     (if \<not> isJSON (contentType r) then (unsupportedJSON [], st)
      else case validDocPath r of Some resp \<Rightarrow> (resp, st)
        | None \<Rightarrow>
          (case parseIfMatch (ifMatch r) of
             Inl _ \<Rightarrow> (invalidIfMatch, st)
           | Inr match \<Rightarrow>
             (case requestDoc env r of
                Inl resp \<Rightarrow> (resp, st)
              | Inr document \<Rightarrow>
                (case onStore (replaceDoc (services env) (wrappingKey env) (pathValue r ''database'') (pathValue r ''id'') document match) st of
                   (Inl e, st') \<Rightarrow>
                     (if errors_Is e ErrDocNotFound then docNotFound
                      else if errors_Is e ErrPreconditionFailed then preconditionFailed
                      else if errors_Is e ErrInvalidIndexValue then writeError [] 400 ''invalid_document'' ''An indexed value exceeds the size limit''
                      else fail [] e, st')
                 | (Inr rv, st') \<Rightarrow> (sendDoc \<lparr>docJson = document, docRev = rv\<rparr>, st')))))"

definition apiPatchDoc :: "('db, 'p, 'q) apiEnv \<Rightarrow> request \<Rightarrow> 'db apiState \<Rightarrow> response \<times> 'db apiState" where
  "apiPatchDoc env r st =
     (case parsePatchType (contentType r) of
        Inl _ \<Rightarrow> (writeError [] 415 ''unsupported_media_type'' ''Content-Type must select a supported patch format'', st)
      | Inr mediaType \<Rightarrow>
        (case validDocPath r of Some resp \<Rightarrow> (resp, st)
         | None \<Rightarrow>
           (case parseIfMatch (ifMatch r) of
              Inl _ \<Rightarrow> (invalidIfMatch, st)
            | Inr match \<Rightarrow>
              (case requestBody [] r (maxBodyBytes env) ''invalid_patch'' ''Could not read patch'' of
                 Inl resp \<Rightarrow> (resp, st)
               | Inr body \<Rightarrow>
                 (case onStore (patchDoc (services env) (wrappingKey env) (pathValue r ''database'') (pathValue r ''id'') match
                         (\<lambda>document. applyPatch (patchLib env) document body mediaType (maxBodyBytes env))) st of
                    (Inl e, st') \<Rightarrow>
                      (if errors_Is e ErrDocNotFound then docNotFound
                       else if errors_Is e ErrPreconditionFailed then preconditionFailed
                       else if errors_Is e ErrBodyTooLarge then writeError [] 413 ''content_too_large'' ''Document exceeds the size limit''
                       else if errors_Is e ErrInvalidPatch then writeError [] 400 ''invalid_patch'' ''Patch is invalid or produces a non-object document''
                       else if errors_Is e ErrInvalidIndexValue then writeError [] 400 ''invalid_patch'' ''An indexed value exceeds the size limit''
                       else fail [] e, st')
                  | (Inr doc, st') \<Rightarrow> (sendDoc doc, st'))))))"

definition apiDeleteDoc :: "('db, 'p, 'q) apiEnv \<Rightarrow> request \<Rightarrow> 'db apiState \<Rightarrow> response \<times> 'db apiState" where
  "apiDeleteDoc env r st =
     (case validDocPath r of Some resp \<Rightarrow> (resp, st)
      | None \<Rightarrow>
        (case parseIfMatch (ifMatch r) of
           Inl _ \<Rightarrow> (invalidIfMatch, st)
         | Inr match \<Rightarrow>
           (case onStore (deleteDoc (services env) (wrappingKey env) (pathValue r ''database'') (pathValue r ''id'') match) st of
              (Inl e, st') \<Rightarrow>
                (if errors_Is e ErrDocNotFound then docNotFound
                 else if errors_Is e ErrPreconditionFailed then preconditionFailed
                 else fail [] e, st')
            | (Inr _, st') \<Rightarrow> (writeStatus [] 204, st'))))"

section \<open>Bulk requests\<close>

definition bulkResponse :: "bool \<Rightarrow> bytes \<Rightarrow> nat \<Rightarrow> bytes \<Rightarrow> bytes" where
  "bulkResponse success code line message =
     jsonFields
       [(''success'', str (if success then ''true'' else ''false'')),
        (''error'', jsonFields
           ((if code = [] then [] else [(''code'', quoteString code)]) @
            (if line = 0 then [] else [(''line'', decString line)]) @
            (if message = [] then [] else [(''message'', quoteString message)])))]"

definition writeBulkSuccess :: "headers \<Rightarrow> response" where
  "writeBulkSuccess h = writeJSON h 200 (bulkResponse True [] 0 [])"

definition writeBulkError :: "headers \<Rightarrow> nat \<Rightarrow> string \<Rightarrow> string \<Rightarrow> nat \<Rightarrow> response" where
  "writeBulkError h sts code message line = writeJSON h sts (bulkResponse False (str code) line (str message))"

text \<open>\<open>errors.AsType[*bulkLineError]\<close>: the line of the first such error in the chain.\<close>

fun bulkLine :: "err \<Rightarrow> nat" where
  "bulkLine [] = 0"
| "bulkLine (BulkLine n # e) = n"
| "bulkLine (_ # e) = bulkLine e"

definition failBulk :: "headers \<Rightarrow> err \<Rightarrow> response" where
  "failBulk h e =
     (let line = bulkLine e in
      if errors_Is e ErrDeadlineExceeded \<or> errors_Is e ErrCanceled
      then writeBulkError h 503 ''bulk_timeout'' ''Bulk request exceeded the execution limit'' line
      else if errors_Is e ErrBulkLimit \<or> errors_Is e ErrBodyTooLarge
      then writeBulkError h 413 ''content_too_large'' ''Bulk import exceeds a size or count limit'' line
      else if errors_Is e ErrBulkEmpty then writeBulkError h 400 ''invalid_document'' ''Import must contain a document'' line
      else if errors_Is e ErrInvalidDoc then writeBulkError h 400 ''invalid_document'' ''Document must be a JSON object'' line
      else if errors_Is e ErrInvalidIndexValue then writeBulkError h 400 ''invalid_document'' ''An indexed value exceeds the size limit'' line
      else if errors_Is e ErrBulkRead then writeBulkError h 400 ''invalid_document'' ''Could not read import'' line
      else if errors_Is e ErrDBNotFound then writeBulkError h 404 ''database_not_found'' ''Database does not exist'' line
      else if errors_Is e ErrCorruptData then writeBulkError h 500 ''corrupt_data'' ''Stored data is corrupt'' line
      else if isStoreUnavailable e then writeBulkError h 503 ''service_unavailable'' ''Service is unavailable'' line
      else writeBulkError h 500 ''internal_error'' ''Internal server error'' line)"

text \<open>
  A bulk request holds a slot from \<open>startBulk\<close> until its deferred \<open>done\<close>; an error response
  comes without one.
\<close>

definition startBulk :: "('db, 'p, 'q) apiEnv \<Rightarrow> request \<Rightarrow> 'db apiState \<Rightarrow> response option \<times> 'db apiState" where
  "startBulk env r st =
     (if \<not> isOk (validateName (pathValue r ''database''))
      then (Some (writeBulkError [] 400 ''invalid_name'' ''Database name is invalid'' 0), st)
      else if rawQuery r \<noteq> []
      then (Some (writeBulkError [] 400 ''invalid_query'' ''URI query parameters are not supported'' 0), st)
      else case takeBulkSlot env st of
          (False, st') \<Rightarrow> (Some (writeBulkError [] 429 ''bulk_limit'' ''Too many bulk requests'' 0), st')
        | (True, st') \<Rightarrow>
          (case reqDeadline r of
             DeadlineError e \<Rightarrow> (Some (failBulk [] e), freeBulkSlot st')
           | _ \<Rightarrow> (None, st')))"

definition exportBulk :: "('db, 'p, 'q) apiEnv \<Rightarrow> request \<Rightarrow> 'db apiState \<Rightarrow> response \<times> 'db apiState" where
  "exportBulk env r st =
     (case startBulk env r st of
        (Some resp, st') \<Rightarrow> (resp, st')
      | (None, st') \<Rightarrow>
        let h = setHeader ''Cache-Control'' (str ''no-store'') (setHeader ''Content-Type'' bulkMediaType []);
            stream = newBulkStream \<lparr>status = None, sent = [], room = reqRoom r\<rparr>;
            (res, stream) = exportDocs (services env) (wrappingKey env) (reqCtx r) (pathValue r ''database'')
              (streamWrite (reqCanFlush r)) (pdb (store st')) stream
        in
        (case res of
           Inl e \<Rightarrow>
             if started stream then \<lparr>respStatus = 200, respHeaders = h, respBody = sent (writer stream)\<rparr> else failBulk h e
         | Inr _ \<Rightarrow>
             if \<not> started stream then writeStatus h 200
             else \<lparr>respStatus = 200, respHeaders = h, respBody = sent (writer (snd (streamFlush (reqCanFlush r) stream)))\<rparr>,
         freeBulkSlot st'))"

definition importBulk :: "('db, 'p, 'q) apiEnv \<Rightarrow> request \<Rightarrow> 'db apiState \<Rightarrow> response \<times> 'db apiState" where
  "importBulk env r st =
     (if \<not> isNDJSON (contentType r)
      then (writeBulkError [] 415 ''unsupported_media_type'' ''Content-Type must be application/x-ndjson'' 0, st)
      else case startBulk env r st of
          (Some resp, st') \<Rightarrow> (resp, st')
        | (None, st') \<Rightarrow>
          (case readBulkCtx (reqCtxErr r) (reqExpired r) (reqBody r) (maxBodyBytes env) (bulkMaxBytes (bulkCfg env))
                  (bulkMaxDocuments (bulkCfg env)) of
             Inl e \<Rightarrow> (failBulk [] e, freeBulkSlot st')
           | Inr documents \<Rightarrow>
             (case onStore (importDocs (services env) (wrappingKey env) (reqCtx r) (pathValue r ''database'') documents
                     (bulkMaxBatchBytes (bulkCfg env))) st' of
                (Inl e, st'') \<Rightarrow> (failBulk [] e, freeBulkSlot st'')
              | (Inr _, st'') \<Rightarrow> (writeBulkSuccess [], freeBulkSlot st''))))"

end
