(* ===== verification/Config.thy ===== *)
theory Config
  imports Http_Api
begin

text \<open>
  Configuration (config.go) and the version text (version.go): the command line flags over a
  model of the package \<open>flag\<close> and of \<open>strconv.ParseInt\<close>, and the master key in its file.  The
  parser of durations, \<open>time.ParseDuration\<close>, which computes fractions in floating point, and the
  content of the key file are arguments.
\<close>

section \<open>Integers\<close>

definition lowerByte :: "byte \<Rightarrow> byte" where
  "lowerByte c = (if c \<ge> 0x41 \<and> c \<le> 0x5A then c + 0x20 else c)"

text \<open>The digits of a number in a base; underscores are passed over.\<close>

fun baseDigits :: "nat \<Rightarrow> nat \<Rightarrow> bytes \<Rightarrow> nat option" where
  "baseDigits base n [] = Some n"
| "baseDigits base n (c # s) =
     (if c = 95 then baseDigits base n s
      else
        let l = lowerByte c;
            d = (if 48 \<le> c \<and> c \<le> 57 then Some (unat (c - 48))
                 else if 97 \<le> l \<and> l \<le> 122 then Some (unat (l - 97) + 10) else None)
        in case d of None \<Rightarrow> None | Some k \<Rightarrow> if k \<ge> base then None else baseDigits base (n * base + k) s)"

text \<open>
  \<open>underscoreOK\<close>: an underscore stands between digits, or between the base prefix and a digit.
  The flag tells whether a digit or the prefix came just before.
\<close>

fun underscores :: "bool \<Rightarrow> bool \<Rightarrow> bytes \<Rightarrow> bool" where
  "underscores hex digit [] = True"
| "underscores hex digit (c # s) =
     (if c = 95 then digit \<and> (case s of [] \<Rightarrow> False | d # _ \<Rightarrow> isDigit d \<or> hex \<and> 97 \<le> lowerByte d \<and> lowerByte d \<le> 102) \<and> underscores hex False s
      else underscores hex (isDigit c \<or> hex \<and> 97 \<le> lowerByte c \<and> lowerByte c \<le> 102) s)"

text \<open>The base prefix of a text without sign: the base, whether there is a letter, and the rest.\<close>

definition basePrefix :: "bytes \<Rightarrow> nat \<times> bool \<times> bytes" where
  "basePrefix s =
     (case s of
        z # r \<Rightarrow>
          if z = 48 then
            (if length s \<ge> 3 \<and> lowerByte (hd r) = 98 then (2, True, tl r)
             else if length s \<ge> 3 \<and> lowerByte (hd r) = 111 then (8, True, tl r)
             else if length s \<ge> 3 \<and> lowerByte (hd r) = 120 then (16, True, tl r)
             else (8, False, r))
          else (10, False, s)
      | [] \<Rightarrow> (10, False, s))"

text \<open>\<open>strconv.ParseInt(s, 0, 64)\<close>.\<close>

definition parseInt :: "bytes \<Rightarrow> int option" where
  "parseInt s =
     (let (neg, u) = (case s of c # r \<Rightarrow> if c = 43 then (False, r) else if c = 45 then (True, r) else (False, s) | [] \<Rightarrow> (False, s));
          (base, letter, ds) = basePrefix u
      in
      if u = [] then None
      else case baseDigits base 0 ds of
          None \<Rightarrow> None
        | Some n \<Rightarrow>
          if List.member u 95 \<and> \<not> underscores (base = 16) letter (if letter then ds else u) then None
          else
            let k = (if neg then - int n else int n) in
            if k < - (2 ^ 63) \<or> k > 2 ^ 63 - 1 then None else Some k)"

section \<open>Defaults\<close>

definition defaultMaxBodyBytes :: int where "defaultMaxBodyBytes = 1048576"
definition defaultBulkMaxBytes :: int where "defaultBulkMaxBytes = 67108864"
definition defaultBulkMaxDocs :: int where "defaultBulkMaxDocs = 1000"
definition defaultBulkBatchBytes :: int where "defaultBulkBatchBytes = 134217728"
definition defaultBulkTimeout :: int where "defaultBulkTimeout = 30 * 1000000000"
definition defaultBulkConcurrency :: int where "defaultBulkConcurrency = 1"

definition defaultBulkConfig :: bulkConfig where
  "defaultBulkConfig =
     \<lparr>bulkMaxBytes = defaultBulkMaxBytes, bulkMaxDocuments = defaultBulkMaxDocs, bulkMaxBatchBytes = defaultBulkBatchBytes,
      bulkTimeout = defaultBulkTimeout, bulkConcurrency = defaultBulkConcurrency\<rparr>"

record config =
  cfgAddr :: bytes
  cfgDataPath :: bytes
  cfgKeyFile :: bytes
  cfgMaxBody :: int
  cfgBulk :: bulkConfig

definition defaultConfig :: config where
  "defaultConfig =
     \<lparr>cfgAddr = str '':8080'', cfgDataPath = str ''data'', cfgKeyFile = [], cfgMaxBody = defaultMaxBodyBytes, cfgBulk = defaultBulkConfig\<rparr>"

section \<open>Flags\<close>

text \<open>\<open>flag.Value.Set\<close> of the flag with this name; \<open>None\<close> for an undefined flag or a bad value.\<close>

definition setFlag :: "(bytes \<Rightarrow> int option) \<Rightarrow> bytes \<Rightarrow> bytes \<Rightarrow> config \<Rightarrow> config option" where
  "setFlag parseDuration name v cfg =
     (let bulk = (\<lambda>f. cfg\<lparr>cfgBulk := f (cfgBulk cfg)\<rparr>) in
      if name = str ''addr'' then Some (cfg\<lparr>cfgAddr := v\<rparr>)
      else if name = str ''data'' then Some (cfg\<lparr>cfgDataPath := v\<rparr>)
      else if name = str ''key-file'' then Some (cfg\<lparr>cfgKeyFile := v\<rparr>)
      else if name = str ''max-body-bytes'' then map_option (\<lambda>n. cfg\<lparr>cfgMaxBody := n\<rparr>) (parseInt v)
      else if name = str ''bulk-max-bytes'' then map_option (\<lambda>n. bulk (\<lambda>b. b\<lparr>bulkMaxBytes := n\<rparr>)) (parseInt v)
      else if name = str ''bulk-max-documents'' then map_option (\<lambda>n. bulk (\<lambda>b. b\<lparr>bulkMaxDocuments := n\<rparr>)) (parseInt v)
      else if name = str ''bulk-max-batch-bytes'' then map_option (\<lambda>n. bulk (\<lambda>b. b\<lparr>bulkMaxBatchBytes := n\<rparr>)) (parseInt v)
      else if name = str ''bulk-timeout'' then map_option (\<lambda>n. bulk (\<lambda>b. b\<lparr>bulkTimeout := n\<rparr>)) (parseDuration v)
      else if name = str ''bulk-concurrency'' then map_option (\<lambda>n. bulk (\<lambda>b. b\<lparr>bulkConcurrency := n\<rparr>)) (parseInt v)
      else None)"

text \<open>\<open>flags.Parse\<close>: the configuration and the arguments that are left.\<close>

fun parseFlags :: "(bytes \<Rightarrow> int option) \<Rightarrow> config \<Rightarrow> bytes list \<Rightarrow> (config \<times> bytes list) option" where
  "parseFlags parseDuration cfg [] = Some (cfg, [])"
| "parseFlags parseDuration cfg (s # args) =
     (if length s < 2 \<or> s ! 0 \<noteq> 45 then Some (cfg, s # args)
      else if s = [45, 45] then Some (cfg, args)
      else
        let name = (if s ! 1 = 45 then drop 2 s else drop 1 s) in
        if name = [] \<or> name ! 0 = 45 \<or> name ! 0 = 61 then None
        else if List.member name 61 then
          (case setFlag parseDuration (takeWhile (\<lambda>c. c \<noteq> 61) name) (drop 1 (dropWhile (\<lambda>c. c \<noteq> 61) name)) cfg of
             None \<Rightarrow> None
           | Some cfg' \<Rightarrow> parseFlags parseDuration cfg' args)
        else
          (case args of
             [] \<Rightarrow> None
           | v # args' \<Rightarrow>
             (case setFlag parseDuration name v cfg of
                None \<Rightarrow> None
              | Some cfg' \<Rightarrow> parseFlags parseDuration cfg' args')))"

definition parseConfig :: "(bytes \<Rightarrow> int option) \<Rightarrow> bytes list \<Rightarrow> config result" where
  "parseConfig parseDuration args =
     (case parseFlags parseDuration defaultConfig args of
        None \<Rightarrow> Inl []
      | Some (cfg, rest) \<Rightarrow>
        if cfgAddr cfg = [] then Inl []
        else if cfgDataPath cfg = [] then Inl []
        else if cfgKeyFile cfg = [] then Inl []
        else if cfgMaxBody cfg \<le> 0 \<or> cfgMaxBody cfg > int maxStoredDocBytes then Inl []
        else if bulkMaxBytes (cfgBulk cfg) \<le> 0 \<or> bulkMaxDocuments (cfgBulk cfg) \<le> 0 \<or> bulkMaxBatchBytes (cfgBulk cfg) \<le> 0 \<or>
          bulkTimeout (cfgBulk cfg) \<le> 0 \<or> bulkConcurrency (cfgBulk cfg) \<le> 0 then Inl []
        else if length rest \<noteq> 0 then Inl []
        else Inr cfg)"

section \<open>The master key\<close>

definition stdVal :: "byte \<Rightarrow> nat option" where
  "stdVal c = (if c = 43 then Some 62 else if c = 47 then Some 63 else if c = 45 \<or> c = 95 then None else b64Val c)"

text \<open>\<open>base64.StdEncoding.DecodeString\<close>, after line ends have been left out.\<close>

fun stdDecode :: "bytes \<Rightarrow> bytes option" where
  "stdDecode [] = Some []"
| "stdDecode (a # b # c # d # r) =
     (case (stdVal a, stdVal b) of
        (Some w, Some x) \<Rightarrow>
          if c = 61 then (if d = 61 \<and> r = [] then b64Bytes [w, x] else None)
          else
            (case stdVal c of
               None \<Rightarrow> None
             | Some y \<Rightarrow>
               if d = 61 then (if r = [] then b64Bytes [w, x, y] else None)
               else
                 (case (stdVal d, b64Bytes [w, x, y, the (stdVal d)], stdDecode r) of
                    (Some _, Some q, Some bs) \<Rightarrow> Some (q @ bs)
                  | _ \<Rightarrow> None))
      | _ \<Rightarrow> None)"
| "stdDecode _ = None"

text \<open>\<open>file\<close> is the result of \<open>os.ReadFile\<close>.\<close>

definition loadMasterKey :: "bytes result \<Rightarrow> bytes result" where
  "loadMasterKey file =
     bindE file (\<lambda>encoded.
     case stdDecode (filter (\<lambda>c. c \<noteq> 13 \<and> c \<noteq> 10) (trimSpace encoded)) of
       None \<Rightarrow> Inl []
     | Some key \<Rightarrow> if length key \<noteq> keySize then Inl [] else Inr key)"

section \<open>The version\<close>

definition unknownVersion :: bytes where "unknownVersion = str ''unknown''"

definition selectVersion :: "bytes \<Rightarrow> bytes \<Rightarrow> bytes" where
  "selectVersion release sha = (if release \<noteq> [] then release else if sha \<noteq> [] then sha else unknownVersion)"

end
