(* ===== verification/Http_Routes.thy ===== *)
theory Http_Routes
  imports Http_Api
begin

text \<open>
  Routing (server.go, \<open>handler\<close>, \<open>route\<close>, \<open>redirectNoSlash\<close> and the wrappers) over a model of
  what it uses of \<open>http.ServeMux\<close>: patterns with a method, literal and wildcard segments, the
  end marker and the catch-all; patterns with the method of the request come first (GET
  patterns also serve HEAD), then those without a method, and in each group a literal segment
  wins over a wildcard and a wildcard over the catch-all.
\<close>

section \<open>Patterns\<close>

datatype seg = Lit bytes | Wild bytes | Dollar | Multi

datatype handler =
    HWelcome | HHealth | HCreateDB | HListDBs | HListDocs | HQueryDocs | HQueryOptions | HDeleteDB
  | HCreateDoc | HGetDoc | HReplaceDoc | HPatchDoc | HDeleteDoc | HExportBulk | HImportBulk
  | HMethodNotAllowed | HNotFound | HRedirectNoSlash

text \<open>A registered pattern: its method (empty for any), its segments and its handler.\<close>

type_synonym registration = "bytes \<times> seg list \<times> handler"

definition methodGet :: bytes where "methodGet = str ''GET''"
definition methodHead :: bytes where "methodHead = str ''HEAD''"
definition methodPost :: bytes where "methodPost = str ''POST''"
definition methodPut :: bytes where "methodPut = str ''PUT''"
definition methodPatch :: bytes where "methodPatch = str ''PATCH''"
definition methodDelete :: bytes where "methodDelete = str ''DELETE''"
definition methodOptions :: bytes where "methodOptions = str ''OPTIONS''"

definition route :: "bytes \<Rightarrow> seg list \<Rightarrow> handler \<Rightarrow> registration list" where
  "route method pattern h =
     [(method, pattern, h)] @
     (if method = methodGet then [(methodHead, pattern, HMethodNotAllowed)] else []) @
     (if pattern \<noteq> [Dollar] then [(method, pattern @ [Dollar], HRedirectNoSlash)] else [])"

definition rootPattern :: "seg list" where "rootPattern = [Dollar]"
definition healthPattern :: "seg list" where "healthPattern = [Lit (str ''healthz'')]"
definition dbsPattern :: "seg list" where "dbsPattern = [Lit (str ''db'')]"
definition dbPattern :: "seg list" where "dbPattern = [Lit (str ''db''), Wild (str ''database'')]"
definition docPattern :: "seg list" where "docPattern = [Lit (str ''db''), Wild (str ''database''), Wild (str ''id'')]"
definition bulkPattern :: "seg list" where "bulkPattern = [Lit (str ''bulk''), Wild (str ''database'')]"

definition muxTable :: "registration list" where
  "muxTable =
     route methodGet rootPattern HWelcome @
     route methodGet healthPattern HHealth @
     route methodPost dbsPattern HCreateDB @
     route methodGet dbsPattern HListDBs @
     route methodGet dbPattern HListDocs @
     route queryMethod dbPattern HQueryDocs @
     route methodOptions dbPattern HQueryOptions @
     route methodDelete dbPattern HDeleteDB @
     route methodPost dbPattern HCreateDoc @
     route methodGet docPattern HGetDoc @
     route methodPut docPattern HReplaceDoc @
     route methodPatch docPattern HPatchDoc @
     route methodDelete docPattern HDeleteDoc @
     route methodGet bulkPattern HExportBulk @
     route methodPost bulkPattern HImportBulk @
     map (\<lambda>p. ([], p, HMethodNotAllowed)) [rootPattern, healthPattern, dbsPattern, dbPattern, docPattern, bulkPattern] @
     [([], [Multi], HNotFound)]"

section \<open>Matching\<close>

text \<open>\<open>url.PathUnescape\<close>; a segment that is malformed stays as it is.\<close>

fun percentDecode :: "bytes \<Rightarrow> bytes option" where
  "percentDecode [] = Some []"
| "percentDecode (c # s) =
     (if c = 37 then
        (case s of
           a # b # t \<Rightarrow>
             (case (fromHexChar a, fromHexChar b) of
                (Some x, Some y) \<Rightarrow> map_option (\<lambda>u. (x * 16 + y) # u) (percentDecode t)
              | _ \<Rightarrow> None)
         | _ \<Rightarrow> None)
      else map_option (\<lambda>u. c # u) (percentDecode s))"

definition pathUnescape :: "bytes \<Rightarrow> bytes" where
  "pathUnescape s = (case percentDecode s of None \<Rightarrow> s | Some u \<Rightarrow> u)"

text \<open>The segments of a path that begins with a slash; a slash at its end is a segment of its own.\<close>

definition pathSegs :: "bytes \<Rightarrow> bytes list" where
  "pathSegs path =
     (let parts = splitByte 47 (drop 1 path) in
      map pathUnescape (butlast parts) @ [if last parts = [] then [47] else pathUnescape (last parts)])"

text \<open>The patterns below a literal, a wildcard and the catch-all child of a node of the routing tree.\<close>

fun below :: "(seg \<Rightarrow> bool) \<Rightarrow> (seg list \<times> 'h) list \<Rightarrow> (seg list \<times> 'h) list" where
  "below P [] = []"
| "below P ((p # ps, h) # pats) = (if P p then (ps, h) # below P pats else below P pats)"
| "below P (([], h) # pats) = below P pats"

definition litSeg :: "bytes \<Rightarrow> seg \<Rightarrow> bool" where
  "litSeg s p = (case p of Lit x \<Rightarrow> x = s | Dollar \<Rightarrow> s = [47] | _ \<Rightarrow> False)"

definition wildSeg :: "seg \<Rightarrow> bool" where
  "wildSeg p = (case p of Wild _ \<Rightarrow> True | _ \<Rightarrow> False)"

fun firstLeaf :: "(seg list \<times> 'h) list \<Rightarrow> 'h option" where
  "firstLeaf [] = None"
| "firstLeaf ((p, h) # pats) = (if p = [] then Some h else firstLeaf pats)"

fun matchPath :: "(seg list \<times> 'h) list \<Rightarrow> bytes list \<Rightarrow> ('h \<times> bytes list) option" where
  "matchPath pats [] = map_option (\<lambda>h. (h, [])) (firstLeaf pats)"
| "matchPath pats (s # ss) =
     (if pats = [] then None
      else case matchPath (below (litSeg s) pats) ss of
          Some m \<Rightarrow> Some m
        | None \<Rightarrow>
          (case (if s \<noteq> [47] then matchPath (below wildSeg pats) ss else None) of
             Some (h, ms) \<Rightarrow> Some (h, s # ms)
           | None \<Rightarrow> map_option (\<lambda>h. (h, [])) (firstLeaf (below (\<lambda>p. p = Multi) pats))))"

definition withMethod :: "bytes \<Rightarrow> registration list \<Rightarrow> (seg list \<times> seg list \<times> handler) list" where
  "withMethod method table = map (\<lambda>(_, p, h). (p, p, h)) (filter (\<lambda>(m, _, _). m = method) table)"

definition wildNames :: "seg list \<Rightarrow> bytes list" where
  "wildNames p = map (\<lambda>s. case s of Wild n \<Rightarrow> n | _ \<Rightarrow> []) (filter wildSeg p)"

definition orElse :: "'a option \<Rightarrow> 'a option \<Rightarrow> 'a option" where
  "orElse a b = (case a of None \<Rightarrow> b | Some x \<Rightarrow> Some x)"

definition muxMatch :: "registration list \<Rightarrow> bytes \<Rightarrow> bytes list \<Rightarrow> (handler \<times> (bytes \<times> bytes) list) option" where
  "muxMatch table method segs =
     map_option (\<lambda>((p, h), ms). (h, zip (wildNames p) ms))
       (orElse (if method = [] then None else matchPath (withMethod method table) segs)
          (orElse (if method = methodHead then matchPath (withMethod methodGet table) segs else None)
             (matchPath (withMethod [] table) segs)))"

section \<open>Redirects\<close>

definition hexEscapeNonASCII :: "bytes \<Rightarrow> bytes" where
  "hexEscapeNonASCII s = concat (map (\<lambda>c. if c \<ge> 0x80 then 37 # hexEncode [c] else [c]) s)"

definition htmlEscape :: "bytes \<Rightarrow> bytes" where
  "htmlEscape s =
     concat (map (\<lambda>c. if c = 38 then str ''&amp;'' else if c = 60 then str ''&lt;'' else if c = 62 then str ''&gt;''
       else if c = 34 then str ''&#34;'' else if c = 39 then str ''&#39;'' else [c]) s)"

text \<open>
  \<open>http.Redirect\<close> to a location that begins with a slash and is clean: \<open>path.Clean\<close> does not change
  it.
\<close>

definition httpRedirect :: "request \<Rightarrow> bytes \<Rightarrow> nat \<Rightarrow> response" where
  "httpRedirect r location code =
     (let h = setHeader ''Location'' (hexEscapeNonASCII location) [];
          h = (if reqMethod r = methodGet \<or> reqMethod r = methodHead
               then setHeader ''Content-Type'' (str ''text/html; charset=utf-8'') h else h) in
      \<lparr>respStatus = code, respHeaders = h,
       respBody = (if reqMethod r = methodGet
         then str ''<a href='' @ [34] @ htmlEscape location @ [34] @ str ''>'' @
           str (if code = 301 then ''Moved Permanently'' else ''Temporary Redirect'') @ str ''</a>.'' @ [10, 10]
         else [])\<rparr>)"

definition redirectNoSlash :: "request \<Rightarrow> response" where
  "redirectNoSlash r =
     (let status' = (if reqMethod r = methodGet then 301 else 307);
          location = (if urlPath r \<noteq> [] \<and> last (urlPath r) = 47 then butlast (urlPath r) else urlPath r);
          location = (if rawQuery r \<noteq> [] then location @ [63] @ rawQuery r else location)
      in httpRedirect r location status')"

section \<open>Serving a request\<close>

fun hasPair :: "byte \<Rightarrow> byte \<Rightarrow> bytes \<Rightarrow> bool" where
  "hasPair a b (x # y # s) = (x = a \<and> y = b \<or> hasPair a b (y # s))"
| "hasPair a b s = False"

text \<open>The condition under which \<open>rejectUncleanPath\<close> answers that the route does not exist.\<close>

definition uncleanPath :: "bytes \<Rightarrow> bool" where
  "uncleanPath path = (hasPair 47 47 path \<or> list_ex (\<lambda>part. part = [46] \<or> part = [46, 46]) (splitByte 47 path))"

fun dispatch ::
  "('db, 'p, 'q) apiEnv \<Rightarrow> handler \<Rightarrow> request \<Rightarrow> 'db apiState \<Rightarrow> response \<times> 'db apiState" where
  "dispatch env HWelcome r st = apiWelcome env r st"
| "dispatch env HHealth r st = apiHealth env r st"
| "dispatch env HCreateDB r st = apiCreateDB env r st"
| "dispatch env HListDBs r st = apiListDBs env r st"
| "dispatch env HListDocs r st = apiListDocs env r st"
| "dispatch env HQueryDocs r st = apiQueryDocs env r st"
| "dispatch env HQueryOptions r st = queryOptions env r st"
| "dispatch env HDeleteDB r st = apiDeleteDB env r st"
| "dispatch env HCreateDoc r st = apiCreateDoc env r st"
| "dispatch env HGetDoc r st = apiGetDoc env r st"
| "dispatch env HReplaceDoc r st = apiReplaceDoc env r st"
| "dispatch env HPatchDoc r st = apiPatchDoc env r st"
| "dispatch env HDeleteDoc r st = apiDeleteDoc env r st"
| "dispatch env HExportBulk r st = exportBulk env r st"
| "dispatch env HImportBulk r st = importBulk env r st"
| "dispatch env HMethodNotAllowed r st = (methodNotAllowed, st)"
| "dispatch env HNotFound r st = (notFound, st)"
| "dispatch env HRedirectNoSlash r st = (redirectNoSlash r, st)"

text \<open>
  The mux.  A request target that is not a path (\<open>*\<close>, or the authority of CONNECT) matches no
  pattern; \<open>muxAnswer\<close> is what the mux itself answers then.
\<close>

definition muxServe ::
  "(request \<Rightarrow> response) \<Rightarrow> ('db, 'p, 'q) apiEnv \<Rightarrow> request \<Rightarrow> 'db apiState \<Rightarrow> response \<times> 'db apiState" where
  "muxServe muxAnswer env r st =
     (if escapedPath r = [] \<or> hd (escapedPath r) \<noteq> 47 then (muxAnswer r, st)
      else case muxMatch muxTable (reqMethod r) (pathSegs (escapedPath r)) of
          None \<Rightarrow> (muxAnswer r, st)
        | Some (h, vals) \<Rightarrow> dispatch env h (r\<lparr>pathValues := vals\<rparr>) st)"

text \<open>The wrappers of the mux, and the handler of the server; \<open>recover\<close> only matters for a panic.\<close>

definition rejectUncleanPath ::
  "(request \<Rightarrow> 'db apiState \<Rightarrow> response \<times> 'db apiState) \<Rightarrow> request \<Rightarrow> 'db apiState \<Rightarrow> response \<times> 'db apiState" where
  "rejectUncleanPath wrapped r st = (if uncleanPath (urlPath r) then (notFound, st) else wrapped r st)"

definition rejectStopping ::
  "(request \<Rightarrow> 'db apiState \<Rightarrow> response \<times> 'db apiState) \<Rightarrow> request \<Rightarrow> 'db apiState \<Rightarrow> response \<times> 'db apiState" where
  "rejectStopping wrapped r st =
     (if stopping st then (writeError [] 503 ''service_unavailable'' ''Service is unavailable'', st) else wrapped r st)"

definition serve ::
  "(request \<Rightarrow> response) \<Rightarrow> ('db, 'p, 'q) apiEnv \<Rightarrow> request \<Rightarrow> 'db apiState \<Rightarrow> response \<times> 'db apiState" where
  "serve muxAnswer env = rejectStopping (rejectUncleanPath (muxServe muxAnswer env))"

lemmas serve_defs = serve_def rejectStopping_def rejectUncleanPath_def muxServe_def

section \<open>The routes\<close>

text \<open>What the patterns amount to: the handlers of each resource by method.\<close>

definition resource :: "(bytes \<times> handler) list \<Rightarrow> bytes \<Rightarrow> handler" where
  "resource hs m = (case map_of hs m of Some h \<Rightarrow> h | None \<Rightarrow> HMethodNotAllowed)"

definition slashed :: "(bytes \<times> handler) list \<Rightarrow> bytes \<Rightarrow> handler" where
  "slashed hs m =
     (if map_of hs m \<noteq> None \<or> m = methodHead \<and> map_of hs methodGet \<noteq> None then HRedirectNoSlash else HNotFound)"

end
