(* ===== verification/Startup.thy ===== *)
theory Startup
  imports Config Http_Routes
begin

text \<open>
  A run of the program (main.go): the key file, the store, the HTTP server and the shutdown.
  The requests a server handles are served one after another; what \<open>net/http\<close> reports of the
  server, the signal that ends it, the key file and the opening of Pebble are arguments.
  Logging and the timeouts of connections are left out.
\<close>

section \<open>The HTTP server\<close>

text \<open>
  What happens to the server: the requests handled before the \<open>select\<close> ends, whether that is the end of
  \<open>ListenAndServe\<close> with an error or the signal, the requests that arrive while it shuts down, and
  the results of \<open>Shutdown\<close>, of \<open>Close\<close> and of \<open>ListenAndServe\<close> after the shutdown.
\<close>

datatype serveErr = ServerClosed | ServeFailed err

record serverRun =
  served :: "request list"
  servedEnd :: "serveErr option"
  drained :: "request list"
  shutdownErr :: "err option"
  serverClose :: "err option"
  drainedEnd :: serveErr

fun serveAll ::
  "(request \<Rightarrow> response) \<Rightarrow> ('db, 'p, 'q) apiEnv \<Rightarrow> request list \<Rightarrow> 'db apiState \<Rightarrow> response list \<times> 'db apiState" where
  "serveAll muxAnswer env [] st = ([], st)"
| "serveAll muxAnswer env (r # rs) st =
     (let (resp, st1) = serve muxAnswer env r st; (resps, st2) = serveAll muxAnswer env rs st1 in (resp # resps, st2))"

definition wrapCloseErr :: "err option \<Rightarrow> err" where
  "wrapCloseErr e = (case e of None \<Rightarrow> [] | Some e \<Rightarrow> e)"

text \<open>From the \<open>select\<close> on.\<close>

definition runServer ::
  "(request \<Rightarrow> response) \<Rightarrow> ('db, 'p, 'q) apiEnv \<Rightarrow> serverRun \<Rightarrow> 'db apiState \<Rightarrow> unit result \<times> response list \<times> 'db apiState" where
  "runServer muxAnswer env h st =
     (let (resps, st) = serveAll muxAnswer env (served h) st in
      case servedEnd h of
        Some ServerClosed \<Rightarrow> (Inr (), resps, st)
      | Some (ServeFailed e) \<Rightarrow> (Inl e, resps, st)
      | None \<Rightarrow>
        let (late, st) = serveAll muxAnswer env (drained h) (stop st) in
        (case shutdownErr h of
           Some e \<Rightarrow> Inl (e @ wrapCloseErr (serverClose h))
         | None \<Rightarrow> (case drainedEnd h of ServerClosed \<Rightarrow> Inr () | ServeFailed e \<Rightarrow> Inl e),
         resps @ late, st))"

section \<open>A run\<close>

definition joinErr :: "unit result \<Rightarrow> unit result \<Rightarrow> unit result" where
  "joinErr runErr closing =
     (case closing of Inr _ \<Rightarrow> runErr
      | Inl e \<Rightarrow> (case runErr of Inr _ \<Rightarrow> Inl e | Inl r \<Rightarrow> Inl (r @ e)))"

definition serverEnv ::
  "'db services \<Rightarrow> 'p pathEngine \<Rightarrow> 'q patchEngine \<Rightarrow> bytes \<Rightarrow> config \<Rightarrow> bytes \<Rightarrow> ('db, 'p, 'q) apiEnv" where
  "serverEnv E J P version cfg key =
     \<lparr>services = E, wrappingKey = key, pathLib = J, patchLib = P, maxBodyBytes = cfgMaxBody cfg, bulkCfg = cfgBulk cfg,
      buildVersion = version\<rparr>"

text \<open>The result, the responses sent and the state Pebble is left in, when the store was opened.\<close>

definition run ::
  "'db services \<Rightarrow> 'p pathEngine \<Rightarrow> 'q patchEngine \<Rightarrow> bytes \<Rightarrow> (request \<Rightarrow> response) \<Rightarrow> config \<Rightarrow> (bytes \<Rightarrow> bytes result) \<Rightarrow>
   (bytes \<Rightarrow> 'db result) \<Rightarrow> world \<Rightarrow> serverRun \<Rightarrow> unit result \<times> (response list \<times> 'db) option" where
  "run E J P version muxAnswer cfg readFile pebbleOpen w h =
     (case loadMasterKey (readFile (cfgKeyFile cfg)) of
        Inl e \<Rightarrow> (Inl e, None)
      | Inr masterKey \<Rightarrow>
        (case openStore E (pebbleOpen (cfgDataPath cfg)) masterKey w of
           Inl e \<Rightarrow> (Inl e, None)
         | Inr (key, s) \<Rightarrow>
           (case runServer muxAnswer (serverEnv E J P version cfg key) h (newAPIWithBulk s) of
              (runErr, resps, st) \<Rightarrow>
                (joinErr runErr (closeStore E (pdb (store st))), Some (resps, pdb (store st))))))"

text \<open>The exit status of the program.\<close>

definition main :: "(bytes \<Rightarrow> int option) \<Rightarrow> (config \<Rightarrow> unit result) \<Rightarrow> bytes list \<Rightarrow> nat" where
  "main parseDuration runWith args =
     (case parseConfig parseDuration args of Inl _ \<Rightarrow> 1 | Inr cfg \<Rightarrow> (case runWith cfg of Inl _ \<Rightarrow> 1 | Inr _ \<Rightarrow> 0))"

text \<open>
  Runs one after another with the same configuration and key file, each on the state that the
  one before left.
\<close>

fun runs ::
  "'db services \<Rightarrow> 'p pathEngine \<Rightarrow> 'q patchEngine \<Rightarrow> bytes \<Rightarrow> (request \<Rightarrow> response) \<Rightarrow> config \<Rightarrow> (bytes \<Rightarrow> bytes result) \<Rightarrow>
   (world \<times> serverRun) list \<Rightarrow> 'db \<Rightarrow> (unit result \<times> response list option) list \<times> 'db" where
  "runs E J P version muxAnswer cfg readFile [] db = ([], db)"
| "runs E J P version muxAnswer cfg readFile ((w, h) # hs) db =
     (let (res, out) = run E J P version muxAnswer cfg readFile (\<lambda>_. Inr db) w h;
          (rest, db') = runs E J P version muxAnswer cfg readFile hs (case out of None \<Rightarrow> db | Some (_, db1) \<Rightarrow> db1)
      in ((res, map_option fst out) # rest, db'))"

end
