(* ===== verification/Index_Order.thy ===== *)
theory Index_Order
  imports Index_Value
begin

text \<open>
  The index encodings preserve order and delimit themselves: byte order of the encoded
  values is the order of the values (exact rational order for numbers, byte order for
  strings), and no encoded value is a prefix of another one, so the document ID that
  follows a value in an index key never changes the order of the values.
\<close>

unbundle bit_operations_syntax

section \<open>Order-preserving self-delimiting encodings\<close>

text \<open>
  The contract of such an encoding, for the values that satisfy \<open>ok\<close> under the strict order
  \<open>lt\<close>.
\<close>

locale sortable_code =
  fixes enc :: "'a \<Rightarrow> bytes" and lt :: "'a \<Rightarrow> 'a \<Rightarrow> bool" and ok :: "'a \<Rightarrow> bool"
  assumes lt_total: "ok v \<Longrightarrow> ok w \<Longrightarrow> lt v w \<or> v = w \<or> lt w v"
    and enc_mono: "ok v \<Longrightarrow> ok w \<Longrightarrow> lt v w \<Longrightarrow> enc v < enc w"
    and enc_prefix_free: "ok v \<Longrightarrow> ok w \<Longrightarrow> prefix (enc v) (enc w) \<Longrightarrow> v = w"
begin

lemma enc_inject: "ok v \<Longrightarrow> ok w \<Longrightarrow> enc v = enc w \<longleftrightarrow> v = w"
  using enc_prefix_free by fastforce

lemma enc_less_iff: "ok v \<Longrightarrow> ok w \<Longrightarrow> enc v < enc w \<longleftrightarrow> lt v w"
  using lt_total [of v w] enc_mono by (metis order_less_imp_not_less order_less_irrefl)

lemma entry_mono: "ok v \<Longrightarrow> ok w \<Longrightarrow> lt v w \<Longrightarrow> enc v @ a < enc w @ b"
  using enc_prefix_free [of v w] enc_mono [of v w] by (metis less_append_of_less order_less_irrefl)

text \<open>Entries compare by value first, then by what follows the value.\<close>

lemma entry_less_iff:
  assumes "ok v" "ok w"
  shows "enc v @ a < enc w @ b \<longleftrightarrow> lt v w \<or> v = w \<and> a < b"
  using lt_total [OF assms] entry_mono [of v w a b] entry_mono [of w v b a] assms
    enc_mono [of v v]
  by (metis append_less_append order_less_imp_not_less order_less_irrefl)

end

section \<open>Strings\<close>

lemma encodeSortableString_less:
  "encodeSortableString u @ a < encodeSortableString v @ b \<longleftrightarrow> u < v \<or> u = v \<and> a < b"
proof (induction u arbitrary: v)
  case Nil
  then show ?case by (cases v) (auto simp: word_gt_0)
next
  case (Cons c u)
  then show ?case by (cases v) (auto simp: word_gt_0)
qed

lemma encodeSortableString_prefix_free:
  "prefix (encodeSortableString u) (encodeSortableString v) \<Longrightarrow> u = v"
proof (induction u arbitrary: v)
  case Nil
  then show ?case by (cases v) (auto split: if_splits)
next
  case (Cons c u)
  then show ?case by (cases v) (auto split: if_splits)
qed

interpretation string_code: sortable_code encodeSortableString "(<)" "\<lambda>_. True"
proof
  show "u < v \<or> u = v \<or> v < u" for u v :: bytes by auto
  show "u < v \<Longrightarrow> encodeSortableString u < encodeSortableString v" for u v
    using encodeSortableString_less [of u "[]" v "[]"] by simp
  show "prefix (encodeSortableString u) (encodeSortableString v) \<Longrightarrow> u = v" for u v
    by (rule encodeSortableString_prefix_free)
qed

section \<open>Decimal fractions\<close>

text \<open>The value of the digits \<open>0.d1d2...\<close>\<close>

fun digitFrac :: "nat list \<Rightarrow> rat" where
  "digitFrac [] = 0"
| "digitFrac (d # ds) = (of_nat d + digitFrac ds) / 10"

definition digitList :: "nat list \<Rightarrow> bool" where
  "digitList ds \<longleftrightarrow> list_all (\<lambda>d. d < 10) ds"

definition digitCode :: "nat list \<Rightarrow> bytes" where
  "digitCode ds = map (\<lambda>d. of_nat d + 1) ds @ [0]"

lemma digitList_simps [simp]:
  "digitList []" "digitList (d # ds) \<longleftrightarrow> d < 10 \<and> digitList ds"
  "digitList (a @ b) \<longleftrightarrow> digitList a \<and> digitList b"
  by (simp_all add: digitList_def)

lemma frac_bounds: "digitList ds \<Longrightarrow> 0 \<le> digitFrac ds \<and> digitFrac ds < 1"
proof (induction ds)
  case (Cons d ds)
  then have "of_nat d \<le> (9 :: rat)" by (auto simp: of_nat_le_iff [of d 9, simplified])
  with Cons show ?case by auto
qed simp

lemma frac_append_zero: "digitFrac (ds @ [0]) = digitFrac ds"
  by (induction ds) auto

lemma frac_pos: "digitList ds \<Longrightarrow> ds \<noteq> [] \<Longrightarrow> last ds \<noteq> 0 \<Longrightarrow> 0 < digitFrac ds"
proof (induction ds)
  case (Cons d ds)
  show ?case
  proof (cases "ds = []")
    case True
    with Cons.prems show ?thesis by auto
  next
    case False
    with Cons have "0 < digitFrac ds" by simp
    then show ?thesis by (simp add: add_nonneg_pos)
  qed
qed simp

lemma frac_ge_tenth: "digitList ds \<Longrightarrow> ds \<noteq> [] \<Longrightarrow> hd ds \<noteq> 0 \<Longrightarrow> 1 / 10 \<le> digitFrac ds"
proof (cases ds)
  case (Cons d r)
  assume "digitList ds" "hd ds \<noteq> 0"
  with Cons have "0 \<le> digitFrac r" "1 \<le> d"
    using frac_bounds [of r] by simp_all
  moreover from this(2) have "1 \<le> (of_nat d :: rat)"
    using of_nat_le_iff [of 1 d, where 'a = rat] by simp
  ultimately show ?thesis using Cons by simp
qed simp

lemma digit_byte_less:
  "d < 10 \<Longrightarrow> e < 10 \<Longrightarrow> (of_nat d + 1 :: byte) < of_nat e + 1 \<longleftrightarrow> d < e"
  "d < 10 \<Longrightarrow> e < 10 \<Longrightarrow> (of_nat d + 1 :: byte) = of_nat e + 1 \<longleftrightarrow> d = e"
  "d < 10 \<Longrightarrow> (0 :: byte) < of_nat d + 1" "d < 10 \<Longrightarrow> (of_nat d + 1 :: byte) \<noteq> 0"
proof -
  have s: "(of_nat d + 1 :: byte) = of_nat (Suc d)" for d by simp
  show "d < 10 \<Longrightarrow> e < 10 \<Longrightarrow> (of_nat d + 1 :: byte) < of_nat e + 1 \<longleftrightarrow> d < e"
    unfolding s by (subst of_nat_byte_less) auto
  show "d < 10 \<Longrightarrow> e < 10 \<Longrightarrow> (of_nat d + 1 :: byte) = of_nat e + 1 \<longleftrightarrow> d = e"
    unfolding s by (subst of_nat_byte_eq) auto
  show "d < 10 \<Longrightarrow> (0 :: byte) < of_nat d + 1"
    unfolding s using of_nat_byte_less [of 0 "Suc d"] by simp
  then show "d < 10 \<Longrightarrow> (of_nat d + 1 :: byte) \<noteq> 0" by auto
qed

text \<open>Fractions without a trailing zero compare as their digit codes.\<close>

lemma digitCode_less:
  assumes "digitList ds" "digitList es" "ds = [] \<or> last ds \<noteq> 0" "es = [] \<or> last es \<noteq> 0"
  shows "digitCode ds < digitCode es \<longleftrightarrow> digitFrac ds < digitFrac es"
  using assms
proof (induction ds arbitrary: es)
  case Nil
  then show ?case
    using frac_pos [of es] by (cases es) (auto simp: digitCode_def digit_byte_less)
next
  case (Cons d ds)
  show ?case
  proof (cases es)
    case Nil
    with Cons.prems show ?thesis
      using frac_pos [of "d # ds"] by (auto simp: digitCode_def digit_byte_less(3) order_less_imp_not_less)
  next
    case es: (Cons e es')
    have IH: "digitCode ds < digitCode es' \<longleftrightarrow> digitFrac ds < digitFrac es'"
      using Cons.prems es by (intro Cons.IH) (auto split: if_splits)
    have b: "0 \<le> digitFrac ds" "digitFrac ds < 1" "0 \<le> digitFrac es'" "digitFrac es' < 1"
      using Cons.prems es frac_bounds [of ds] frac_bounds [of es'] by auto
    have "of_nat d + digitFrac ds < of_nat e + digitFrac es' \<longleftrightarrow> d < e \<or> d = e \<and> digitFrac ds < digitFrac es'"
    proof (cases rule: linorder_cases [of d e])
      case less
      then have "of_nat d + 1 \<le> (of_nat e :: rat)" by (metis Suc_leI of_nat_Suc of_nat_le_iff add.commute)
      with b less show ?thesis by simp
    next
      case greater
      then have "of_nat e + 1 \<le> (of_nat d :: rat)" by (metis Suc_leI of_nat_Suc of_nat_le_iff add.commute)
      with b greater show ?thesis by simp
    qed simp
    moreover have "(of_nat d + 1 :: byte) < of_nat e + 1 \<longleftrightarrow> d < e"
        "(of_nat d + 1 :: byte) = of_nat e + 1 \<longleftrightarrow> d = e"
      using Cons.prems es by (simp_all only: digitList_simps digit_byte_less)
    moreover have "digitFrac (d # ds) < digitFrac (e # es') \<longleftrightarrow>
        of_nat d + digitFrac ds < of_nat e + digitFrac es'"
      unfolding digitFrac.simps divide_less_cancel by linarith
    ultimately show ?thesis
      using IH unfolding es digitCode_def list.map append_Cons Cons_less_Cons
      by (simp del: digitFrac.simps)
  qed
qed

lemma digitCode_prefix_free:
  assumes "digitList ds" "digitList es" "prefix (digitCode ds) (digitCode es @ x)"
  shows "ds = es"
  using assms
proof (induction ds arbitrary: es)
  case Nil
  then show ?case by (cases es) (auto simp: digitCode_def dest: digit_byte_less(4) [THEN not_sym])
next
  case (Cons d ds)
  then show ?case by (cases es) (auto simp: digitCode_def digit_byte_less of_nat_byte_eq)
qed

section \<open>Scientific notation\<close>

text \<open>\<open>q\<close> is \<open>0.d1d2... * 10 ^ e\<close> with a first and a last digit that are not 0.\<close>

definition sci :: "rat \<Rightarrow> nat list \<Rightarrow> int \<Rightarrow> bool" where
  "sci q ds e \<longleftrightarrow> q = digitFrac ds * 10 powi e \<and> digitList ds \<and> ds \<noteq> [] \<and> hd ds \<noteq> 0 \<and> last ds \<noteq> 0"

lemma sci_bounds:
  assumes "sci q ds e"
  shows "10 powi (e - 1) \<le> q" "q < 10 powi e" "0 < q"
proof -
  from assms have q: "q = digitFrac ds * 10 powi e" and f: "1 / 10 \<le> digitFrac ds" "digitFrac ds < 1"
    using frac_ge_tenth [of ds] frac_bounds [of ds] by (auto simp: sci_def)
  have p: "(0 :: rat) < 10 powi e" by simp
  have "10 powi (e - 1) = (10 powi e :: rat) / 10" by (simp add: power_int_diff)
  also have "\<dots> \<le> q" unfolding q using mult_right_mono [OF f(1), of "10 powi e"] p by simp
  finally show "10 powi (e - 1) \<le> q" .
  show "q < 10 powi e" unfolding q using mult_strict_right_mono [OF f(2) p] by simp
  show "0 < q" unfolding q using f p by (simp add: zero_less_mult_iff)
qed

lemma sci_less:
  assumes "sci q ds e" "sci r es f"
  shows "q < r \<longleftrightarrow> e < f \<or> e = f \<and> digitCode ds < digitCode es"
proof (cases rule: linorder_cases [of e f])
  case less
  have "q < 10 powi e" using sci_bounds [OF assms(1)] by simp
  also have "\<dots> \<le> 10 powi (f - 1)" using less by (intro power_int_increasing) auto
  also have "\<dots> \<le> r" using sci_bounds [OF assms(2)] by simp
  finally show ?thesis using less by simp
next
  case greater
  have "r < 10 powi f" using sci_bounds [OF assms(2)] by simp
  also have "\<dots> \<le> 10 powi (e - 1)" using greater by (intro power_int_increasing) auto
  also have "\<dots> \<le> q" using sci_bounds [OF assms(1)] by simp
  finally show ?thesis using greater by simp
next
  case equal
  have "digitCode ds < digitCode es \<longleftrightarrow> digitFrac ds < digitFrac es"
    using assms by (intro digitCode_less) (auto simp: sci_def)
  with assms equal show ?thesis by (auto simp: sci_def mult_less_cancel_right_pos)
qed

section \<open>Decimal digits\<close>

lemma decDigits_list: "digitList (decDigits n)"
  by (induction n rule: decDigits.induct) (subst decDigits.simps, auto)

lemma decDigits_ne [simp]: "decDigits n \<noteq> []"
  by (subst decDigits.simps) simp

lemma decDigits_hd: "0 < n \<Longrightarrow> hd (decDigits n) \<noteq> 0"
proof (induction n rule: decDigits.induct)
  case (1 n)
  then show ?case by (subst decDigits.simps) (auto simp: hd_append)
qed

lemma digitFrac_snoc: "digitFrac (ds @ [d]) = digitFrac ds + of_nat d / 10 ^ Suc (length ds)"
  by (induction ds) (auto simp: field_simps)

lemma decDigits_value: "of_nat n = digitFrac (decDigits n) * 10 ^ length (decDigits n)"
proof (induction n rule: decDigits.induct)
  case (1 n)
  show ?case
  proof (cases "n < 10")
    case True
    then show ?thesis by (simp add: decDigits.simps [of n])
  next
    case False
    have "(of_nat n :: rat) = of_nat (n div 10) * 10 + of_nat (n mod 10)"
      by (metis div_mult_mod_eq of_nat_add of_nat_mult of_nat_numeral)
    with 1 False show ?thesis
      by (simp add: decDigits.simps [of n] digitFrac_snoc field_simps)
  qed
qed

lemma length_decDigits: "n < 10 ^ length (decDigits n)"
proof -
  have "of_nat n < (10 :: rat) ^ length (decDigits n)"
    using frac_bounds [OF decDigits_list, of n] mult_strict_right_mono [of "digitFrac (decDigits n)" 1 "10 ^ length (decDigits n)"]
    by (simp add: decDigits_value [of n, symmetric])
  then have "of_nat n < (of_nat (10 ^ length (decDigits n)) :: rat)" by simp
  then show ?thesis by (simp only: of_nat_less_iff)
qed

lemma stripZeros_digits:
  assumes "digitList ds" "\<exists>d \<in> set ds. d \<noteq> 0"
  shows "\<exists>es k. stripZeros (map (\<lambda>d. 48 + of_nat d) ds) sc = (map (\<lambda>d. 48 + of_nat d) es, sc - int k) \<and>
    ds = es @ replicate k 0 \<and> es \<noteq> [] \<and> last es \<noteq> 0"
  using assms
proof (induction ds arbitrary: sc rule: rev_induct)
  case (snoc d ds)
  have d48: "(48 + of_nat d :: byte) = 48 \<longleftrightarrow> d = 0"
    using snoc.prems of_nat_byte_eq [of d 0] by simp
  show ?case
  proof (cases "d = 0")
    case False
    with d48 have "stripZeros (map (\<lambda>d. 48 + of_nat d) (ds @ [d])) sc =
        (map (\<lambda>d. 48 + of_nat d) (ds @ [d]), sc - int 0)"
      by (subst stripZeros.simps) simp
    with False show ?thesis by (intro exI [of _ "ds @ [d]"] exI [of _ 0]) simp
  next
    case True
    with snoc.prems snoc.IH [of "sc - 1"] obtain es k where IH: "stripZeros (map (\<lambda>d. 48 + of_nat d) ds) (sc - 1) =
        (map (\<lambda>d. 48 + of_nat d) es, sc - 1 - int k)" "ds = es @ replicate k 0" "es \<noteq> []" "last es \<noteq> 0"
      by auto
    have "stripZeros (map (\<lambda>d. 48 + of_nat d) (ds @ [d])) sc = stripZeros (map (\<lambda>d. 48 + of_nat d) ds) (sc - 1)"
      using True by (subst stripZeros.simps) (simp add: butlast_append)
    with IH True show ?thesis
      by (intro exI [of _ es] exI [of _ "Suc k"]) (simp add: replicate_append_same)
  qed
qed simp

section \<open>The scale of a decimal number\<close>

lemma stripTwos_spec:
  "0 < d \<Longrightarrow> stripTwos d t = (d', t') \<Longrightarrow> \<exists>k. t' = t + k \<and> d = 2 ^ k * d' \<and> odd d'"
proof (induction d t rule: stripTwos.induct)
  case (1 d t)
  show ?case
  proof (cases "even d")
    case True
    with 1 obtain k where k: "t' = t + 1 + k" "d div 2 = 2 ^ k * d'" "odd d'"
      by (auto simp: stripTwos.simps [of d] elim!: evenE)
    then have "t' = t + Suc k" "d = 2 ^ Suc k * d'" using True by auto
    with k show ?thesis by blast
  next
    case False
    with "1.prems" show ?thesis by (intro exI [of _ 0]) (simp add: stripTwos.simps [of d])
  qed
qed

lemma stripFives_spec:
  "0 < d \<Longrightarrow> stripFives d t = (d', t') \<Longrightarrow> \<exists>k. t' = t + k \<and> d = 5 ^ k * d' \<and> \<not> 5 dvd d'"
proof (induction d t rule: stripFives.induct)
  case (1 d t)
  show ?case
  proof (cases "5 dvd d")
    case True
    with 1 obtain k where k: "t' = t + 1 + k" "d div 5 = 5 ^ k * d'" "\<not> 5 dvd d'"
      by (auto simp: stripFives.simps [of d] mod_eq_0_iff_dvd elim!: dvdE)
    then have "t' = t + Suc k" "d = 5 ^ Suc k * d'" using True by auto
    with k show ?thesis by blast
  next
    case False
    with "1.prems" show ?thesis
      by (intro exI [of _ 0]) (simp add: stripFives.simps [of d] mod_eq_0_iff_dvd)
  qed
qed

text \<open>A decimal number: its denominator divides a power of ten.\<close>

definition decimal :: "rat \<Rightarrow> bool" where
  "decimal q \<longleftrightarrow> (\<exists>k. snd (quotient_of q) dvd 10 ^ k)"

lemma coprime_five:
  assumes "\<not> 5 dvd (n :: nat)"
  shows "coprime n 5"
proof -
  have "n mod 5 \<noteq> 0" using assms by (simp add: mod_eq_0_iff_dvd)
  moreover have "n mod 5 < 5" by simp
  ultimately have "n mod 5 = 1 \<or> n mod 5 = 2 \<or> n mod 5 = 3 \<or> n mod 5 = 4" by linarith
  then have "gcd 5 (n mod 5) = 1" by (auto simp: gcd_non_0_nat)
  then show ?thesis by (simp add: coprime_iff_gcd_eq_1 gcd_red_nat [of n 5])
qed

lemma strip_decimal:
  assumes "0 < d" "d dvd 10 ^ k" "stripTwos d 0 = (d1, t)" "stripFives d1 0 = (d2, f)"
  shows "d = 2 ^ t * 5 ^ f"
proof -
  from stripTwos_spec [OF assms(1,3)] have t: "d = 2 ^ t * d1" "odd d1" by auto
  with assms(1) have "0 < d1" by (cases d1) auto
  from stripFives_spec [OF this assms(4)] have f: "d1 = 5 ^ f * d2" "\<not> 5 dvd d2" by auto
  have "odd d2" using t f by auto
  then have "coprime d2 2" by simp
  moreover have "coprime d2 5"
    using f(2) by (rule coprime_five)
  ultimately have "coprime d2 (2 * 5)" by (simp only: coprime_mult_right_iff)
  then have "coprime d2 (10 ^ k)" by simp
  moreover have "d2 dvd 10 ^ k" using assms(2) t f by (metis dvd_mult_right)
  ultimately have "d2 = 1" by (meson coprime_common_divisor_nat dvd_refl)
  with t f show ?thesis by simp
qed

lemma decimal_abs: "decimal \<bar>q\<bar> \<longleftrightarrow> decimal q"
  by (cases "0 \<le> q") (auto simp: decimal_def rat_uminus_code split_beta abs_if)

text \<open>The digits and the exponent that \<open>encodeSortableNumber\<close> computes.\<close>

definition numberParts :: "rat \<Rightarrow> bytes \<times> int" where
  "numberParts number =
     (let (num, den) = quotient_of \<bar>number\<bar>;
          (d1, twos) = stripTwos (nat den) 0;
          (_, fives) = stripFives d1 0;
          scale = max twos fives;
          coefficient = nat num * 2 ^ (scale - twos) * 5 ^ (scale - fives);
          (digits, scale') = stripZeros (decString coefficient) (int scale)
      in (digits, int (length digits) - scale'))"

lemma encodeSortableNumber_parts:
  "encodeSortableNumber q =
     (if q = 0 then [0x01]
      else let (digits, exponent) = numberParts q;
               encoded = putUint64 (word_of_int exponent XOR signBit) @ map (\<lambda>d. d - 48 + 1) digits @ [0x00]
           in if q > 0 then 0x02 # encoded else 0x00 # map (NOT) encoded)"
  by (simp add: encodeSortableNumber_def numberParts_def Let_def split_beta)

lemma scale_coefficient:
  "of_nat (n * 2 ^ (max t f - t) * 5 ^ (max t f - f)) / 10 ^ max t f = (of_nat n / of_nat (2 ^ t * 5 ^ f) :: rat)"
proof -
  let ?s = "max t f"
  have "(10 :: rat) ^ ?s = 2 ^ (?s - t) * 2 ^ t * (5 ^ (?s - f) * 5 ^ f)"
    by (simp flip: power_add power_mult_distrib)
  then show ?thesis by (simp add: field_simps)
qed

lemma numberParts_sci:
  assumes "q \<noteq> 0" "decimal q"
  shows "\<exists>ds e. numberParts q = (map (\<lambda>d. 48 + of_nat d) ds, e) \<and> sci \<bar>q\<bar> ds e"
proof -
  obtain num den where nd: "quotient_of \<bar>q\<bar> = (num, den)" by fastforce
  obtain d1 t where t: "stripTwos (nat den) 0 = (d1, t)" by fastforce
  obtain d2 f where f: "stripFives d1 0 = (d2, f)" by fastforce
  have den: "0 < den" and q: "\<bar>q\<bar> = of_int num / of_int den"
    using quotient_of_denom_pos [OF nd] quotient_of_div [OF nd] by auto
  with assms(1) have num: "0 < num"
    by (metis abs_ge_zero abs_le_zero_iff divide_le_0_iff of_int_0_le_iff of_int_le_0_iff
        not_le zero_le_divide_iff order_less_imp_le order.asym linorder_neqE_linordered_idom
        of_int_0_less_iff zero_less_divide_iff zero_less_abs_iff)
  obtain k where "den dvd 10 ^ k" using assms(2) nd decimal_abs [of q] by (auto simp: decimal_def)
  then have "nat den dvd 10 ^ k" using den by (simp add: nat_dvd_iff)
  with den t f have dn: "nat den = 2 ^ t * 5 ^ f" by (intro strip_decimal) auto
  let ?s = "max t f"
  let ?c = "nat num * 2 ^ (?s - t) * 5 ^ (?s - f)"
  have c: "0 < ?c" using num by simp
  have abs: "\<bar>q\<bar> = of_nat ?c / 10 ^ ?s"
  proof -
    have "\<bar>q\<bar> = of_nat (nat num) / of_nat (nat den)" using q num den by simp
    then show ?thesis unfolding dn scale_coefficient .
  qed
  have "\<exists>d \<in> set (decDigits ?c). d \<noteq> 0"
    using decDigits_hd [OF c] by (intro bexI [of _ "hd (decDigits ?c)"]) auto
  from stripZeros_digits [OF decDigits_list this, of "int ?s"]
  obtain es k where z: "stripZeros (decString ?c) (int ?s) = (map (\<lambda>d. 48 + of_nat d) es, int ?s - int k)"
    and es: "decDigits ?c = es @ replicate k 0" "es \<noteq> []" "last es \<noteq> 0"
    by (auto simp: decString_def)
  have parts: "numberParts q = (map (\<lambda>d. 48 + of_nat d) es, int (length (decDigits ?c)) - int ?s)"
    using nd t f z es(1) by (simp add: numberParts_def)
  have "digitFrac (decDigits ?c) = digitFrac es"
    unfolding es(1)
    by (induction k) (simp_all add: frac_append_zero flip: replicate_append_same append_assoc)
  then have "\<bar>q\<bar> = digitFrac es * 10 ^ length (decDigits ?c) / 10 ^ ?s"
    using abs decDigits_value [of ?c] by simp
  also have "\<dots> = digitFrac es * 10 powi (int (length (decDigits ?c)) - int ?s)"
    by (simp add: power_int_diff)
  finally have "sci \<bar>q\<bar> es (int (length (decDigits ?c)) - int ?s)"
    using es decDigits_list [of ?c] decDigits_hd [OF c] by (simp add: sci_def hd_append)
  with parts show ?thesis by blast
qed

section \<open>Exponents\<close>

definition exponentCode :: "int \<Rightarrow> bytes" where
  "exponentCode e = putUint64 (word_of_int e XOR signBit)"

lemma xor_signBit: "w XOR signBit = w + 2 ^ 63"
proof -
  have "w XOR signBit = flip_bit 63 w"
    by (simp add: signBit_def flip_bit_eq_xor)
  also have "\<dots> = w + 2 ^ 63"
    by (auto simp: flip_bit_eq_if set_bit_eq unset_bit_eq)
  finally show ?thesis .
qed

lemma uint_exponent:
  assumes "- (2 ^ 63) \<le> e" "e < 2 ^ 63"
  shows "uint (word_of_int e XOR signBit) = e + 2 ^ 63"
proof -
  have "word_of_int e XOR signBit = (word_of_int (e + 2 ^ 63) :: 64 word)"
    unfolding xor_signBit by simp
  moreover have "uint (word_of_int (e + 2 ^ 63) :: 64 word) = e + 2 ^ 63"
    using assms unfolding unsigned_of_int by (subst take_bit_int_eq_self) auto
  ultimately show ?thesis by simp
qed

lemma length_exponentCode [simp]: "length (exponentCode e) = 8"
  by (simp add: exponentCode_def)

lemma exponentCode_less:
  assumes "\<bar>e\<bar> \<le> 4096" "\<bar>f\<bar> \<le> 4096"
  shows "exponentCode e < exponentCode f \<longleftrightarrow> e < f" "exponentCode e = exponentCode f \<longleftrightarrow> e = f"
proof -
  have u: "uint (word_of_int e XOR signBit) = e + 2 ^ 63" "uint (word_of_int f XOR signBit) = f + 2 ^ 63"
    using assms by (intro uint_exponent; simp)+
  show "exponentCode e < exponentCode f \<longleftrightarrow> e < f"
    using u by (simp add: exponentCode_def putUint64_less word_less_def)
  show "exponentCode e = exponentCode f \<longleftrightarrow> e = f"
    unfolding exponentCode_def putUint64_inject using u by (metis add_right_cancel)
qed

section \<open>Complemented bytes\<close>

lemma unat_not: "unat (NOT (x :: byte)) = 255 - unat x"
  by (rule byte_all [where P = "\<lambda>x. unat (NOT x) = 255 - unat x"]) code_simp

lemma not_byte_less: "NOT (x :: byte) < NOT y \<longleftrightarrow> y < x"
  using unsigned_less [of x, where 'a = nat] unsigned_less [of y, where 'a = nat] by (auto simp: word_less_nat_alt unat_not)

lemma prefix_map_not: "prefix (map (NOT) a) (map (NOT) b @ x) \<longleftrightarrow> prefix (a :: bytes) (b @ map (NOT) x)"
proof -
  have "map (NOT) (b @ map (NOT) x) = map (NOT) b @ x" by (simp add: map_idI)
  moreover have "prefix (map (NOT) c) (map (NOT) d) \<longleftrightarrow> prefix c d" for c d :: bytes
    by (induction c d rule: list_induct2') auto
  ultimately show ?thesis by metis
qed

lemma map_not_less:
  "\<not> prefix a b \<Longrightarrow> \<not> prefix b a \<Longrightarrow> map (NOT) (a :: bytes) < map (NOT) b \<longleftrightarrow> b < a"
proof (induction a arbitrary: b)
  case (Cons c a)
  then show ?case by (cases b) (auto simp: not_byte_less)
qed simp

section \<open>Numbers\<close>

definition numberBody :: "nat list \<Rightarrow> int \<Rightarrow> bytes" where
  "numberBody ds e = exponentCode e @ digitCode ds"

definition indexableNumber :: "rat \<Rightarrow> bool" where
  "indexableNumber q \<longleftrightarrow> decimal q \<and> length (ratString q) + 1 \<le> maxIndexValue"

lemma encodeSortableNumber_sci:
  assumes "q \<noteq> 0" "decimal q"
  shows "\<exists>ds e. sci \<bar>q\<bar> ds e \<and> numberParts q = (map (\<lambda>d. 48 + of_nat d) ds, e) \<and>
    encodeSortableNumber q =
      (if q > 0 then 0x02 # numberBody ds e else 0x00 # map (NOT) (numberBody ds e))"
proof -
  obtain ds e where p: "numberParts q = (map (\<lambda>d. 48 + of_nat d) ds, e)" "sci \<bar>q\<bar> ds e"
    using numberParts_sci [OF assms] by auto
  have "map (\<lambda>d. d - 48 + 1) (map (\<lambda>d. 48 + of_nat d) ds) @ [0x00] = digitCode ds"
    by (simp add: digitCode_def)
  with p assms(1) show ?thesis
    by (intro exI [of _ ds] exI [of _ e])
      (simp add: encodeSortableNumber_parts numberBody_def exponentCode_def del: map_map)
qed

lemma length_decString [simp]: "length (decString n) = length (decDigits n)"
  by (simp add: decString_def)

lemma decString_bound: "length (decString n) \<le> k \<Longrightarrow> n < 10 ^ k"
  using length_decDigits [of n] power_increasing [of "length (decDigits n)" k "10 :: nat"]
  by (simp add: order_less_le_trans)

lemma powi_less: "(10 :: rat) powi e < 10 powi f \<Longrightarrow> e < f"
  by (metis not_le power_int_increasing one_le_numeral not_less)

lemma sci_exponent:
  assumes "sci (of_nat a / of_nat b) ds e" "0 < b" "a < 10 ^ n" "b < 10 ^ n"
  shows "\<bar>e\<bar> \<le> int n"
proof -
  let ?q = "of_nat a / of_nat b :: rat"
  have "0 < ?q" using sci_bounds [OF assms(1)] by simp
  then have a: "1 \<le> a" by (cases a) auto
  have lt: "(of_nat a :: rat) < 10 ^ n" "(of_nat b :: rat) < 10 ^ n"
    using assms(3,4) by (metis of_nat_less_iff of_nat_numeral of_nat_power)+
  have ge: "1 \<le> (of_nat a :: rat)" "1 \<le> (of_nat b :: rat)"
    using a assms(2) by (simp_all add: Suc_leI)
  have "10 powi (e - 1) \<le> ?q" using sci_bounds [OF assms(1)] by simp
  also have "\<dots> \<le> of_nat a" using ge by (simp add: divide_le_eq mult_le_cancel_left1)
  also have "\<dots> < 10 powi int n" using lt by simp
  finally have "e - 1 < int n" by (rule powi_less)
  moreover have "10 powi (- int n) < 1 / (of_nat b :: rat)"
    using lt ge by (simp add: power_int_minus field_simps)
  then have "10 powi (- int n) < ?q"
    using ge by (metis divide_right_mono order_less_le_trans of_nat_0_le_iff)
  then have "10 powi (- int n) < (10 :: rat) powi e" using sci_bounds [OF assms(1)] by linarith
  then have "- int n < e" by (rule powi_less)
  ultimately show ?thesis by linarith
qed

lemma nat_numeral_1: "nat 1 = 1"
  by simp

lemma maxIndexValue_pos: "0 < maxIndexValue"
  by (simp add: maxIndexValue_def)

lemma int_maxIndexValue: "int maxIndexValue = 4096"
  by (simp add: maxIndexValue_def)

lemma indexable_exponent:
  assumes "indexableNumber q" "sci \<bar>q\<bar> ds e"
  shows "\<bar>e\<bar> \<le> 4096"
proof -
  obtain a b where ab: "quotient_of q = (a, b)" by fastforce
  have b: "0 < b" and q: "q = of_int a / of_int b"
    using quotient_of_denom_pos [OF ab] quotient_of_div [OF ab] by auto
  have len: "length (ratString q) \<le> maxIndexValue"
    using assms(1) by (simp add: indexableNumber_def)
  then have "length (decString (nat \<bar>a\<bar>)) \<le> maxIndexValue" "b \<noteq> 1 \<Longrightarrow> length (decString (nat b)) \<le> maxIndexValue"
    using ab by (auto simp: ratString_def Let_def split: if_splits)
  then have "nat \<bar>a\<bar> < 10 ^ maxIndexValue" "b \<noteq> 1 \<Longrightarrow> nat b < 10 ^ maxIndexValue"
    by (blast intro: decString_bound)+
  moreover have "1 < (10 :: nat) ^ maxIndexValue" by (rule one_less_power [OF _ maxIndexValue_pos]) simp
  ultimately have "nat \<bar>a\<bar> < 10 ^ maxIndexValue" "nat b < 10 ^ maxIndexValue"
    by (metis nat_numeral_1)+
  moreover have "\<bar>q\<bar> = of_nat (nat \<bar>a\<bar>) / of_nat (nat b)" using b q by simp
  ultimately show ?thesis
    using sci_exponent [of "nat \<bar>a\<bar>" "nat b" ds e maxIndexValue] assms(2) b int_maxIndexValue
    by (simp only: zero_less_nat_eq)
qed

text \<open>The bodies of two positive numbers compare as the numbers do.\<close>

lemma numberBody_prefix_free:
  assumes "sci q ds e" "sci r es f" "\<bar>e\<bar> \<le> 4096" "\<bar>f\<bar> \<le> 4096"
    "prefix (numberBody ds e) (numberBody es f @ x)"
  shows "q = r"
proof -
  from assms(5) obtain z where "exponentCode e @ digitCode ds @ z = exponentCode f @ digitCode es @ x"
    by (auto simp: numberBody_def elim!: prefixE)
  then have "exponentCode e = exponentCode f" and z: "digitCode ds @ z = digitCode es @ x" by auto
  then have "e = f" using exponentCode_less(2) [OF assms(3,4)] by simp
  moreover have "ds = es"
    using digitCode_prefix_free [of ds es x] z assms(1,2) by (metis prefixI sci_def)
  ultimately show ?thesis using assms(1,2) by (simp add: sci_def)
qed

lemma numberBody_less:
  assumes "sci q ds e" "sci r es f" "\<bar>e\<bar> \<le> 4096" "\<bar>f\<bar> \<le> 4096" "q < r"
  shows "numberBody ds e < numberBody es f"
proof (cases "e = f")
  case True
  then show ?thesis using assms sci_less [OF assms(1,2)] by (simp add: numberBody_def)
next
  case False
  with assms sci_less [OF assms(1,2)] have "e < f" by simp
  with exponentCode_less [OF assms(3,4)] have "exponentCode e < exponentCode f" by simp
  moreover from this have "\<not> prefix (exponentCode e) (exponentCode f)"
    by (metis length_exponentCode not_equal_is_parallel order_less_irrefl parallelD1)
  ultimately show ?thesis by (auto simp: numberBody_def intro: less_append_of_less)
qed

text \<open>
  The three shapes of an encoded number: zero, a positive body after \<open>0x02\<close>, a complemented
  body after \<open>0x00\<close>.
\<close>

lemma indexable_cases:
  assumes "indexableNumber q"
  obtains (zero) "q = 0" "encodeSortableNumber q = [0x01]"
  | (pos) ds e where "0 < q" "sci q ds e" "\<bar>e\<bar> \<le> 4096" "encodeSortableNumber q = 0x02 # numberBody ds e"
  | (neg) ds e where "q < 0" "sci (- q) ds e" "\<bar>e\<bar> \<le> 4096"
      "encodeSortableNumber q = 0x00 # map (NOT) (numberBody ds e)"
proof (cases rule: linorder_cases [of q 0])
  case equal
  then show ?thesis using zero by (simp add: encodeSortableNumber_def)
next
  case less
  with encodeSortableNumber_sci [of q] assms indexable_exponent [OF assms] neg show ?thesis
    by (auto simp: indexableNumber_def)
next
  case greater
  with encodeSortableNumber_sci [of q] assms indexable_exponent [OF assms] pos show ?thesis
    by (auto simp: indexableNumber_def)
qed

lemma encodeSortableNumber_prefix_free:
  assumes "indexableNumber q" "indexableNumber r"
    "prefix (encodeSortableNumber q) (encodeSortableNumber r @ x)"
  shows "q = r"
  using assms(1)
proof (cases rule: indexable_cases)
  case zero
  from assms(2) show ?thesis by (cases rule: indexable_cases) (use zero assms(3) in auto)
next
  case (pos ds e)
  show ?thesis using assms(2)
  proof (cases rule: indexable_cases)
    case p: (pos es f)
    with assms(3) pos show ?thesis by (auto intro: numberBody_prefix_free)
  qed (use pos assms(3) in auto)
next
  case (neg ds e)
  show ?thesis using assms(2)
  proof (cases rule: indexable_cases)
    case n: (neg es f)
    with assms(3) neg have "- q = - r"
      by (intro numberBody_prefix_free [of "- q" ds e "- r" es f "map (NOT) x"])
        (auto simp: prefix_map_not)
    then show ?thesis by simp
  qed (use neg assms(3) in auto)
qed

lemma encodeSortableNumber_less:
  assumes "indexableNumber q" "indexableNumber r" "q < r"
  shows "encodeSortableNumber q < encodeSortableNumber r"
  using assms(1)
proof (cases rule: indexable_cases)
  case zero
  from assms(2) show ?thesis by (cases rule: indexable_cases) (use zero assms(3) in auto)
next
  case (pos ds e)
  show ?thesis using assms(2)
  proof (cases rule: indexable_cases)
    case p: (pos es f)
    with assms(3) pos show ?thesis by (auto intro: numberBody_less)
  qed (use pos assms(3) in auto)
next
  case (neg ds e)
  show ?thesis using assms(2)
  proof (cases rule: indexable_cases)
    case n: (neg es f)
    have lt: "- r < - q" using assms(3) by simp
    have "numberBody es f < numberBody ds e"
      using numberBody_less [OF n(2) neg(2) n(3) neg(3) lt] .
    moreover have "\<not> prefix (numberBody ds e) (numberBody es f)" "\<not> prefix (numberBody es f) (numberBody ds e)"
      using numberBody_prefix_free [OF neg(2) n(2) neg(3) n(3), of "[]"]
        numberBody_prefix_free [OF n(2) neg(2) n(3) neg(3), of "[]"] lt by auto
    ultimately show ?thesis using neg n map_not_less by simp
  qed (use neg assms(3) in auto)
qed

interpretation number_code: sortable_code encodeSortableNumber "(<)" indexableNumber
proof
  show "q < r \<or> q = r \<or> r < q" for q r :: rat by auto
  show "indexableNumber q \<Longrightarrow> indexableNumber r \<Longrightarrow> q < r \<Longrightarrow>
      encodeSortableNumber q < encodeSortableNumber r" for q r
    by (rule encodeSortableNumber_less)
  show "indexableNumber q \<Longrightarrow> indexableNumber r \<Longrightarrow>
      prefix (encodeSortableNumber q) (encodeSortableNumber r) \<Longrightarrow> q = r" for q r
    using encodeSortableNumber_prefix_free [of q r "[]"] by simp
qed

text \<open>Every number that \<open>SetString\<close> reads is a decimal number.\<close>

lemma decimal_scaled:
  assumes "q * 10 ^ k = of_int a"
  shows "decimal q"
proof -
  obtain n d where nd: "quotient_of q = (n, d)" by fastforce
  have d: "0 < d" "q = of_int n / of_int d" "coprime n d"
    using quotient_of_denom_pos [OF nd] quotient_of_div [OF nd] quotient_of_coprime [OF nd] by auto
  with assms have "of_int (n * 10 ^ k) = (of_int (a * d) :: rat)" by (simp add: field_simps)
  then have "n * 10 ^ k = a * d" by (simp only: of_int_eq_iff)
  then have "d dvd n * 10 ^ k" by simp
  with d have "d dvd 10 ^ k" by (simp add: coprime_dvd_mult_right_iff coprime_commute)
  with nd show ?thesis by (auto simp: decimal_def)
qed

lemma decimal_intros:
  "decimal 0" "decimal (of_nat m * 10 ^ k)" "decimal (of_nat m / 10 ^ k)" "decimal q \<Longrightarrow> decimal (- q)"
proof -
  show "decimal 0" by (rule decimal_scaled [of _ 0 0]) simp
  show "decimal (of_nat m * 10 ^ k)" by (rule decimal_scaled [of _ 0 "int m * 10 ^ k"]) simp
  show "decimal (of_nat m / 10 ^ k)" by (rule decimal_scaled [of _ k "int m"]) simp
  show "decimal q \<Longrightarrow> decimal (- q)" using decimal_abs [of q] decimal_abs [of "- q"] by simp
qed

lemma ratSetString_decimal:
  assumes "ratSetString s = Some q"
  shows "decimal q"
proof -
  have "decimal (ratScaled neg mant e)" for neg mant e
    by (simp add: ratScaled_def Let_def decimal_intros)
  with assms show ?thesis
    by (auto simp: ratSetString_def Let_def decimal_intros split: option.splits prod.splits if_splits)
qed

section \<open>Scalars\<close>

text \<open>
  The order of the values that can be indexed: null, false, true, the numbers by their exact
  value, the strings by their bytes.
\<close>

fun scalarRank :: "json \<Rightarrow> nat" where
  "scalarRank JNull = 0"
| "scalarRank (JBool b) = (if b then 2 else 1)"
| "scalarRank (JNum n) = 3"
| "scalarRank (JStr s) = 4"
| "scalarRank _ = 5"

fun scalarLess :: "json \<Rightarrow> json \<Rightarrow> bool" where
  "scalarLess (JNum a) (JNum b) \<longleftrightarrow> the (ratSetString a) < the (ratSetString b)"
| "scalarLess (JStr a) (JStr b) \<longleftrightarrow> a < b"
| "scalarLess v w \<longleftrightarrow> scalarRank v < scalarRank w"

fun scalarEq :: "json \<Rightarrow> json \<Rightarrow> bool" where
  "scalarEq (JNum a) (JNum b) \<longleftrightarrow> ratSetString a = ratSetString b"
| "scalarEq (JStr a) (JStr b) \<longleftrightarrow> a = b"
| "scalarEq v w \<longleftrightarrow> scalarRank v = scalarRank w"

lemma encodeIndexValue_cases:
  assumes "encodeIndexValue v = Inr a"
  obtains "v = JNull" "a = [0x00]"
  | "v = JBool False" "a = [0x01]"
  | "v = JBool True" "a = [0x02]"
  | literal q where "v = JNum literal" "ratSetString literal = Some q" "indexableNumber q"
      "a = 0x03 # encodeSortableNumber q"
  | s where "v = JStr s" "utf8Valid s" "length s < maxIndexValue" "a = 0x04 # encodeSortableString s"
proof (cases v)
  case (JNum literal)
  with assms that(4) show ?thesis
    by (auto simp: encodeIndexValue_def result_simps indexableNumber_def ratSetString_decimal
        split: if_splits option.splits)
qed (use assms that(1,2,3,5) in \<open>auto simp: encodeIndexValue_def result_simps split: if_splits\<close>)

lemma encodeIndexValue_valid: "encodeIndexValue v = Inr a \<Longrightarrow> validIndexValue a"
  by (auto simp: encodeIndexValue_def result_simps split: if_splits)

text \<open>
  C32: byte order of encoded index values is the order of the values.  For any two JSON values
  that \<open>encodeIndexValue\<close> accepts, their encodings followed by any document IDs compare by
  value first (null, booleans, numbers by exact rational value, strings by bytes) and by
  document ID when the values are equal; in particular the encodings agree exactly when the
  values are equal.
\<close>

theorem encodeIndexValue_order:
  assumes "encodeIndexValue v = Inr a" "encodeIndexValue w = Inr b"
  shows "(a @ x < b @ y \<longleftrightarrow> scalarLess v w \<or> scalarEq v w \<and> x < y) \<and> (a = b \<longleftrightarrow> scalarEq v w)"
  using assms(1)
proof (cases rule: encodeIndexValue_cases)
  case (4 l q)
  from assms(2) show ?thesis
    by (cases rule: encodeIndexValue_cases)
      (use 4 in \<open>simp_all add: number_code.entry_less_iff number_code.enc_inject\<close>)
next
  case (5 s)
  from assms(2) show ?thesis
    by (cases rule: encodeIndexValue_cases)
      (use 5 in \<open>simp_all add: string_code.entry_less_iff string_code.enc_inject\<close>)
qed (use assms(2) in \<open>cases rule: encodeIndexValue_cases; simp\<close>)+

theorem encodeIndexValue_order_witness:
  "encodeIndexValue (JNum (str ''-1.5'')) = Inr [3, 0, 127, 255, 255, 255, 255, 255, 255, 254, 253, 249, 255] \<and>
   encodeIndexValue (JNum (str ''2e1'')) = Inr [3, 2, 128, 0, 0, 0, 0, 0, 0, 2, 3, 0] \<and>
   [3, 0, 127, 255, 255, 255, 255, 255, 255, 254, 253, 249, 255] @ [9] <
     [3, 2, 128, 0, 0, 0, 0, 0, 0, 2, 3, 0] @ ([1] :: bytes)"
proof -
  have 1: "encodeIndexValue (JNum (str ''-1.5'')) = Inr [3, 0, 127, 255, 255, 255, 255, 255, 255, 254, 253, 249, 255]"
    by code_simp
  have 2: "encodeIndexValue (JNum (str ''2e1'')) = Inr [3, 2, 128, 0, 0, 0, 0, 0, 0, 2, 3, 0]"
    by code_simp
  have 3: "scalarLess (JNum (str ''-1.5'')) (JNum (str ''2e1''))" by code_simp
  show ?thesis using 1 2 3 encodeIndexValue_order [OF 1 2, of "[9]" "[1]"] by blast
qed

end
