(* ===== verification/Index_Laws.thy ===== *)
theory Index_Laws
  imports Index_Defs Index_Order
begin

text \<open>
  Laws of index definitions and index entries: what a valid list of definitions is, which
  values a document has under its definitions, what the batches that maintain the entries do
  to the stored map (in any order of the writes), and that the stored definitions of a
  database are read back.
\<close>

section \<open>Valid definitions\<close>

definition validDef :: "indexDef \<Rightarrow> bool" where
  "validDef def \<longleftrightarrow> validName (idxName def) \<and> validatePointer (idxPath def) = Inr ()"

definition validDefs :: "indexDef list \<Rightarrow> bool" where
  "validDefs defs \<longleftrightarrow> length defs \<le> maxIndexes \<and> (\<forall>def \<in> set defs. validDef def) \<and> distinct (map idxName defs)"

lemma validateIndexes_loop_iff:
  "validateIndexes_loop seen defs = Inr () \<longleftrightarrow>
    (\<forall>def \<in> set defs. validDef def \<and> idxName def \<notin> set seen) \<and> distinct (map idxName defs)"
proof (induction defs arbitrary: seen)
  case (Cons a defs)
  show ?case unfolding validateIndexes_loop.simps isOk_iff using Cons [of "idxName a # seen"]
    by (auto simp: validDef_def image_iff) (metis image_eqI)?
qed simp

lemma validateIndexes_iff: "validateIndexes defs = Inr () \<longleftrightarrow> validDefs defs"
  by (auto simp: validateIndexes_def validDefs_def validateIndexes_loop_iff)

lemma validateIndexes_cases: "validateIndexes defs = (if validDefs defs then Inr () else Inl [ErrInvalidIndex])"
proof -
  have "validateIndexes_loop seen defs = Inr () \<or> validateIndexes_loop seen defs = Inl [ErrInvalidIndex]" for seen
    by (induction defs arbitrary: seen) auto
  then have "validateIndexes defs = Inr () \<or> validateIndexes defs = Inl [ErrInvalidIndex]"
    by (auto simp: validateIndexes_def)
  then show ?thesis using validateIndexes_iff [of defs] by auto
qed

lemma validPointer_ne: "validatePointer p = Inr () \<Longrightarrow> p \<noteq> []"
  by (auto simp: validatePointer_def)

lemma decode_encodeIndexDef:
  assumes "validDef def"
  shows "decodeIndexDef (idxName def) (encodeIndexDef def) = Inr def"
proof -
  have "validateIndexes [\<lparr>idxName = idxName def, idxPath = idxPath def\<rparr>] = Inr ()"
    unfolding validateIndexes_iff using assms by (simp add: validDefs_def validDef_def maxIndexes_def)
  moreover have "idxPath def \<noteq> []" using assms validPointer_ne by (auto simp: validDef_def)
  ultimately show ?thesis
    by (simp add: decodeIndexDef_def encodeIndexDef_def Let_def Suc_le_eq not_less)
qed

lemma findIndex_iff:
  "validDefs defs \<Longrightarrow> findIndex defs name = Some def \<longleftrightarrow> def \<in> set defs \<and> idxName def = name"
  unfolding findIndex_def find_Some_iff validDefs_def
  by (auto simp: in_set_conv_nth distinct_conv_nth)

lemma findIndex_None_iff: "findIndex defs name = None \<longleftrightarrow> name \<notin> idxName ` set defs"
  by (auto simp: findIndex_def find_None_iff)

section \<open>The values of a document\<close>

lemma indexValues_loop_names:
  "indexValues_loop r defs = Inr vs \<Longrightarrow> fst ` set vs \<subseteq> idxName ` set defs"
proof (induction defs arbitrary: vs)
  case (Cons d defs)
  show ?case
  proof (cases "indexValues_loop r (d # defs) = indexValues_loop r defs")
    case True
    with Cons.prems Cons.IH [of vs] show ?thesis by auto
  next
    case False
    with Cons.prems obtain b ws where "indexValues_loop r defs = Inr ws" "vs = (idxName d, b) # ws"
      by (auto simp: result_simps split: option.splits sum.splits if_splits)
    with Cons.IH show ?thesis by auto
  qed
qed simp

lemma indexValues_loop_spec:
  assumes "indexValues_loop r defs = Inr vs"
  shows "set vs = {(idxName def, b) | def b j. def \<in> set defs \<and> pointerValue r (idxPath def) = Some j \<and>
      encodeIndexValue j = Inr b}"
    and "distinct (map idxName defs) \<Longrightarrow> distinct (map fst vs)"
proof -
  show s: "set vs = {(idxName def, b) | def b j. def \<in> set defs \<and> pointerValue r (idxPath def) = Some j \<and>
      encodeIndexValue j = Inr b}" using assms
  proof (induction defs arbitrary: vs)
    case (Cons d defs)
    show ?case
    proof (cases "pointerValue r (idxPath d)")
      case None
      with Cons show ?thesis by auto
    next
      case (Some j)
      show ?thesis
      proof (cases "encodeIndexValue j")
        case (Inl e)
        with Cons Some show ?thesis by (auto split: if_splits)
      next
        case (Inr b)
        with Cons.prems Some obtain ws where "indexValues_loop r defs = Inr ws" "vs = (idxName d, b) # ws"
          by (auto simp: result_simps)
        with Cons.IH [of ws] Some Inr show ?thesis by auto
      qed
    qed
  qed simp
  show "distinct (map fst vs)" if "distinct (map idxName defs)" using assms that
  proof (induction defs arbitrary: vs)
    case (Cons d defs)
    show ?case
    proof (cases "indexValues_loop r (d # defs) = indexValues_loop r defs")
      case True
      with Cons show ?thesis by simp
    next
      case False
      with Cons.prems obtain b ws where w: "indexValues_loop r defs = Inr ws" "vs = (idxName d, b) # ws"
        by (auto simp: result_simps split: option.splits sum.splits if_splits)
      moreover have "fst ` set ws \<subseteq> idxName ` set defs"
        using indexValues_loop_names [OF w(1)] .
      ultimately show ?thesis using Cons by auto
    qed
  qed simp
qed

lemma indexValues_distinct:
  "indexValues doc defs = Inr vs \<Longrightarrow> distinct (map idxName defs) \<Longrightarrow> distinct (map fst vs)"
  by (auto simp: indexValues_def result_simps dest: indexValues_loop_spec(2))

lemma indexValues_mem:
  assumes "indexValues doc defs = Inr vs" "(x, v) \<in> set vs"
  shows "x \<in> idxName ` set defs" "validIndexValue v"
  using assms by (auto simp: indexValues_def result_simps indexValues_loop_spec(1) encodeIndexValue_valid)

lemma validIndexValue_ne: "validIndexValue v \<Longrightarrow> v \<noteq> []"
  by (auto simp: validIndexValue_def)

lemma indexValues_valid:
  assumes "indexValues doc defs = Inr vs" "validDefs defs" "(x, v) \<in> set vs"
  shows "validName x" "validIndexValue v"
  using indexValues_mem [OF assms(1,3)] assms(2) by (auto simp: validDefs_def validDef_def)

section \<open>Entries in the stored map\<close>

text \<open>The keys of the entries that the values \<open>vs\<close> give the document \<open>i\<close>.\<close>

definition entryKeys :: "bytes \<Rightarrow> bytes \<Rightarrow> (bytes \<times> bytes) list \<Rightarrow> bytes set" where
  "entryKeys n i vs = (\<lambda>(x, v). indexKey n x v i) ` set vs"

lemma applyBatch_sets:
  "applyBatch (map (\<lambda>x. BSet (f x) []) xs) m k = (if k \<in> f ` set xs then Some [] else m k)"
  by (induction xs arbitrary: m) auto

lemma applyBatch_deletes:
  "applyBatch (map (\<lambda>x. BDelete (f x)) xs) m k = (if k \<in> f ` set xs then None else m k)"
  by (induction xs arbitrary: m) auto

lemma apply_setIndexEntries:
  "applyBatch (setIndexEntries n i vs) m k = (if k \<in> entryKeys n i vs then Some [] else m k)"
  unfolding setIndexEntries_def entryKeys_def split_beta' by (rule applyBatch_sets)

lemma apply_deleteIndexEntries:
  "applyBatch (deleteIndexEntries n i vs) m k = (if k \<in> entryKeys n i vs then None else m k)"
  unfolding deleteIndexEntries_def entryKeys_def split_beta' by (rule applyBatch_deletes)

lemma indexKey_inject:
  assumes "goLen n" "goLen m" "goLen x" "goLen y" "length i = length j"
  shows "indexKey n x v i = indexKey m y w j \<longleftrightarrow> n = m \<and> x = y \<and> v = w \<and> i = j"
  using indexValuePrefix_split(1) [OF assms(1-4)] assms(5) by (auto simp: indexKey_value)

lemma lookupValue_iff:
  "distinct (map fst vs) \<Longrightarrow> v \<noteq> [] \<Longrightarrow> v = lookupValue vs x \<longleftrightarrow> (x, v) \<in> set vs"
  unfolding lookupValue_def by (cases "map_of vs x") (auto dest: map_of_SomeD eq_key_imp_eq_value)

text \<open>
  Changing the entries of a document: the old entries go, the new ones are there, and an entry
  that both have stays in place.
\<close>

lemma apply_changeIndexEntries:
  assumes d: "distinct (map fst old)" "distinct (map fst new)"
    and ne: "\<And>x v. (x, v) \<in> set old \<union> set new \<Longrightarrow> v \<noteq> [] \<and> goLen x"
    and n: "goLen n" and m: "\<And>k. k \<in> entryKeys n i old \<Longrightarrow> m k = Some []"
  shows "applyBatch (changeIndexEntries n i old new) m k =
    (if k \<in> entryKeys n i new then Some [] else if k \<in> entryKeys n i old then None else m k)"
proof -
  let ?del = "filter (\<lambda>(x, v). v \<noteq> lookupValue new x) old"
  let ?add = "filter (\<lambda>(x, v). v \<noteq> lookupValue old x) new"
  have del: "set ?del = set old - set new"
    using lookupValue_iff [OF d(2)] ne by fastforce
  have add: "set ?add = set new - set old"
    using lookupValue_iff [OF d(1)] ne by fastforce
  have e: "k \<in> entryKeys n i xs \<longleftrightarrow> (\<exists>x v. (x, v) \<in> set xs \<and> k = indexKey n x v i)" for xs
    by (auto simp: entryKeys_def)
  have inj: "indexKey n x v i = indexKey n y w i \<longleftrightarrow> x = y \<and> v = w"
    if "(x, v) \<in> set old \<union> set new" "(y, w) \<in> set old \<union> set new" for x v y w
    using that ne n by (simp add: indexKey_inject)
  have "applyBatch (changeIndexEntries n i old new) m k =
      (if k \<in> entryKeys n i ?add then Some [] else if k \<in> entryKeys n i ?del then None else m k)"
    unfolding changeIndexEntries_def entryKeys_def split_beta' applyBatch_simps applyBatch_sets applyBatch_deletes
    by simp
  moreover have "k \<in> entryKeys n i ?add \<longleftrightarrow> k \<in> entryKeys n i new \<and> k \<notin> entryKeys n i old"
    unfolding e add using inj by blast
  moreover have "k \<in> entryKeys n i ?del \<longleftrightarrow> k \<in> entryKeys n i old \<and> k \<notin> entryKeys n i new"
    unfolding e del using inj by blast
  ultimately show ?thesis using m [of k] by auto
qed

end
