(* ===== verification/Store_Spec.thy ===== *)
theory Store_Spec
  imports Store Index_Laws
begin

text \<open>
  The contract of the store: an abstract state of named databases, each with its key, its
  index definitions and its documents; what every operation promises on it; and the relation
  between the abstract state and the key-value map in Pebble (records that open to the
  documents, index definitions, and exactly one entry per indexed value of a document).
\<close>

section \<open>Abstract state\<close>

record adb =
  aKey :: bytes
  aDefs :: "indexDef list"
  aDocs :: "bytes \<rightharpoonup> storedDoc"

type_synonym astate = "bytes \<rightharpoonup> adb"

text \<open>The index entries a document has: names and encoded values.\<close>

definition docEntries :: "indexDef list \<Rightarrow> bytes \<Rightarrow> (bytes \<times> bytes) set" where
  "docEntries defs json = (case indexValues json defs of Inl _ \<Rightarrow> {} | Inr vs \<Rightarrow> set vs)"

definition wfDB :: "adb \<Rightarrow> bool" where
  "wfDB a \<longleftrightarrow> length (aKey a) = 32 \<and> validDefs (aDefs a) \<and> sorted (map idxName (aDefs a)) \<and>
     finite (dom (aDocs a)) \<and>
     (\<forall>i d. aDocs a i = Some d \<longrightarrow>
        validID i \<and> length (docRev d) = 16 \<and> isOk (indexValues (docJson d) (aDefs a)))"

definition wfState :: "astate \<Rightarrow> bool" where
  "wfState A \<longleftrightarrow> (\<forall>n a. A n = Some a \<longrightarrow> validName n \<and> wfDB a)"

section \<open>What the operations promise\<close>

definition spec_createDB :: "bytes \<Rightarrow> indexDef list \<Rightarrow> astate \<Rightarrow> unit result \<Rightarrow> astate \<Rightarrow> bool" where
  "spec_createDB n defs A r A' \<longleftrightarrow>
     (if \<not> validDefs defs then r = Inl [ErrInvalidIndex] \<and> A' = A
      else if A n \<noteq> None then r = Inl [ErrDBExists] \<and> A' = A
      else r = Inr () \<and>
        (\<exists>k. A' = A(n \<mapsto> \<lparr>aKey = k, aDefs = sort_key idxName defs, aDocs = Map.empty\<rparr>)))"

definition spec_deleteDB :: "bytes \<Rightarrow> astate \<Rightarrow> unit result \<Rightarrow> astate \<Rightarrow> bool" where
  "spec_deleteDB n A r A' \<longleftrightarrow>
     (if A n = None then r = Inl [ErrDBNotFound] \<and> A' = A else r = Inr () \<and> A' = A(n := None))"

definition putDoc :: "astate \<Rightarrow> bytes \<Rightarrow> adb \<Rightarrow> bytes \<Rightarrow> storedDoc option \<Rightarrow> astate" where
  "putDoc A n a i d = A(n \<mapsto> a\<lparr>aDocs := (aDocs a)(i := d)\<rparr>)"

definition spec_createDocWithID ::
  "bytes \<Rightarrow> bytes \<Rightarrow> bytes \<Rightarrow> astate \<Rightarrow> revision result \<Rightarrow> astate \<Rightarrow> bool" where
  "spec_createDocWithID n i json A r A' \<longleftrightarrow>
     (case A n of None \<Rightarrow> r = Inl [ErrDBNotFound] \<and> A' = A
      | Some a \<Rightarrow>
        if aDocs a i \<noteq> None then r = Inl [ErrDocExists] \<and> A' = A
        else case indexValues json (aDefs a) of Inl e \<Rightarrow> r = Inl e \<and> A' = A
          | Inr _ \<Rightarrow>
            if length json > maxStoredDocBytes then r = Inl [] \<and> A' = A
            else \<exists>rv. length rv = 16 \<and> r = Inr rv \<and> A' = putDoc A n a i (Some \<lparr>docJson = json, docRev = rv\<rparr>))"

text \<open>A document and the database it is in.\<close>

definition docAt :: "astate \<Rightarrow> bytes \<Rightarrow> bytes \<Rightarrow> (adb \<times> storedDoc) option" where
  "docAt A n i = (case A n of None \<Rightarrow> None
     | Some a \<Rightarrow> (case aDocs a i of None \<Rightarrow> None | Some d \<Rightarrow> Some (a, d)))"

definition spec_getDoc :: "bytes \<Rightarrow> bytes \<Rightarrow> astate \<Rightarrow> storedDoc result" where
  "spec_getDoc n i A = (case docAt A n i of None \<Rightarrow> Inl [ErrDocNotFound] | Some (a, d) \<Rightarrow> Inr d)"

text \<open>Writing a new version of a document; the new revision differs from the old one.\<close>

definition spec_write ::
  "bytes \<Rightarrow> bytes \<Rightarrow> adb \<Rightarrow> storedDoc \<Rightarrow> bytes \<Rightarrow> astate \<Rightarrow> storedDoc result \<Rightarrow> astate \<Rightarrow> bool" where
  "spec_write n i a d json A r A' \<longleftrightarrow>
     (case indexValues json (aDefs a) of Inl e \<Rightarrow> r = Inl e \<and> A' = A
      | Inr _ \<Rightarrow>
        if length json > maxStoredDocBytes then r = Inl [] \<and> A' = A
        else \<exists>rv. length rv = 16 \<and> rv \<noteq> docRev d \<and> r = Inr \<lparr>docJson = json, docRev = rv\<rparr> \<and>
          A' = putDoc A n a i (Some \<lparr>docJson = json, docRev = rv\<rparr>))"

definition spec_patchDoc ::
  "bytes \<Rightarrow> bytes \<Rightarrow> matchCond \<Rightarrow> (bytes \<Rightarrow> bytes result) \<Rightarrow> astate \<Rightarrow> storedDoc result \<Rightarrow> astate \<Rightarrow> bool" where
  "spec_patchDoc n i match apply A r A' \<longleftrightarrow>
     (case docAt A n i of None \<Rightarrow> r = Inl [ErrDocNotFound] \<and> A' = A
      | Some (a, d) \<Rightarrow>
        if \<not> matchRevision match (docRev d) then r = Inl [ErrPreconditionFailed] \<and> A' = A
        else case apply (docJson d) of Inl e \<Rightarrow> r = Inl e \<and> A' = A
          | Inr json \<Rightarrow> spec_write n i a d json A r A')"

definition spec_replaceDoc ::
  "bytes \<Rightarrow> bytes \<Rightarrow> bytes \<Rightarrow> matchCond \<Rightarrow> astate \<Rightarrow> revision result \<Rightarrow> astate \<Rightarrow> bool" where
  "spec_replaceDoc n i json match A r A' \<longleftrightarrow>
     (\<exists>r'. r = map_sum (\<lambda>e. e) docRev r' \<and> spec_patchDoc n i match (\<lambda>_. Inr json) A r' A')"

definition spec_deleteDoc :: "bytes \<Rightarrow> bytes \<Rightarrow> matchCond \<Rightarrow> astate \<Rightarrow> unit result \<Rightarrow> astate \<Rightarrow> bool" where
  "spec_deleteDoc n i match A r A' \<longleftrightarrow>
     (case docAt A n i of None \<Rightarrow> r = Inl [ErrDocNotFound] \<and> A' = A
      | Some (a, d) \<Rightarrow>
        if \<not> matchRevision match (docRev d) then r = Inl [ErrPreconditionFailed] \<and> A' = A
        else r = Inr () \<and> A' = putDoc A n a i None)"

section \<open>Representation\<close>

text \<open>What the stored map holds for one database.\<close>

definition repDB :: "'db services \<Rightarrow> (bytes \<rightharpoonup> bytes) \<Rightarrow> bytes \<Rightarrow> adb \<Rightarrow> bool" where
  "repDB E m n a \<longleftrightarrow>
     (\<forall>i. validID i \<longrightarrow>
        (case aDocs a i of None \<Rightarrow> m (docKey n i) = None
         | Some d \<Rightarrow> \<exists>v. m (docKey n i) = Some v \<and> openDoc E (docKey n i) (aKey a) i v = Inr d)) \<and>
     (\<forall>x. validName x \<longrightarrow> m (indexDefKey n x) = map_option encodeIndexDef (findIndex (aDefs a) x)) \<and>
     (\<forall>x v i. validName x \<longrightarrow> validID i \<longrightarrow>
        m (indexKey n x v i) =
          (if \<exists>d. aDocs a i = Some d \<and> (x, v) \<in> docEntries (aDefs a) (docJson d) then Some [] else None))"

text \<open>The keys that belong to the database \<open>n\<close>, apart from its own record.\<close>

definition ownKey :: "bytes \<Rightarrow> bytes \<Rightarrow> bool" where
  "ownKey n k \<longleftrightarrow> (\<exists>i. validID i \<and> k = docKey n i) \<or> (\<exists>x. validName x \<and> k = indexDefKey n x) \<or>
     (\<exists>x v i. validName x \<and> validID i \<and> k = indexKey n x v i)"

definition rep :: "'db services \<Rightarrow> bytes \<Rightarrow> (bytes \<rightharpoonup> bytes) \<Rightarrow> astate \<Rightarrow> bool" where
  "rep E wk m A \<longleftrightarrow> wfState A \<and>
     (\<forall>k. m k \<noteq> None \<longrightarrow> k = storeMetaKey \<or> (\<exists>n. validName n \<and> A n \<noteq> None \<and> (k = dbKey n \<or> ownKey n k))) \<and>
     (\<forall>n a. A n = Some a \<longrightarrow>
        (\<exists>v. m (dbKey n) = Some v \<and> unwrapDBKey E wk (dbKey n) v = Inr (aKey a)) \<and> repDB E m n a)"

section \<open>Keys of different databases\<close>

lemma name_keys [simp]:
  assumes "validName n" "validName m"
  shows "prefix (indexDefPrefix n) (indexDefKey m x) \<longleftrightarrow> n = m"
    "prefix (indexDataPrefix n) (indexKey m x v i) \<longleftrightarrow> n = m"
    "validName x \<Longrightarrow> validName y \<Longrightarrow> indexDefKey n x = indexDefKey m y \<longleftrightarrow> n = m \<and> x = y"
    "validName x \<Longrightarrow> validName y \<Longrightarrow> validID i \<Longrightarrow> validID j \<Longrightarrow>
      indexKey n x v i = indexKey m y w j \<longleftrightarrow> n = m \<and> x = y \<and> v = w \<and> i = j"
  using prefix_indexDefPrefix [OF validName_goLen validName_goLen, OF assms]
    prefix_indexDataPrefix [OF validName_goLen validName_goLen, OF assms]
    indexDefKey_inject [OF validName_goLen validName_goLen validName_goLen validName_goLen, OF assms]
    indexKey_inject [OF validName_goLen validName_goLen validName_goLen validName_goLen, OF assms]
  by (simp_all add: validID_length)

lemma ownKey_neq:
  assumes "validName n" "validName m" "ownKey n k"
  shows "k \<noteq> dbKey m" "k \<noteq> storeMetaKey" "n \<noteq> m \<Longrightarrow> \<not> ownKey m k"
  using assms unfolding ownKey_def by auto

lemma ownKey_intros [intro, simp]:
  "validID i \<Longrightarrow> ownKey n (docKey n i)" "validName x \<Longrightarrow> ownKey n (indexDefKey n x)"
  "validName x \<Longrightarrow> validID i \<Longrightarrow> ownKey n (indexKey n x v i)"
  by (auto simp: ownKey_def)

lemma ownKey_prefix:
  assumes "validName n" "ownKey n k"
  shows "prefix (docsPrefix n) k \<or> prefix (indexDataPrefix n) k \<or> prefix (indexDefPrefix n) k"
  using assms unfolding ownKey_def by auto

lemma other_prefix:
  assumes "validName n" "validName m" "n \<noteq> m" "k = dbKey m \<or> ownKey m k \<or> k = storeMetaKey"
  shows "\<not> prefix (docsPrefix n) k" "\<not> prefix (indexDataPrefix n) k" "\<not> prefix (indexDefPrefix n) k"
  using assms unfolding ownKey_def by auto

text \<open>A database is represented by its own keys only.\<close>

lemma repDB_cong:
  assumes "\<And>k. ownKey n k \<Longrightarrow> m' k = m k"
  shows "repDB E m' n a \<longleftrightarrow> repDB E m n a"
proof -
  have "m' (docKey n i) = m (docKey n i)" if "validID i" for i using assms that by simp
  moreover have "m' (indexDefKey n x) = m (indexDefKey n x)" if "validName x" for x using assms that by simp
  moreover have "m' (indexKey n x v i) = m (indexKey n x v i)" if "validName x" "validID i" for x v i
    using assms that by simp
  ultimately show ?thesis by (simp add: repDB_def cong: imp_cong option.case_cong)
qed

text \<open>Changing one database: the other ones keep their keys.\<close>

lemma rep_update:
  assumes r: "rep E wk m A" and n: "validName n" and wf: "wfDB a"
    and own: "\<And>k. k \<noteq> dbKey n \<Longrightarrow> \<not> ownKey n k \<Longrightarrow> m' k = m k"
    and rec: "m' (dbKey n) = Some v" "unwrapDBKey E wk (dbKey n) v = Inr (aKey a)"
    and db: "repDB E m' n a"
  shows "rep E wk m' (A(n \<mapsto> a))"
  unfolding rep_def
proof (intro conjI allI impI)
  show "wfState (A(n \<mapsto> a))" using r n wf by (auto simp: rep_def wfState_def)
next
  fix k
  assume "m' k \<noteq> None"
  show "k = storeMetaKey \<or> (\<exists>n'. validName n' \<and> (A(n \<mapsto> a)) n' \<noteq> None \<and> (k = dbKey n' \<or> ownKey n' k))"
  proof (cases "k = dbKey n \<or> ownKey n k")
    case True
    then show ?thesis using n by auto
  next
    case False
    with own \<open>m' k \<noteq> None\<close> have "m k \<noteq> None" by auto
    with r show ?thesis unfolding rep_def by (metis fun_upd_apply option.discI)
  qed
next
  fix n' a'
  assume a': "(A(n \<mapsto> a)) n' = Some a'"
  show "\<exists>v. m' (dbKey n') = Some v \<and> unwrapDBKey E wk (dbKey n') v = Inr (aKey a')"
  proof (cases "n' = n")
    case True
    then show ?thesis using rec a' by simp
  next
    case False
    with a' have "A n' = Some a'" by simp
    with r obtain v where "m (dbKey n') = Some v" "unwrapDBKey E wk (dbKey n') v = Inr (aKey a')"
      unfolding rep_def by blast
    moreover have "m' (dbKey n') = m (dbKey n')"
      using own [of "dbKey n'"] ownKey_neq(1) [OF n, of n'] r \<open>A n' = Some a'\<close> False
      by (auto simp: rep_def wfState_def)
    ultimately show ?thesis by simp
  qed
  show "repDB E m' n' a'"
  proof (cases "n' = n")
    case True
    then show ?thesis using db a' by simp
  next
    case False
    with a' have A': "A n' = Some a'" by simp
    with r have v': "validName n'" and d': "repDB E m n' a'" by (auto simp: rep_def wfState_def)
    have "m' k = m k" if "ownKey n' k" for k
      using own [of k] ownKey_neq(1) [OF v' n that] ownKey_neq(3) [OF v' n that] False by auto
    with d' show ?thesis using repDB_cong [of n' m' m E a'] by blast
  qed
qed

end
