(* ===== verification/Store_Reads.thy ===== *)
theory Store_Reads
  imports Store_Spec
begin

text \<open>
  What the reading operations return on a represented state: the value the abstract state
  gives, unless Pebble reports a fault.
\<close>

section \<open>Stored entries under a prefix\<close>

lemma boundedKeys_prefix: "boundedKeys m (Some p) (prefixEnd p) = {k \<in> dom m. prefix p k}"
  using prefixEnd_loop_spec [of "length p" p]
  by (auto simp: boundedKeys_def prefixEnd_def split: option.splits)

lemma finite_boundedKeys [simp]: "finite (dom m) \<Longrightarrow> finite (boundedKeys m lo hi)"
  by (simp add: boundedKeys_def)

lemma sortedEntries_props:
  assumes "finite (dom m)"
  shows "set (sortedEntries m lo hi) = {(k, v). m k = Some v \<and> k \<in> boundedKeys m lo hi}"
    "sorted (map fst (sortedEntries m lo hi))" "distinct (map fst (sortedEntries m lo hi))"
    "map fst (sortedEntries m lo hi) = sorted_list_of_set (boundedKeys m lo hi)"
proof -
  have f: "finite (boundedKeys m lo hi)" using assms by simp
  show "set (sortedEntries m lo hi) = {(k, v). m k = Some v \<and> k \<in> boundedKeys m lo hi}"
    using f by (auto simp: sortedEntries_def boundedKeys_def)
  show m: "map fst (sortedEntries m lo hi) = sorted_list_of_set (boundedKeys m lo hi)"
    by (simp add: sortedEntries_def comp_def)
  show "sorted (map fst (sortedEntries m lo hi))" "distinct (map fst (sortedEntries m lo hi))"
    unfolding m using f by simp_all
qed

lemma prefixEnd_some: "p \<noteq> [] \<Longrightarrow> hd p \<noteq> 0xff \<Longrightarrow> prefixEnd p \<noteq> None"
proof -
  have "\<exists>j < i. e ! j \<noteq> 0xff \<Longrightarrow> prefixEnd_loop e i \<noteq> None" for e i
    by (induction i) (auto simp: less_Suc_eq)
  moreover assume "p \<noteq> []" "hd p \<noteq> 0xff"
  then have "\<exists>j < length p. p ! j \<noteq> 0xff" by (auto simp: hd_conv_nth)
  ultimately show ?thesis by (simp add: prefixEnd_def)
qed

lemma delete_prefix:
  assumes "p \<noteq> []" "hd p \<noteq> 0xff"
  shows "applyOp (BDeleteRange p (prefixEnd p)) m k = (if prefix p k then None else m k)"
proof -
  obtain u where u: "prefixEnd p = Some u" using prefixEnd_some [OF assms] by auto
  then have "prefix p k \<longleftrightarrow> p \<le> k \<and> k < u"
    using prefixEnd_loop_spec [of "length p" p k] by (simp add: prefixEnd_def)
  with u show ?thesis by simp
qed

section \<open>Reading a represented state\<close>

locale store_api = pebble_api E kv F + record_api E
  for E :: "'db services" and kv F +
  fixes wk :: bytes
  assumes wk_length: "length wk = 32"
begin

lemma get_cases:
  obtains "dbGet E db k = Inr (kv db k)" | p where "F p" "dbGet E db k = Inl p"
  using dbGet_kv [of db k] by blast

lemma no_dbKey:
  assumes "rep E wk m A" "validName n" "A n = None"
  shows "m (dbKey n) = None"
proof (rule ccontr)
  assume "m (dbKey n) \<noteq> None"
  with assms(1) obtain n' where "validName n'" "A n' \<noteq> None" "dbKey n = dbKey n' \<or> ownKey n' (dbKey n)"
    unfolding rep_def by fastforce
  with assms(2,3) ownKey_neq(1) [of n' n "dbKey n"] show False by auto
qed

lemma hasDB_rep:
  assumes "rep E wk (kv db) A" "validName n"
  shows "okOrFault F (hasDB E wk n db) (Inr (A n \<noteq> None))"
proof (cases rule: get_cases [of db "dbKey n"])
  case 1
  show ?thesis
  proof (cases "A n")
    case None
    with 1 no_dbKey [OF assms] show ?thesis by (simp add: hasDB_def)
  next
    case (Some a)
    with assms(1) obtain v where "kv db (dbKey n) = Some v" "unwrapDBKey E wk (dbKey n) v = Inr (aKey a)"
      unfolding rep_def by blast
    with 1 Some getClose_fault [of db "dbKey n"] show ?thesis
      by (auto simp: hasDB_def authDBRecord_def intro: okOrFault_joinClose)
  qed
qed (auto simp: hasDB_def intro: okOrFault_fault)

lemma databaseKey_rep:
  assumes "rep E wk (kv db) A" "validName n"
  shows "okOrFault F (databaseKey E wk n db)
    (case A n of None \<Rightarrow> Inl [ErrDBNotFound] | Some a \<Rightarrow> Inr (aKey a))"
proof (cases rule: get_cases [of db "dbKey n"])
  case 1
  show ?thesis
  proof (cases "A n")
    case None
    with 1 no_dbKey [OF assms] show ?thesis by (simp add: databaseKey_def)
  next
    case (Some a)
    with assms(1) obtain v where "kv db (dbKey n) = Some v" "unwrapDBKey E wk (dbKey n) v = Inr (aKey a)"
      unfolding rep_def by blast
    with 1 Some getClose_fault [of db "dbKey n"] show ?thesis
      by (auto simp: databaseKey_def intro: okOrFault_joinClose)
  qed
qed (auto simp: databaseKey_def intro: okOrFault_fault)

lemma documentDBKey_rep:
  assumes "rep E wk (kv db) A" "validName n"
  shows "okOrFault F (documentDBKey E wk n db)
    (case A n of None \<Rightarrow> Inl [ErrDocNotFound] | Some a \<Rightarrow> Inr (aKey a))"
  using databaseKey_rep [OF assms] fault_sentinels
  by (fastforce simp: documentDBKey_def okOrFault_def split: option.splits sum.splits)

lemma has_rep: "okOrFault F (has E k db) (Inr (kv db k \<noteq> None))"
  by (cases rule: get_cases [of db k])
    (auto simp: has_def intro: okOrFault_fault getClose_fault split: option.splits)

lemma readDoc_rep:
  assumes "rep E wk (kv db) A" "A n = Some a" "validID i"
  shows "okOrFault F (readDoc E n i (aKey a) db)
    (case aDocs a i of None \<Rightarrow> Inl [ErrDocNotFound] | Some d \<Rightarrow> Inr d)"
proof (cases rule: get_cases [of db "docKey n i"])
  case 1
  from assms have r: "repDB E (kv db) n a" unfolding rep_def by blast
  show ?thesis
  proof (cases "aDocs a i")
    case None
    with r assms(3) have "kv db (docKey n i) = None" by (auto simp: repDB_def)
    with 1 None show ?thesis by (simp add: readDoc_def)
  next
    case (Some d)
    with r assms(3) obtain v where "kv db (docKey n i) = Some v" "openDoc E (docKey n i) (aKey a) i v = Inr d"
      by (fastforce simp: repDB_def)
    with 1 Some getClose_fault [of db "docKey n i"] show ?thesis
      by (auto simp: readDoc_def intro: okOrFault_joinClose)
  qed
qed (auto simp: readDoc_def Let_def intro: okOrFault_fault)

lemma getDoc_rep:
  assumes "rep E wk (kv db) A" "validName n" "validID i"
  shows "okOrFault F (getDoc E wk n i db) (spec_getDoc n i A)"
proof -
  have "okOrFault F (getDoc E wk n i db)
      (bindE (case A n of None \<Rightarrow> Inl [ErrDocNotFound] | Some a \<Rightarrow> Inr (aKey a))
        (\<lambda>k. case aDocs (the (A n)) i of None \<Rightarrow> Inl [ErrDocNotFound] | Some d \<Rightarrow> Inr d))"
    unfolding getDoc_def
    by (rule okOrFault_bindE [OF documentDBKey_rep [OF assms(1,2)]])
      (use readDoc_rep [OF assms(1) _ assms(3), of n] in \<open>auto split: option.splits\<close>)
  then show ?thesis by (auto simp: spec_getDoc_def docAt_def split: option.splits)
qed

text \<open>The stored definitions: read one by one, they are the definitions of the database.\<close>

lemma indexes_loop_defs:
  assumes "\<forall>d \<in> set ds. validDef d" "validName n"
  shows "indexes_loop (indexDefPrefix n) (map (\<lambda>d. (indexDefKey n (idxName d), encodeIndexDef d)) ds) = Inr ds"
  using assms(1)
proof (induction ds)
  case (Cons d ds)
  then have "readPart (drop (length (indexDefPrefix n)) (indexDefKey n (idxName d))) = Some (idxName d, [])"
    using validName_goLen [of "idxName d"]
    by (simp add: indexDefKey_def appendPart_append [of "indexDefPrefix n"] validDef_def)
  with Cons show ?case by (simp add: decode_encodeIndexDef)
qed simp

lemma defs_of_entries:
  assumes "repDB E m n a" "wfDB a" "validName n" "rep E wk m A" "A n = Some a"
    "\<forall>(k, v) \<in> set es. m k = Some v \<and> prefix (indexDefPrefix n) k"
  shows "\<exists>ds. es = map (\<lambda>d. (indexDefKey n (idxName d), encodeIndexDef d)) ds \<and> set ds \<subseteq> set (aDefs a)"
  using assms(6)
proof (induction es)
  case (Cons e es)
  obtain k v where e: "e = (k, v)" by fastforce
  with Cons.prems have kv: "m k = Some v" "prefix (indexDefPrefix n) k" by auto
  then obtain n' where n': "validName n'" "k = dbKey n' \<or> ownKey n' k \<or> k = storeMetaKey"
    using assms(4) unfolding rep_def by (metis option.discI assms(3))
  with kv(2) other_prefix(3) [OF assms(3), of n' k] have "n' = n" by blast
  with n' kv(2) obtain x where x: "validName x" "k = indexDefKey n x"
    by (auto simp: ownKey_def)
  with assms(1) kv(1) obtain d where d: "findIndex (aDefs a) x = Some d" "v = encodeIndexDef d"
    by (auto simp: repDB_def)
  with assms(2) have "d \<in> set (aDefs a)" "idxName d = x" by (auto simp: findIndex_iff wfDB_def)
  moreover from Cons obtain ds where "es = map (\<lambda>d. (indexDefKey n (idxName d), encodeIndexDef d)) ds" "set ds \<subseteq> set (aDefs a)"
    by auto
  ultimately show ?case using e x d by (intro exI [of _ "d # ds"]) auto
qed simp

lemma sort_defs:
  assumes "validDefs defs" "sorted (map idxName defs)" "set ds = set defs" "distinct (map idxName ds)"
  shows "sort_key idxName ds = defs"
proof (rule map_sorted_distinct_set_unique [where f = idxName])
  show "inj_on idxName (set (sort_key idxName ds) \<union> set defs)"
    using assms by (simp add: distinct_map)
  show "distinct (map idxName (sort_key idxName ds))" using assms(4) by (simp add: distinct_map)
  show "distinct (map idxName defs)" using assms(1) by (simp add: validDefs_def)
qed (use assms in auto)

lemma indexes_complete:
  assumes "rep E wk m A" "A n = Some a" "finite (dom m)"
    "sortedEntries m (Some (indexDefPrefix n)) (prefixEnd (indexDefPrefix n)) =
       map (\<lambda>d. (indexDefKey n (idxName d), encodeIndexDef d)) ds" "set ds \<subseteq> set (aDefs a)"
  shows "validateIndexes ds = Inr () \<and> sort_key idxName ds = aDefs a"
proof -
  from assms(1,2) have n: "validName n" and wf: "wfDB a" and r: "repDB E m n a"
    unfolding rep_def wfState_def by blast+
  then have vd: "validDefs (aDefs a)" "sorted (map idxName (aDefs a))" by (auto simp: wfDB_def)
  have names: "validName (idxName d)" if "d \<in> set (aDefs a)" for d
    using vd that by (auto simp: validDefs_def validDef_def)
  let ?es = "map (\<lambda>d. (indexDefKey n (idxName d), encodeIndexDef d)) ds"
  have "distinct (map fst ?es)" using sortedEntries_props(3) [OF assms(3)] assms(4) by metis
  then have dist: "distinct (map idxName ds)"
    by (auto simp: distinct_map comp_def inj_on_def)
  have "d \<in> set ds" if "d \<in> set (aDefs a)" for d
  proof -
    have "m (indexDefKey n (idxName d)) = Some (encodeIndexDef d)"
      using r names [OF that] findIndex_iff [OF vd(1), of "idxName d" d] that by (auto simp: repDB_def)
    moreover have "prefix (indexDefPrefix n) (indexDefKey n (idxName d))" using n names [OF that] by simp
    ultimately have "(indexDefKey n (idxName d), encodeIndexDef d) \<in> set ?es"
      unfolding assms(4) [symmetric] sortedEntries_props(1) [OF assms(3)] by (auto simp: boundedKeys_prefix)
    then obtain d' where d': "d' \<in> set ds" "indexDefKey n (idxName d) = indexDefKey n (idxName d')" by auto
    with assms(5) names [OF that] names [of d'] n have "idxName d' = idxName d" by auto
    with vd(1) d'(1) assms(5) that have "d' = d" by (auto simp: validDefs_def distinct_map inj_on_def)
    with d' show ?thesis by simp
  qed
  with assms(5) have s: "set ds = set (aDefs a)" by blast
  have "length ds = length (aDefs a)"
    using s dist vd(1) by (metis distinct_card distinct_map validDefs_def)
  with vd(1) s dist have "validDefs ds" by (simp add: validDefs_def)
  with sort_defs [OF vd s dist] show ?thesis by (simp add: validateIndexes_iff)
qed

lemma indexes_rep:
  assumes "rep E wk (kv db) A" "A n = Some a"
  shows "okOrFault F (indexes E n db) (Inr (aDefs a))"
proof -
  from assms have n: "validName n" and wf: "wfDB a" and r: "repDB E (kv db) n a"
    unfolding rep_def wfState_def by blast+
  let ?p = "indexDefPrefix n"
  show ?thesis
    using dbNewIter_kv [of db "Some ?p" "prefixEnd ?p"]
  proof (elim disjE exE conjE)
    fix it rest
    assume it: "dbNewIter E db (Some ?p) (prefixEnd ?p) = Inr it"
      "entries it @ rest = sortedEntries (kv db) (Some ?p) (prefixEnd ?p)"
      and close: "\<forall>p. iterClose it = Some p \<longrightarrow> F p"
    have sub: "set (entries it) \<subseteq> set (sortedEntries (kv db) (Some ?p) (prefixEnd ?p))"
      unfolding it(2) [symmetric] by simp
    have "\<forall>(k, v) \<in> set (entries it). kv db k = Some v \<and> prefix ?p k"
      using sub unfolding sortedEntries_props(1) [OF kv_finite] boundedKeys_prefix by auto
    from defs_of_entries [OF r wf n assms this] obtain ds where
      es: "entries it = map (\<lambda>d. (indexDefKey n (idxName d), encodeIndexDef d)) ds" and ds: "set ds \<subseteq> set (aDefs a)"
      by blast
    have loop: "indexes_loop ?p (entries it) = Inr ds"
      unfolding es using ds wf n by (intro indexes_loop_defs) (auto simp: wfDB_def validDefs_def)
    show ?thesis if "rest = []" "iterError it = None"
    proof -
      have "validateIndexes ds = Inr () \<and> sort_key idxName ds = aDefs a"
        using it(2) that(1) es ds by (intro indexes_complete [OF assms kv_finite]) simp_all
      with it(1) loop that(2) close show ?thesis
        by (auto simp: indexes_def intro!: okOrFault_joinClose)
    qed
    show ?thesis if "F p" "iterError it = Some p" for p
      using it(1) loop that close by (auto simp: indexes_def intro!: okOrFault_joinClose okOrFault_fault)
  qed (auto simp: indexes_def Let_def intro: okOrFault_fault)
qed

end

end
