(* ===== verification/Store_Writes.thy ===== *)
theory Store_Writes
  imports Store_Reads
begin

text \<open>
  The writing operations implement the contract of the store: on a represented state each of
  them returns what its specification says and leaves a state that represents the specified
  one; when Pebble or the source of randomness fails, the state is still represented, and it
  is the old one or the one a successful run would have left.
\<close>

section \<open>Outcomes\<close>

definition outcome ::
  "'db services \<Rightarrow> ('db \<Rightarrow> bytes \<rightharpoonup> bytes) \<Rightarrow> (perr \<Rightarrow> bool) \<Rightarrow> bytes \<Rightarrow> bool \<Rightarrow>
   (astate \<Rightarrow> 'a result \<Rightarrow> astate \<Rightarrow> bool) \<Rightarrow> astate \<Rightarrow> 'a result \<Rightarrow> 'db sys \<Rightarrow> bool" where
  "outcome E kv F wk X spec A r s' \<longleftrightarrow>
     (\<exists>A'. rep E wk (kv (pdb s')) A' \<and>
        (spec A r A' \<or> (\<exists>e. r = Inl e \<and> faulty F X e \<and> (A' = A \<or> (\<exists>a. spec A (Inr a) A')))))"

lemma outcomeI: "rep E wk (kv (pdb s')) A' \<Longrightarrow> spec A r A' \<Longrightarrow> outcome E kv F wk X spec A r s'"
  by (auto simp: outcome_def)

lemma outcome_fault:
  "rep E wk (kv (pdb s')) A \<Longrightarrow> faulty F X e \<Longrightarrow> outcome E kv F wk X spec A (Inl e) s'"
  by (auto simp: outcome_def)

lemma outcome_fault_new:
  "rep E wk (kv (pdb s')) A' \<Longrightarrow> faulty F X e \<Longrightarrow> spec A (Inr a) A' \<Longrightarrow> outcome E kv F wk X spec A (Inl e) s'"
  by (auto simp: outcome_def)

section \<open>Randomness\<close>

text \<open>
  Randomness that is enough for a write: two different revisions can be drawn and a nonce is
  left after them.
\<close>

definition enoughRandom :: "world \<Rightarrow> bool" where
  "enoughRandom w \<longleftrightarrow> 44 \<le> length (entropy w) \<and> take 16 (entropy w) \<noteq> take 16 (drop 16 (entropy w))"

lemma makeRevision_cases:
  "makeRevision p w = Inl [] \<or> (\<exists>rv w'. makeRevision p w = Inr (rv, w') \<and> length rv = 16 \<and> p \<noteq> Some rv)"
proof (induction p w rule: makeRevision.induct)
  case (1 p w)
  show ?case
  proof (cases "length (entropy w) < 16")
    case True
    then show ?thesis by (subst (1) makeRevision.simps) (simp add: randRead_def)
  next
    case False
    then have r: "randRead 16 w = Inr (take 16 (entropy w), w\<lparr>entropy := drop 16 (entropy w)\<rparr>)"
      by (simp add: randRead_def)
    show ?thesis
    proof (cases "p = None \<or> Some (take 16 (entropy w)) \<noteq> p")
      case True
      then have "makeRevision p w = Inr (take 16 (entropy w), w\<lparr>entropy := drop 16 (entropy w)\<rparr>)"
        by (subst makeRevision.simps) (simp add: r)
      with True False show ?thesis by auto
    next
      case f: False
      then have "makeRevision p w = makeRevision p (w\<lparr>entropy := drop 16 (entropy w)\<rparr>)"
        by (subst makeRevision.simps) (auto simp: r)
      with "1.IH" [OF r refl f] show ?thesis by simp
    qed
  qed
qed

lemma enough_revision:
  assumes "enoughRandom w"
  shows "\<exists>rv w'. makeRevision p w = Inr (rv, w') \<and> 12 \<le> length (entropy w')"
proof -
  let ?e = "entropy w"
  have len: "44 \<le> length ?e" and ne: "take 16 ?e \<noteq> take 16 (drop 16 ?e)" using assms by (auto simp: enoughRandom_def)
  have step: "makeRevision p v = (if p = None \<or> Some (take 16 (entropy v)) \<noteq> p
      then Inr (take 16 (entropy v), v\<lparr>entropy := drop 16 (entropy v)\<rparr>)
      else makeRevision p (v\<lparr>entropy := drop 16 (entropy v)\<rparr>))" if "16 \<le> length (entropy v)" for v
    using that by (subst makeRevision.simps) (simp add: randRead_def)
  show ?thesis
  proof (cases "p = None \<or> Some (take 16 ?e) \<noteq> p")
    case True
    then show ?thesis using step [of w] len by simp
  next
    case False
    then show ?thesis using step [of w] step [of "w\<lparr>entropy := drop 16 ?e\<rparr>"] len ne by auto
  qed
qed

section \<open>Batches\<close>

context pebble_api
begin

lemma wp_batch:
  assumes "\<And>db'. kv db' = applyBatch ops (kv (pdb s)) \<Longrightarrow> Q (Inr ()) (s\<lparr>pdb := db'\<rparr>)"
    "\<And>s' e. kv (pdb s') = applyBatch ops (kv (pdb s)) \<or> kv (pdb s') = kv (pdb s) \<Longrightarrow> faulty F False e \<Longrightarrow> Q (Inl e) s'"
  shows "wp (batchM E ops) Q s"
  unfolding batchM_def wp_deferM
proof (rule wp_bind_read [where g = "Inr ops"])
  show "okOrFault F (queueAll E [] ops) (Inr ops)" using queueAll_fault [of "[]" ops] by simp
next
  fix e
  assume f: "faulty F False e"
  show "Q (joinClose (batchClose E (pdb s)) (Inl e)) s"
    using f batchClose_fault [of "pdb s"] assms(2) [of s]
    by (auto simp: joinClose_def intro: faulty_append split: option.splits)
next
  fix b
  assume "Inr ops = (Inr b :: bop list result)"
  then have b: "b = ops" by simp
  show "wp (commitM E b) (\<lambda>r s'. Q (joinClose (batchClose E (pdb s')) r) s') s"
    unfolding b
  proof (rule wp_commit)
    fix db'
    assume "kv db' = applyBatch ops (kv (pdb s))"
    then show "Q (joinClose (batchClose E (pdb (s\<lparr>pdb := db'\<rparr>))) (Inr ())) (s\<lparr>pdb := db'\<rparr>)"
      using assms(1) [of db'] assms(2) [of "s\<lparr>pdb := db'\<rparr>"] batchClose_fault [of db']
      by (auto simp: joinClose_def intro: faulty_wrapStore split: option.splits)
  next
    fix db' e
    assume "kv db' = applyBatch ops (kv (pdb s)) \<or> kv db' = kv (pdb s)" "faulty F False e"
    then show "Q (joinClose (batchClose E (pdb (s\<lparr>pdb := db'\<rparr>))) (Inl e)) (s\<lparr>pdb := db'\<rparr>)"
      using assms(2) [of "s\<lparr>pdb := db'\<rparr>"] batchClose_fault [of db']
      by (auto simp: joinClose_def intro: faulty_append split: option.splits)
  qed
qed auto

text \<open>A batch at the end of an operation: the old or the specified state, whatever happens.\<close>

lemma wp_batch_outcome:
  assumes "rep E wk (kv (pdb s)) A" "rep E wk (applyBatch ops (kv (pdb s))) A'" "spec A (Inr a) A'"
  shows "wp (batchM E ops) (\<lambda>r s'. case r of Inl e \<Rightarrow> outcome E kv F wk X spec A (Inl e) s'
    | Inr _ \<Rightarrow> outcome E kv F wk X spec A (Inr a) s') s"
  by (rule wp_batch)
    (use assms in \<open>auto intro: outcomeI outcome_fault outcome_fault_new faulty_mono\<close>)

end

section \<open>Updating a represented document\<close>

lemma rep_db:
  assumes "rep E wk m A" "A n = Some a"
  shows "validName n" "wfDB a" "repDB E m n a" "\<exists>v. m (dbKey n) = Some v \<and> unwrapDBKey E wk (dbKey n) v = Inr (aKey a)"
  using assms unfolding rep_def wfState_def by blast+

lemma rep_putDoc:
  assumes r: "rep E wk m A" and a: "A n = Some a" and i: "validID i"
    and wf: "\<And>d. od = Some d \<Longrightarrow> length (docRev d) = 16 \<and> isOk (indexValues (docJson d) (aDefs a))"
    and doc: "case od of None \<Rightarrow> m' (docKey n i) = None
      | Some d \<Rightarrow> \<exists>v. m' (docKey n i) = Some v \<and> openDoc E (docKey n i) (aKey a) i v = Inr d"
    and idx: "\<And>x v. validName x \<Longrightarrow> m' (indexKey n x v i) =
      (if \<exists>d. od = Some d \<and> (x, v) \<in> docEntries (aDefs a) (docJson d) then Some [] else None)"
    and same: "\<And>k. k \<noteq> docKey n i \<Longrightarrow> (\<And>x v. validName x \<Longrightarrow> k \<noteq> indexKey n x v i) \<Longrightarrow> m' k = m k"
  shows "rep E wk m' (putDoc A n a i od)"
proof -
  note db = rep_db [OF r a]
  let ?a = "a\<lparr>aDocs := (aDocs a)(i := od)\<rparr>"
  have wf': "wfDB ?a" using db(2) wf i by (auto simp: wfDB_def)
  from db(4) obtain v where v: "m (dbKey n) = Some v" "unwrapDBKey E wk (dbKey n) v = Inr (aKey a)" by blast
  have "repDB E m' n ?a"
    unfolding repDB_def
  proof (intro conjI allI impI)
    fix j
    assume j: "validID j"
    show "case aDocs ?a j of None \<Rightarrow> m' (docKey n j) = None
      | Some d \<Rightarrow> \<exists>v. m' (docKey n j) = Some v \<and> openDoc E (docKey n j) (aKey ?a) j v = Inr d"
    proof (cases "j = i")
      case True
      then show ?thesis using doc by (cases od) auto
    next
      case False
      have "m' (docKey n j) = m (docKey n j)" using same [of "docKey n j"] False db(1) by simp
      with False db(3) j show ?thesis by (simp add: repDB_def cong: option.case_cong)
    qed
  next
    fix x
    assume "validName x"
    moreover have "m' (indexDefKey n x) = m (indexDefKey n x)" using same [of "indexDefKey n x"] by simp
    ultimately show "m' (indexDefKey n x) = map_option encodeIndexDef (findIndex (aDefs ?a) x)"
      using db(3) by (simp add: repDB_def)
  next
    fix x w j
    assume x: "validName x" and j: "validID j"
    show "m' (indexKey n x w j) =
      (if \<exists>d. aDocs ?a j = Some d \<and> (x, w) \<in> docEntries (aDefs ?a) (docJson d) then Some [] else None)"
    proof (cases "j = i")
      case True
      then show ?thesis using idx [OF x] by simp
    next
      case False
      have "m' (indexKey n x w j) = m (indexKey n x w j)"
        using same [of "indexKey n x w j"] False db(1) x i j by simp
      with False db(3) x j show ?thesis by (simp add: repDB_def)
    qed
  qed
  moreover have "m' (dbKey n) = Some v" using same [of "dbKey n"] v by simp
  ultimately show ?thesis
    unfolding putDoc_def using v i
    by (intro rep_update [OF r db(1) wf', where v = v]) (auto intro!: same)
qed

lemma docEntries_eq: "indexValues json defs = Inr vs \<Longrightarrow> docEntries defs json = set vs"
  by (simp add: docEntries_def)

lemma entryKeys_index:
  assumes "validName n" "validID i" "validName x" "\<forall>(y, w) \<in> set vs. validName y"
  shows "indexKey n x v i \<in> entryKeys n i vs \<longleftrightarrow> (x, v) \<in> set vs"
  using assms by (force simp: entryKeys_def)

lemma entryKeys_other:
  assumes "\<And>x v. validName x \<Longrightarrow> k \<noteq> indexKey n x v i" "\<forall>(y, w) \<in> set vs. validName y"
  shows "k \<notin> entryKeys n i vs"
  using assms unfolding entryKeys_def by fast

lemma entryKeys_kinds [simp]:
  "docKey n i \<notin> entryKeys m j vs" "dbKey n \<notin> entryKeys m j vs" "indexDefKey n x \<notin> entryKeys m j vs"
  by (auto simp: entryKeys_def)

lemma values_valid:
  assumes "indexValues json defs = Inr vs" "validDefs defs"
  shows "\<forall>(y, w) \<in> set vs. validName y" "distinct (map fst vs)"
  using indexValues_valid(1) [OF assms] indexValues_distinct [OF assms(1)] assms(2)
  by (auto simp: validDefs_def)

lemma rep_docKey:
  assumes "rep E wk m A" "A n = Some a" "validID i"
  shows "m (docKey n i) = None \<longleftrightarrow> aDocs a i = None"
  using rep_db(3) [OF assms(1,2)] assms(3) by (auto simp: repDB_def split: option.splits)

lemma rep_create:
  assumes "rep E wk m A" "A n = Some a" "validID i" "aDocs a i = None" "indexValues json (aDefs a) = Inr vs"
    "length rv = 16" "openDoc E (docKey n i) (aKey a) i rec = Inr \<lparr>docJson = json, docRev = rv\<rparr>"
  shows "rep E wk (applyBatch (BSet (docKey n i) rec # setIndexEntries n i vs) m)
    (putDoc A n a i (Some \<lparr>docJson = json, docRev = rv\<rparr>))"
proof -
  note db = rep_db [OF assms(1,2)]
  have vd: "validDefs (aDefs a)" using db(2) by (simp add: wfDB_def)
  note vv = values_valid [OF assms(5) vd]
  show ?thesis
  proof (rule rep_putDoc [OF assms(1-3)])
    fix x v
    assume x: "validName x"
    have "m (indexKey n x v i) = None" using db(3) assms(3,4) x by (auto simp: repDB_def)
    then show "applyBatch (BSet (docKey n i) rec # setIndexEntries n i vs) m (indexKey n x v i) =
      (if \<exists>d. Some \<lparr>docJson = json, docRev = rv\<rparr> = Some d \<and> (x, v) \<in> docEntries (aDefs a) (docJson d) then Some [] else None)"
      using entryKeys_index [OF db(1) assms(3) x vv(1)] docEntries_eq [OF assms(5)]
      by (simp add: apply_setIndexEntries)
  next
    fix k
    assume k: "k \<noteq> docKey n i" "\<And>x v. validName x \<Longrightarrow> k \<noteq> indexKey n x v i"
    then have "k \<notin> entryKeys n i vs" using vv(1) by (intro entryKeys_other)
    with k show "applyBatch (BSet (docKey n i) rec # setIndexEntries n i vs) m k = m k"
      by (simp add: apply_setIndexEntries)
  qed (use assms in \<open>auto simp: apply_setIndexEntries\<close>)
qed

lemma rep_old_entries:
  assumes "rep E wk m A" "A n = Some a" "validID i" "aDocs a i = Some d" "indexValues (docJson d) (aDefs a) = Inr old" "validName x"
  shows "m (indexKey n x v i) = (if (x, v) \<in> set old then Some [] else None)"
  using rep_db(3) [OF assms(1,2)] assms(3,4,6) docEntries_eq [OF assms(5)] by (auto simp: repDB_def)

lemma rep_replace:
  assumes "rep E wk m A" "A n = Some a" "validID i" "aDocs a i = Some d" "indexValues (docJson d) (aDefs a) = Inr old"
    "indexValues json (aDefs a) = Inr new" "length rv = 16"
    "openDoc E (docKey n i) (aKey a) i rec = Inr \<lparr>docJson = json, docRev = rv\<rparr>"
  shows "rep E wk (applyBatch (BSet (docKey n i) rec # changeIndexEntries n i old new) m)
    (putDoc A n a i (Some \<lparr>docJson = json, docRev = rv\<rparr>))"
proof -
  note db = rep_db [OF assms(1,2)]
  have vd: "validDefs (aDefs a)" using db(2) by (simp add: wfDB_def)
  note vo = values_valid [OF assms(5) vd] and vn = values_valid [OF assms(6) vd]
  have ne: "(x, v) \<in> set old \<union> set new \<Longrightarrow> v \<noteq> [] \<and> goLen x" for x v
    using indexValues_valid [OF assms(5) vd, of x v] indexValues_valid [OF assms(6) vd, of x v]
      validIndexValue_ne validName_goLen by blast
  let ?m = "m(docKey n i \<mapsto> rec)"
  have eff: "applyBatch (BSet (docKey n i) rec # changeIndexEntries n i old new) m k =
      (if k \<in> entryKeys n i new then Some [] else if k \<in> entryKeys n i old then None else ?m k)" for k
    unfolding applyBatch_simps applyOp.simps
  proof (rule apply_changeIndexEntries [OF vo(2) vn(2) ne validName_goLen [OF db(1)]])
    fix k
    assume "k \<in> entryKeys n i old"
    then obtain x v where xv: "(x, v) \<in> set old" "k = indexKey n x v i" by (auto simp: entryKeys_def)
    with vo(1) have "validName x" by auto
    with xv show "?m k = Some []" using rep_old_entries [OF assms(1-5), of x v] by simp
  qed
  show ?thesis
  proof (rule rep_putDoc [OF assms(1-3)])
    fix x v
    assume x: "validName x"
    show "applyBatch (BSet (docKey n i) rec # changeIndexEntries n i old new) m (indexKey n x v i) =
      (if \<exists>d. Some \<lparr>docJson = json, docRev = rv\<rparr> = Some d \<and> (x, v) \<in> docEntries (aDefs a) (docJson d) then Some [] else None)"
      unfolding eff
      using entryKeys_index [OF db(1) assms(3) x vn(1)] entryKeys_index [OF db(1) assms(3) x vo(1)]
        docEntries_eq [OF assms(6)] rep_old_entries [OF assms(1-5) x] by simp
  next
    fix k
    assume k: "k \<noteq> docKey n i" "\<And>x v. validName x \<Longrightarrow> k \<noteq> indexKey n x v i"
    then have "k \<notin> entryKeys n i new" "k \<notin> entryKeys n i old" using vn(1) vo(1) by (intro entryKeys_other; blast)+
    with k show "applyBatch (BSet (docKey n i) rec # changeIndexEntries n i old new) m k = m k"
      unfolding eff by simp
  next
    show "case Some \<lparr>docJson = json, docRev = rv\<rparr> of
        None \<Rightarrow> applyBatch (BSet (docKey n i) rec # changeIndexEntries n i old new) m (docKey n i) = None
      | Some d \<Rightarrow> \<exists>v. applyBatch (BSet (docKey n i) rec # changeIndexEntries n i old new) m (docKey n i) = Some v \<and>
          openDoc E (docKey n i) (aKey a) i v = Inr d"
      unfolding eff using assms(8) by simp
  qed (use assms in auto)
qed

lemma rep_delete:
  assumes "rep E wk m A" "A n = Some a" "validID i" "aDocs a i = Some d" "indexValues (docJson d) (aDefs a) = Inr old"
  shows "rep E wk (applyBatch (BDelete (docKey n i) # deleteIndexEntries n i old) m) (putDoc A n a i None)"
proof -
  note db = rep_db [OF assms(1,2)]
  have vd: "validDefs (aDefs a)" using db(2) by (simp add: wfDB_def)
  note vo = values_valid [OF assms(5) vd]
  show ?thesis
  proof (rule rep_putDoc [OF assms(1-3)])
    fix x v
    assume x: "validName x"
    show "applyBatch (BDelete (docKey n i) # deleteIndexEntries n i old) m (indexKey n x v i) =
      (if \<exists>d. None = Some d \<and> (x, v) \<in> docEntries (aDefs a) (docJson d) then Some [] else None)"
      using entryKeys_index [OF db(1) assms(3) x vo(1)] rep_old_entries [OF assms x]
      by (simp add: apply_deleteIndexEntries)
  next
    fix k
    assume k: "k \<noteq> docKey n i" "\<And>x v. validName x \<Longrightarrow> k \<noteq> indexKey n x v i"
    then have "k \<notin> entryKeys n i old" using vo(1) by (intro entryKeys_other)
    with k show "applyBatch (BDelete (docKey n i) # deleteIndexEntries n i old) m k = m k"
      by (simp add: apply_deleteIndexEntries)
  qed (auto simp: apply_deleteIndexEntries)
qed

end
