(* ===== verification/Store_Refine.thy ===== *)
theory Store_Refine
  imports Store_Writes
begin

text \<open>
  Refinement of the writing operations: every operation of the store, run on a represented
  state, ends in an outcome that its specification allows.
\<close>

section \<open>Documents\<close>

context store_api
begin

lemma fault_old: "rep E wk (kv (pdb s')) A \<Longrightarrow> faulty F X e \<Longrightarrow> outcome E kv F wk X spec A (Inl e) s'"
  by (rule outcome_fault)

lemma spec_old: "rep E wk (kv (pdb s')) A \<Longrightarrow> spec A r A \<Longrightarrow> outcome E kv F wk X spec A r s'"
  by (rule outcomeI)

text \<open>A read in an operation: it returns what the abstract state says, or the operation fails.\<close>

lemma read_step:
  assumes "okOrFault F (f (pdb s)) g" "rep E wk (kv (pdb s)) A"
    "\<And>e. g = Inl e \<Longrightarrow> spec A (Inl e) A"
    "\<And>a. g = Inr a \<Longrightarrow> wp (k a) (outcome E kv F wk X spec A) s"
  shows "wp (bindM (readM f) k) (outcome E kv F wk X spec A) s"
  by (rule wp_bind_read [where g = g]) (use assms in \<open>auto intro: fault_old spec_old faulty_mono\<close>)

lemma read_ok:
  assumes "okOrFault F (f (pdb s)) (Inr a)" "rep E wk (kv (pdb s)) A" "wp (k a) (outcome E kv F wk X spec A) s"
  shows "wp (bindM (readM f) k) (outcome E kv F wk X spec A) s"
  by (rule read_step [where g = "Inr a"]) (use assms in auto)

lemma wp_bind_world:
  assumes "\<And>e. f (wld s) = Inl e \<Longrightarrow> Q (Inl e) s" "\<And>a w. f (wld s) = Inr (a, w) \<Longrightarrow> wp (k a) Q (s\<lparr>wld := w\<rparr>)"
  shows "wp (bindM (worldM f) k) Q s"
  using assms by (auto simp: wp_simps split: sum.splits prod.splits)

text \<open>Sealing and writing a record, once a revision is drawn.\<close>

lemma wp_seal_batch:
  assumes r: "rep E wk (kv (pdb s)) A" and a: "A n = Some a"
    and rv: "length rv = 16" and X: "X \<or> 12 \<le> length (entropy (wld s))"
    and large: "maxStoredDocBytes < length json \<Longrightarrow> outcome E kv F wk X spec A (Inl []) s"
    and new: "\<And>rec. length json \<le> maxStoredDocBytes \<Longrightarrow>
      openDoc E (docKey n i) (aKey a) i rec = Inr \<lparr>docJson = json, docRev = rv\<rparr> \<Longrightarrow>
      rep E wk (applyBatch (BSet (docKey n i) rec # ops) (kv (pdb s))) A'"
    and spec: "length json \<le> maxStoredDocBytes \<Longrightarrow> spec A (Inr res) A'"
  shows "wp (bindM (worldM (sealDoc E (docKey n i) (aKey a) i rv json))
      (\<lambda>rec. bindM (batchM E (BSet (docKey n i) rec # ops)) (\<lambda>_. returnM res)))
    (outcome E kv F wk X spec A) s"
proof (rule wp_bind_world)
  have key: "length (aKey a) = 32" using rep_db(2) [OF r a] by (simp add: wfDB_def)
  note sc = sealDoc_cases [OF key, of "docKey n i" i rv json "wld s"]
  show "outcome E kv F wk X spec A (Inl e) s" if "sealDoc E (docKey n i) (aKey a) i rv json (wld s) = Inl e" for e
    using sc that X large r by (auto intro: outcome_fault simp: faulty_def)
  fix rec w
  assume sd: "sealDoc E (docKey n i) (aKey a) i rv json (wld s) = Inr (rec, w)"
  with sc have len: "length json \<le> maxStoredDocBytes" by auto
  note nw = new [OF len openDoc_sealDoc [OF sd rv]]
  have "wp (batchM E (BSet (docKey n i) rec # ops)) (\<lambda>r s'. case r of Inl e \<Rightarrow> outcome E kv F wk X spec A (Inl e) s'
    | Inr _ \<Rightarrow> outcome E kv F wk X spec A (Inr res) s') (s\<lparr>wld := w\<rparr>)"
    using r nw spec [OF len] by (intro wp_batch_outcome) simp_all
  then show "wp (bindM (batchM E (BSet (docKey n i) rec # ops)) (\<lambda>_. returnM res)) (outcome E kv F wk X spec A) (s\<lparr>wld := w\<rparr>)"
    unfolding wp_bindM wp_returnM by (rule wp_mono) (auto split: sum.splits)
qed

text \<open>
  The end of every write: draw a revision, seal the document under it, commit the record with
  its index entries.
\<close>

lemma wp_write:
  assumes r: "rep E wk (kv (pdb s)) A" and a: "A n = Some a" and X: "X \<or> enoughRandom (wld s)"
    and large: "maxStoredDocBytes < length json \<Longrightarrow> spec A (Inl []) A"
    and new: "\<And>rv rec. length rv = 16 \<Longrightarrow>
      openDoc E (docKey n i) (aKey a) i rec = Inr \<lparr>docJson = json, docRev = rv\<rparr> \<Longrightarrow>
      rep E wk (applyBatch (BSet (docKey n i) rec # ops) (kv (pdb s))) (A' rv)"
    and spec: "\<And>rv. length rv = 16 \<Longrightarrow> p \<noteq> Some rv \<Longrightarrow> length json \<le> maxStoredDocBytes \<Longrightarrow> spec A (Inr (res rv)) (A' rv)"
  shows "wp (bindM (worldM (makeRevision p)) (\<lambda>rv.
      bindM (worldM (sealDoc E (docKey n i) (aKey a) i rv json)) (\<lambda>rec.
      bindM (batchM E (BSet (docKey n i) rec # ops)) (\<lambda>_. returnM (res rv)))))
    (outcome E kv F wk X spec A) s"
proof (rule wp_bind_world)
  note mc = makeRevision_cases [of p "wld s"]
  show "outcome E kv F wk X spec A (Inl e) s" if "makeRevision p (wld s) = Inl e" for e
    using that mc X enough_revision [of "wld s" p] by (auto intro!: fault_old [OF r] simp: faulty_def)
  fix rv w
  assume m: "makeRevision p (wld s) = Inr (rv, w)"
  with mc have rv: "length rv = 16" "p \<noteq> Some rv" by auto
  show "wp (bindM (worldM (sealDoc E (docKey n i) (aKey a) i rv json)) (\<lambda>rec.
      bindM (batchM E (BSet (docKey n i) rec # ops)) (\<lambda>_. returnM (res rv))))
    (outcome E kv F wk X spec A) (s\<lparr>wld := w\<rparr>)"
  proof (rule wp_seal_batch [where A' = "A' rv"])
    show "X \<or> 12 \<le> length (entropy (wld (s\<lparr>wld := w\<rparr>)))"
      using X enough_revision [of "wld s" p] m by auto
    show "outcome E kv F wk X spec A (Inl []) (s\<lparr>wld := w\<rparr>)" if "maxStoredDocBytes < length json"
      using large [OF that] r by (intro outcomeI [where A' = A]) simp_all
  qed (use r a rv new spec in auto)
qed

lemma createDocWithID_outcome:
  assumes r: "rep E wk (kv (pdb s)) A" and n: "validName n" and i: "validID i"
    and X: "X \<or> enoughRandom (wld s)"
  shows "wp (createDocWithID E wk n i json) (outcome E kv F wk X (spec_createDocWithID n i json) A) s"
proof (cases "A n")
  case None
  show ?thesis unfolding createDocWithID_def
    by (rule read_step, rule databaseKey_rep [OF r n], rule r) (auto simp: spec_createDocWithID_def None)
next
  case a: (Some a)
  have key: "okOrFault F (databaseKey E wk n (pdb s)) (Inr (aKey a))" using databaseKey_rep [OF r n] a by simp
  have has: "okOrFault F (has E (docKey n i) (pdb s)) (Inr (aDocs a i \<noteq> None))"
    using has_rep [of "docKey n i" "pdb s"] rep_docKey [OF r a i] by simp
  note spec = spec_createDocWithID_def
  show ?thesis
  proof (cases "aDocs a i")
    case (Some d)
    show ?thesis unfolding createDocWithID_def Let_def
      by (rule read_ok, rule key, rule r, rule read_ok, rule has, rule r)
        (auto intro!: spec_old [OF r] simp: wp_simps spec a Some)
  next
    case None
    have tail: "wp (bindM (worldM (makeRevision None)) (\<lambda>rv.
        bindM (worldM (sealDoc E (docKey n i) (aKey a) i rv json)) (\<lambda>rec.
        bindM (batchM E (BSet (docKey n i) rec # setIndexEntries n i vs)) (\<lambda>_. returnM rv))))
      (outcome E kv F wk X (spec_createDocWithID n i json) A) s" if vs: "indexValues json (aDefs a) = Inr vs" for vs
      by (rule wp_write [OF r a X, where A' = "\<lambda>rv. putDoc A n a i (Some \<lparr>docJson = json, docRev = rv\<rparr>)"])
        (use vs in \<open>auto simp: spec a None intro: rep_create [OF r a i None vs] simp del: applyBatch_simps\<close>)
    show ?thesis unfolding createDocWithID_def Let_def
      by (rule read_ok, rule key, rule r, rule read_ok, rule has, rule r,
          simp only: None simp_thms if_False, rule read_ok, rule indexes_rep [OF r a], rule r,
          rule read_step, rule okOrFault_refl, rule r)
        (auto simp: spec a None intro: tail)
  qed
qed

text \<open>Reading the current version of a document, with the errors the specifications share.\<close>

lemma current_doc:
  assumes r: "rep E wk (kv (pdb s)) A" and n: "validName n" and i: "validID i"
    and none: "docAt A n i = None \<Longrightarrow> spec A (Inl [ErrDocNotFound]) A"
    and mismatch: "\<And>a d. docAt A n i = Some (a, d) \<Longrightarrow> \<not> matchRevision match (docRev d) \<Longrightarrow>
      spec A (Inl [ErrPreconditionFailed]) A"
    and match: "\<And>a d. A n = Some a \<Longrightarrow> aDocs a i = Some d \<Longrightarrow> matchRevision match (docRev d) \<Longrightarrow>
      wp (k (aKey a) d) (outcome E kv F wk X spec A) s"
  shows "wp (bindM (readM (documentDBKey E wk n)) (\<lambda>dbk. bindM (readM (readDoc E n i dbk)) (\<lambda>current.
      if \<not> matchRevision match (docRev current) then failM [ErrPreconditionFailed] else k dbk current)))
    (outcome E kv F wk X spec A) s"
proof (cases "A n")
  case None
  then show ?thesis
    by (intro read_step) (use none r documentDBKey_rep [OF r n] in \<open>auto simp: docAt_def\<close>)
next
  case a: (Some a)
  have key: "okOrFault F (documentDBKey E wk n (pdb s)) (Inr (aKey a))" using documentDBKey_rep [OF r n] a by simp
  show ?thesis
  proof (rule read_step, rule key, rule r, simp)
    fix k'
    assume "Inr (aKey a) = (Inr k' :: bytes result)"
    then have k': "k' = aKey a" by simp
    show "wp (bindM (readM (readDoc E n i k')) (\<lambda>current.
        if \<not> matchRevision match (docRev current) then failM [ErrPreconditionFailed] else k k' current))
      (outcome E kv F wk X spec A) s"
      unfolding k'
      by (rule read_step, rule readDoc_rep [OF r a i], rule r)
        (use none mismatch [of a] match [of a] a in
          \<open>auto simp: docAt_def wp_simps split: option.splits intro: spec_old [OF r]\<close>)
  qed
qed

text \<open>The current values of a stored document can always be computed again.\<close>

lemma old_values:
  assumes "rep E wk m A" "A n = Some a" "aDocs a i = Some d"
  shows "\<exists>vs. indexValues (docJson d) (aDefs a) = Inr vs"
  using rep_db(2) [OF assms(1,2)] assms(3) by (auto simp: wfDB_def isOk_iff)

text \<open>Writing a new version, shared by replacement and patching.\<close>

lemma new_version:
  assumes r: "rep E wk (kv (pdb s)) A" and a: "A n = Some a" and d: "aDocs a i = Some d" and i: "validID i"
    and X: "X \<or> enoughRandom (wld s)"
    and spec: "\<And>r' A'. spec_write n i a d json A r' A' \<Longrightarrow> spec A (map_sum (\<lambda>e. e) res r') A'"
  shows "wp (bindM (readM (indexes E n)) (\<lambda>defs.
       bindM (readM (\<lambda>_. mapErr (\<lambda>_. [ErrCorruptData]) (indexValues (docJson d) defs))) (\<lambda>oldValues.
       bindM (readM (\<lambda>_. indexValues json defs)) (\<lambda>newValues.
       bindM (worldM (makeRevision (Some (docRev d)))) (\<lambda>rv.
       bindM (worldM (sealDoc E (docKey n i) (aKey a) i rv json)) (\<lambda>rec.
       bindM (batchM E (BSet (docKey n i) rec # changeIndexEntries n i oldValues newValues)) (\<lambda>_.
       returnM (res \<lparr>docJson = json, docRev = rv\<rparr>)))))))) (outcome E kv F wk X spec A) s"
proof -
  obtain old where old: "indexValues (docJson d) (aDefs a) = Inr old" using old_values [OF r a d] by blast
  have tail: "wp (bindM (worldM (makeRevision (Some (docRev d)))) (\<lambda>rv.
       bindM (worldM (sealDoc E (docKey n i) (aKey a) i rv json)) (\<lambda>rec.
       bindM (batchM E (BSet (docKey n i) rec # changeIndexEntries n i old new)) (\<lambda>_.
       returnM (res \<lparr>docJson = json, docRev = rv\<rparr>))))) (outcome E kv F wk X spec A) s"
    if new: "indexValues json (aDefs a) = Inr new" for new
  proof (rule wp_write [OF r a X, where A' = "\<lambda>rv. putDoc A n a i (Some \<lparr>docJson = json, docRev = rv\<rparr>)"])
    show "spec A (Inl []) A" if "maxStoredDocBytes < length json"
      using spec [of "Inl []" A] that new by (simp add: spec_write_def)
    show "spec A (Inr (res \<lparr>docJson = json, docRev = rv\<rparr>)) (putDoc A n a i (Some \<lparr>docJson = json, docRev = rv\<rparr>))"
      if "length rv = 16" "Some (docRev d) \<noteq> Some rv" "length json \<le> maxStoredDocBytes" for rv
      using spec [of "Inr \<lparr>docJson = json, docRev = rv\<rparr>"] that new by (auto simp: spec_write_def)
  qed (rule rep_replace [OF r a i d old new])
  have e: "indexValues json (aDefs a) = Inl e \<Longrightarrow> spec A (Inl e) A" for e
    using spec [of "Inl e" A] by (simp add: spec_write_def)
  show ?thesis
    by (rule read_ok, rule indexes_rep [OF r a], rule r, rule read_ok [where a = old], simp add: old, rule r,
        rule read_step, rule okOrFault_refl, rule r, rule e, assumption, rule tail)
qed

lemma patchDoc_outcome:
  assumes r: "rep E wk (kv (pdb s)) A" and n: "validName n" and i: "validID i" and X: "X \<or> enoughRandom (wld s)"
  shows "wp (patchDoc E wk n i match apply) (outcome E kv F wk X (spec_patchDoc n i match apply) A) s"
  unfolding patchDoc_def Let_def
proof (rule current_doc [OF r n i])
  fix a d
  assume a: "A n = Some a" and d: "aDocs a i = Some d" and m: "matchRevision match (docRev d)"
  have at: "docAt A n i = Some (a, d)" using a d by (simp add: docAt_def)
  have err: "apply (docJson d) = Inl e \<Longrightarrow> spec_patchDoc n i match apply A (Inl e) A" for e
    using at m by (simp add: spec_patchDoc_def)
  have wr: "spec_write n i a d json A r' A' \<Longrightarrow> spec_patchDoc n i match apply A (map_sum (\<lambda>e. e) (\<lambda>d. d) r') A'"
    if "apply (docJson d) = Inr json" for json r' A'
    using at m that by (cases r') (simp_all add: spec_patchDoc_def)
  show "wp (bindM (readM (\<lambda>_. apply (docJson d))) (\<lambda>json. bindM (readM (indexes E n)) (\<lambda>defs.
       bindM (readM (\<lambda>_. mapErr (\<lambda>_. [ErrCorruptData]) (indexValues (docJson d) defs))) (\<lambda>oldValues.
       bindM (readM (\<lambda>_. indexValues json defs)) (\<lambda>newValues.
       bindM (worldM (makeRevision (Some (docRev d)))) (\<lambda>rv.
       bindM (worldM (sealDoc E (docKey n i) (aKey a) i rv json)) (\<lambda>rec.
       bindM (batchM E (BSet (docKey n i) rec # changeIndexEntries n i oldValues newValues)) (\<lambda>_.
       returnM \<lparr>docJson = json, docRev = rv\<rparr>))))))))
     (outcome E kv F wk X (spec_patchDoc n i match apply) A) s"
    by (rule read_step, rule okOrFault_refl, rule r, rule err, simp,
        rule new_version [OF r a d i X, where res = "\<lambda>d. d"], rule wr)
qed (auto simp: spec_patchDoc_def)

lemma replaceDoc_outcome:
  assumes r: "rep E wk (kv (pdb s)) A" and n: "validName n" and i: "validID i" and X: "X \<or> enoughRandom (wld s)"
  shows "wp (replaceDoc E wk n i json match) (outcome E kv F wk X (spec_replaceDoc n i json match) A) s"
  unfolding replaceDoc_def Let_def
proof (rule current_doc [OF r n i])
  fix a d
  assume a: "A n = Some a" and d: "aDocs a i = Some d" and m: "matchRevision match (docRev d)"
  have wr: "spec_write n i a d json A r' A' \<Longrightarrow> spec_replaceDoc n i json match A (map_sum (\<lambda>e. e) docRev r') A'" for r' A'
    using a d m by (auto simp: spec_replaceDoc_def spec_patchDoc_def docAt_def)
  show "wp (bindM (readM (indexes E n)) (\<lambda>defs.
       bindM (readM (\<lambda>_. mapErr (\<lambda>_. [ErrCorruptData]) (indexValues (docJson d) defs))) (\<lambda>oldValues.
       bindM (readM (\<lambda>_. indexValues json defs)) (\<lambda>newValues.
       bindM (worldM (makeRevision (Some (docRev d)))) (\<lambda>rv.
       bindM (worldM (sealDoc E (docKey n i) (aKey a) i rv json)) (\<lambda>rec.
       bindM (batchM E (BSet (docKey n i) rec # changeIndexEntries n i oldValues newValues)) (\<lambda>_.
       returnM rv)))))))
     (outcome E kv F wk X (spec_replaceDoc n i json match) A) s"
    using new_version [OF r a d i X, where res = docRev and spec = "spec_replaceDoc n i json match", OF wr] by simp
qed (auto simp: spec_replaceDoc_def spec_patchDoc_def intro: exI [of _ "Inl _"])

lemma deleteDoc_outcome:
  assumes r: "rep E wk (kv (pdb s)) A" and n: "validName n" and i: "validID i"
  shows "wp (deleteDoc E wk n i match) (outcome E kv F wk X (spec_deleteDoc n i match) A) s"
  unfolding deleteDoc_def Let_def
proof (rule current_doc [OF r n i])
  fix a d
  assume a: "A n = Some a" and d: "aDocs a i = Some d" and m: "matchRevision match (docRev d)"
  obtain old where old: "indexValues (docJson d) (aDefs a) = Inr old" using old_values [OF r a d] by blast
  have spec: "spec_deleteDoc n i match A (Inr ()) (putDoc A n a i None)"
    using a d m by (simp add: spec_deleteDoc_def docAt_def)
  have tail: "wp (batchM E (BDelete (docKey n i) # deleteIndexEntries n i old))
      (outcome E kv F wk X (spec_deleteDoc n i match) A) s"
    by (rule wp_mono [OF wp_batch_outcome [where s = s and spec = "spec_deleteDoc n i match" and X = X,
          OF r rep_delete [OF r a i d old] spec]]) (auto split: sum.splits)
  show "wp (bindM (readM (indexes E n)) (\<lambda>defs.
       bindM (readM (\<lambda>_. mapErr (\<lambda>_. [ErrCorruptData]) (indexValues (docJson d) defs))) (\<lambda>values.
       batchM E (BDelete (docKey n i) # deleteIndexEntries n i values))))
     (outcome E kv F wk X (spec_deleteDoc n i match) A) s"
    by (rule read_ok, rule indexes_rep [OF r a], rule r, rule read_ok [where a = old], simp add: old, rule r, rule tail)
qed (auto simp: spec_deleteDoc_def)

end

end
