(* ===== verification/Store_Databases.thy ===== *)
theory Store_Databases
  imports Store_Refine
begin

text \<open>
  Creating and deleting databases, and the operations that draw identifiers: creation of
  documents under a new ID.
\<close>

section \<open>Databases\<close>

lemma applyBatch_puts_other:
  "k \<notin> f ` set xs \<Longrightarrow> applyBatch (map (\<lambda>x. BSet (f x) (g x)) xs) m k = m k"
  by (induction xs arbitrary: m) auto

lemma applyBatch_puts_mem:
  "distinct (map f xs) \<Longrightarrow> x \<in> set xs \<Longrightarrow> applyBatch (map (\<lambda>x. BSet (f x) (g x)) xs) m (f x) = Some (g x)"
proof (induction xs arbitrary: m)
  case (Cons y xs)
  then show ?case by (cases "x = y") (auto simp: applyBatch_puts_other)
qed simp

lemma no_ownKey:
  assumes "rep E wk m A" "validName n" "A n = None" "ownKey n k"
  shows "m k = None"
proof (rule ccontr)
  assume "m k \<noteq> None"
  with assms(1) obtain n' where "k = storeMetaKey \<or> validName n' \<and> A n' \<noteq> None \<and> (k = dbKey n' \<or> ownKey n' k)"
    unfolding rep_def by blast
  with assms ownKey_neq [OF assms(2) _ assms(4)] show False by (metis assms(2))
qed

lemma findIndex_sort:
  assumes "validDefs defs"
  shows "validDefs (sort_key idxName defs)" "findIndex (sort_key idxName defs) x = findIndex defs x"
proof -
  show v: "validDefs (sort_key idxName defs)" using assms by (auto simp: validDefs_def distinct_map)
  show "findIndex (sort_key idxName defs) x = findIndex defs x"
  proof (cases "findIndex defs x")
    case None
    then have "findIndex (sort_key idxName defs) x = None" by (simp add: findIndex_None_iff)
    with None show ?thesis by simp
  next
    case (Some d)
    then have "findIndex (sort_key idxName defs) x = Some d" using findIndex_iff [OF v] findIndex_iff [OF assms] by simp
    with Some show ?thesis by simp
  qed
qed

lemma rep_createDB:
  assumes r: "rep E wk m A" and n: "validName n" and new: "A n = None" and defs: "validDefs defs"
    and key: "length k = 32" "unwrapDBKey E wk (dbKey n) rec = Inr k"
  shows "rep E wk (applyBatch (BSet (dbKey n) rec #
      map (\<lambda>def. BSet (indexDefKey n (idxName def)) (encodeIndexDef def)) defs) m)
    (A(n \<mapsto> \<lparr>aKey = k, aDefs = sort_key idxName defs, aDocs = Map.empty\<rparr>))" (is "rep E wk ?m (A(n \<mapsto> ?a))")
proof -
  have names: "\<And>d. d \<in> set defs \<Longrightarrow> validName (idxName d)" using defs by (auto simp: validDefs_def validDef_def)
  let ?f = "\<lambda>d. indexDefKey n (idxName d)"
  have dist: "distinct (map ?f defs)"
    using defs names n by (auto simp: validDefs_def distinct_map inj_on_def)
  have other: "q \<noteq> dbKey n \<Longrightarrow> q \<notin> ?f ` set defs \<Longrightarrow> ?m q = m q" for q
    using applyBatch_puts_other [of q ?f defs encodeIndexDef] by simp
  have "repDB E ?m n ?a"
    unfolding repDB_def
  proof (intro conjI allI impI)
    fix i
    assume i: "validID i"
    have "docKey n i \<notin> ?f ` set defs" by auto
    then have "?m (docKey n i) = None" using no_ownKey [OF r n new, of "docKey n i"] i other [of "docKey n i"] by simp
    then show "case aDocs ?a i of None \<Rightarrow> ?m (docKey n i) = None
      | Some d \<Rightarrow> \<exists>v. ?m (docKey n i) = Some v \<and> openDoc E (docKey n i) (aKey ?a) i v = Inr d" by simp
  next
    fix x
    assume x: "validName x"
    show "?m (indexDefKey n x) = map_option encodeIndexDef (findIndex (aDefs ?a) x)"
    proof (cases "findIndex defs x")
      case None
      then have "indexDefKey n x \<notin> ?f ` set defs" using x names n by (auto simp: findIndex_None_iff)
      with other have "?m (indexDefKey n x) = m (indexDefKey n x)" by simp
      with None no_ownKey [OF r n new, of "indexDefKey n x"] x show ?thesis by (simp add: findIndex_sort [OF defs])
    next
      case (Some d)
      then have d: "d \<in> set defs" "idxName d = x" using findIndex_iff [OF defs] by auto
      with applyBatch_puts_mem [OF dist d(1), of encodeIndexDef] Some show ?thesis by (simp add: findIndex_sort [OF defs])
    qed
  next
    fix x v i
    assume "validName x" "validID i"
    moreover have "indexKey n x v i \<notin> ?f ` set defs" by auto
    ultimately show "?m (indexKey n x v i) =
      (if \<exists>d. aDocs ?a i = Some d \<and> (x, v) \<in> docEntries (aDefs ?a) (docJson d) then Some [] else None)"
      using no_ownKey [OF r n new, of "indexKey n x v i"] other [of "indexKey n x v i"] by simp
  qed
  moreover have "wfDB ?a" using findIndex_sort(1) [OF defs] key(1) by (simp add: wfDB_def)
  moreover have "dbKey n \<notin> ?f ` set defs" by auto
  then have "?m (dbKey n) = Some rec"
    using applyBatch_puts_other [of "dbKey n" ?f defs encodeIndexDef "m(dbKey n \<mapsto> rec)"] by simp
  moreover have "q \<noteq> dbKey n \<Longrightarrow> \<not> ownKey n q \<Longrightarrow> ?m q = m q" for q
    using names by (intro other) auto
  ultimately show ?thesis using key(2) by (intro rep_update [OF r n]) auto
qed

lemma rep_deleteDB:
  assumes r: "rep E wk m A" and a: "A n = Some a"
  shows "rep E wk (applyBatch
     [BDelete (dbKey n), BDeleteRange (docsPrefix n) (prefixEnd (docsPrefix n)),
      BDeleteRange (indexDataPrefix n) (prefixEnd (indexDataPrefix n)),
      BDeleteRange (indexDefPrefix n) (prefixEnd (indexDefPrefix n))] m) (A(n := None))"
    (is "rep E wk ?m _")
proof -
  have n: "validName n" using rep_db [OF r a] by simp
  have kinds: "docsPrefix n \<noteq> [] \<and> hd (docsPrefix n) \<noteq> 0xff" "indexDataPrefix n \<noteq> [] \<and> hd (indexDataPrefix n) \<noteq> 0xff"
    "indexDefPrefix n \<noteq> [] \<and> hd (indexDefPrefix n) \<noteq> 0xff"
    by (simp_all add: docsPrefix_def appendKey_def indexDataPrefix_def indexDefPrefix_def key_defs
        appendPart_append [of "[_]"])
  have m: "?m k = (if k = dbKey n \<or> prefix (docsPrefix n) k \<or> prefix (indexDataPrefix n) k \<or> prefix (indexDefPrefix n) k
      then None else m k)" for k
    using kinds by (simp add: delete_prefix)
  have other: "?m k = m k" if "validName n'" "n' \<noteq> n" "k = dbKey n' \<or> ownKey n' k" for n' k
    unfolding m using other_prefix [OF n that(1), of k] that ownKey_neq(1) [OF that(1) n, of k] by auto
  show ?thesis
    unfolding rep_def
  proof (intro conjI allI impI)
    show "wfState (A(n := None))" using r by (auto simp: rep_def wfState_def)
  next
    fix k
    assume k: "?m k \<noteq> None"
    then have mk: "m k \<noteq> None" and nk: "k \<noteq> dbKey n" "\<not> ownKey n k"
      unfolding m using ownKey_prefix [OF n, of k] by (auto split: if_splits)
    from mk r have "k = storeMetaKey \<or> (\<exists>n'. validName n' \<and> A n' \<noteq> None \<and> (k = dbKey n' \<or> ownKey n' k))"
      unfolding rep_def by blast
    with nk show "k = storeMetaKey \<or> (\<exists>n'. validName n' \<and> (A(n := None)) n' \<noteq> None \<and> (k = dbKey n' \<or> ownKey n' k))"
      by (metis fun_upd_other)
  next
    fix n' a'
    assume "(A(n := None)) n' = Some a'"
    then have n': "n' \<noteq> n" "A n' = Some a'" by (auto split: if_splits)
    note db = rep_db [OF r n'(2)]
    show "\<exists>v. ?m (dbKey n') = Some v \<and> unwrapDBKey E wk (dbKey n') v = Inr (aKey a')"
      using db(4) other [OF db(1) n'(1), of "dbKey n'"] by auto
    show "repDB E ?m n' a'"
      using db(3) repDB_cong [of n' ?m m E a'] other [OF db(1) n'(1)] by blast
  qed
qed

context store_api
begin

lemma makeDBRecord_cases:
  "makeDBRecord E wk pk w = Inl [] \<and> length (entropy w) < 44 \<or>
   (\<exists>rec w' k. makeDBRecord E wk pk w = Inr (rec, w') \<and> length k = 32 \<and> unwrapDBKey E wk pk rec = Inr k)"
proof (cases "44 \<le> length (entropy w)")
  case True
  let ?k = "take 32 (entropy w)" and ?w = "w\<lparr>entropy := drop 32 (entropy w)\<rparr>"
  have "randRead keySize w = Inr (?k, ?w)" using True by (simp add: randRead_def keySize_def)
  moreover have k: "length ?k = 32" "12 \<le> length (entropy ?w)" using True by simp_all
  from wrapDBKey_ok [OF wk_length this] obtain v w' where v: "wrapDBKey E wk pk ?k ?w = Inr (v, w')" by blast
  ultimately have "makeDBRecord E wk pk w = Inr (v, w')" by (simp add: makeDBRecord_def)
  with wrapDBKey_spec [OF wk_length v] k(1) show ?thesis by blast
next
  case False
  then have "makeDBRecord E wk pk w = Inl []"
    using wk_length by (auto simp: makeDBRecord_def randRead_def wrapDBKey_def format_defs newGCM_def)
  with False show ?thesis by simp
qed

lemma createDB_outcome:
  assumes r: "rep E wk (kv (pdb s)) A" and n: "validName n" and X: "X \<or> enoughRandom (wld s)"
  shows "wp (createDB E wk n defs) (outcome E kv F wk X (spec_createDB n defs) A) s"
proof -
  let ?ops = "\<lambda>rec. BSet (dbKey n) rec # map (\<lambda>def. BSet (indexDefKey n (idxName def)) (encodeIndexDef def)) defs"
  have tail: "wp (bindM (worldM (makeDBRecord E wk (dbKey n))) (\<lambda>rec. batchM E (?ops rec)))
      (outcome E kv F wk X (spec_createDB n defs) A) s" if new: "A n = None" and v: "validDefs defs"
  proof (rule wp_bind_world)
    note mc = makeDBRecord_cases [of "dbKey n" "wld s"]
    show "outcome E kv F wk X (spec_createDB n defs) A (Inl e) s" if "makeDBRecord E wk (dbKey n) (wld s) = Inl e" for e
      using that mc X by (auto intro!: fault_old [OF r] simp: faulty_def enoughRandom_def)
    fix rec w
    assume "makeDBRecord E wk (dbKey n) (wld s) = Inr (rec, w)"
    with mc obtain k where k: "length k = 32" "unwrapDBKey E wk (dbKey n) rec = Inr k" by auto
    have spec: "spec_createDB n defs A (Inr ()) (A(n \<mapsto> \<lparr>aKey = k, aDefs = sort_key idxName defs, aDocs = Map.empty\<rparr>))"
      using new v by (auto simp: spec_createDB_def)
    have r': "rep E wk (kv (pdb (s\<lparr>wld := w\<rparr>))) A" using r by simp
    have "rep E wk (applyBatch (?ops rec) (kv (pdb (s\<lparr>wld := w\<rparr>))))
        (A(n \<mapsto> \<lparr>aKey = k, aDefs = sort_key idxName defs, aDocs = Map.empty\<rparr>))"
      using rep_createDB [OF r n new v k] by simp
    from wp_batch_outcome [where s = "s\<lparr>wld := w\<rparr>" and spec = "spec_createDB n defs" and X = X, OF r' this spec]
    show "wp (batchM E (?ops rec)) (outcome E kv F wk X (spec_createDB n defs) A) (s\<lparr>wld := w\<rparr>)"
      by (rule wp_mono) (auto split: sum.splits)
  qed
  show ?thesis unfolding createDB_def
    by (rule read_step, rule okOrFault_refl, rule r, simp add: validateIndexes_cases spec_createDB_def split: if_splits,
        rule read_ok, rule hasDB_rep [OF r n], rule r)
      (auto simp: validateIndexes_cases wp_failM spec_createDB_def intro!: tail spec_old [OF r] split: if_splits)
qed

lemma deleteDB_outcome:
  assumes r: "rep E wk (kv (pdb s)) A" and n: "validName n"
  shows "wp (deleteDB E wk n) (outcome E kv F wk X (spec_deleteDB n) A) s"
proof (cases "A n")
  case None
  show ?thesis unfolding deleteDB_def
    by (rule read_ok, rule hasDB_rep [OF r n], rule r)
      (auto simp: wp_simps spec_deleteDB_def None intro!: spec_old [OF r])
next
  case (Some a)
  have spec: "spec_deleteDB n A (Inr ()) (A(n := None))" using Some by (simp add: spec_deleteDB_def)
  show ?thesis unfolding deleteDB_def
    by (rule read_ok, rule hasDB_rep [OF r n], rule r, simp only: Some option.simps simp_thms if_False,
        rule wp_mono [OF wp_batch_outcome [where s = s and spec = "spec_deleteDB n" and X = X,
            OF r rep_deleteDB [OF r Some] spec]]) (auto split: sum.splits)
qed

end

end
