(* ===== verification/Store_Create.thy ===== *)
theory Store_Create
  imports Store_Databases
begin

text \<open>
  Creation of documents under a new ID: the loop that draws another ID after a collision ends,
  and the document is stored under a fresh valid ID.
\<close>

section \<open>Errors of index values\<close>

lemma encodeIndexValue_err: "encodeIndexValue v = Inl e \<Longrightarrow> set e \<subseteq> {ErrInvalidIndexValue, ErrUnsupportedIdxValue}"
  by (cases v) (auto simp: encodeIndexValue_def result_simps split: if_splits option.splits)

lemma indexValues_err:
  assumes "indexValues doc defs = Inl e"
  shows "set e \<subseteq> {ErrInvalidDoc, ErrInvalidIndexValue}"
proof -
  have loop: "indexValues_loop r defs = Inl e \<Longrightarrow> set e \<subseteq> {ErrInvalidIndexValue}" for r
  proof (induction defs)
    case (Cons d defs)
    show ?case
    proof (cases "pointerValue r (idxPath d)")
      case None
      with Cons show ?thesis by simp
    next
      case (Some j)
      with Cons encodeIndexValue_err [of j] show ?thesis
        by (cases "encodeIndexValue j") (auto simp: result_simps split: if_splits)
    qed
  qed simp
  have root: "decodeRoot doc = Inl e' \<Longrightarrow> e' = []" for e'
    by (auto simp: decodeRoot_def split: option.splits prod.splits json.splits)
  from assms show ?thesis
    using loop root by (fastforce simp: indexValues_def result_simps ensureJSONEnd_def split: if_splits)
qed

section \<open>Creation\<close>

definition spec_createDoc :: "bytes \<Rightarrow> bytes \<Rightarrow> astate \<Rightarrow> (bytes \<times> revision) result \<Rightarrow> astate \<Rightarrow> bool" where
  "spec_createDoc n json A r A' \<longleftrightarrow>
     (case A n of None \<Rightarrow> r = Inl [ErrDBNotFound] \<and> A' = A
      | Some a \<Rightarrow>
        (case indexValues json (aDefs a) of Inl e \<Rightarrow> r = Inl e \<and> A' = A
         | Inr _ \<Rightarrow>
           if length json > maxStoredDocBytes then r = Inl [] \<and> A' = A
           else \<exists>i rv. validID i \<and> aDocs a i = None \<and> length rv = 16 \<and> r = Inr (i, rv) \<and>
             A' = putDoc A n a i (Some \<lparr>docJson = json, docRev = rv\<rparr>)))"

lemma spec_createDoc_of_ID:
  assumes "spec_createDocWithID n i json A r A'" "validID i"
  shows "r = Inl [ErrDocExists] \<and> A' = A \<and> (\<exists>a. A n = Some a \<and> aDocs a i \<noteq> None) \<or>
    spec_createDoc n json A (map_sum (\<lambda>e. e) (Pair i) r) A' \<and> (\<forall>e. r = Inl e \<longrightarrow> ErrDocExists \<notin> set e)"
proof (cases "A n")
  case None
  with assms show ?thesis by (auto simp: spec_createDocWithID_def spec_createDoc_def)
next
  case a: (Some a)
  show ?thesis
  proof (cases "aDocs a i")
    case (Some d)
    with a assms show ?thesis by (auto simp: spec_createDocWithID_def)
  next
    case None
    show ?thesis
    proof (cases "indexValues json (aDefs a)")
      case (Inl e)
      with a None assms indexValues_err [OF Inl] show ?thesis
        by (auto simp: spec_createDocWithID_def spec_createDoc_def)
    next
      case (Inr vs)
      with a None assms show ?thesis
        by (auto simp: spec_createDocWithID_def spec_createDoc_def split: if_splits)
    qed
  qed
qed

text \<open>Enough randomness to create a document at the first attempt.\<close>

definition freshID :: "bytes \<Rightarrow> astate \<Rightarrow> world \<Rightarrow> bool" where
  "freshID n A w \<longleftrightarrow>
     (case makeID w of Inl _ \<Rightarrow> False
      | Inr (i, w') \<Rightarrow> enoughRandom w' \<and> (case A n of None \<Rightarrow> True | Some a \<Rightarrow> aDocs a i = None))"

lemma makeID_Inl: "makeID w = Inl e \<Longrightarrow> e = []"
  by (auto simp: makeID_def randRead_def result_simps Let_def split: if_splits prod.splits)

context store_api
begin

lemma faulty_no_exists: "faulty F X e \<Longrightarrow> ErrDocExists \<notin> set e"
  using fault_sentinels [of e] by (auto simp: faulty_def)

lemma createDoc_step:
  assumes o: "outcome E kv F wk X (spec_createDocWithID n i json) A r s'" and i: "validID i"
  shows "r = Inl [ErrDocExists] \<and> rep E wk (kv (pdb s')) A \<and> (\<exists>a. A n = Some a \<and> aDocs a i \<noteq> None) \<or>
    outcome E kv F wk X (spec_createDoc n json) A (map_sum (\<lambda>e. e) (Pair i) r) s' \<and>
    (\<forall>e. r = Inl e \<longrightarrow> ErrDocExists \<notin> set e)"
proof -
  from o obtain A' where A': "rep E wk (kv (pdb s')) A'" and
    c: "spec_createDocWithID n i json A r A' \<or>
      (\<exists>e. r = Inl e \<and> faulty F X e \<and> (A' = A \<or> (\<exists>a. spec_createDocWithID n i json A (Inr a) A')))"
    by (auto simp: outcome_def)
  from c show ?thesis
  proof (elim disjE exE conjE)
    assume "spec_createDocWithID n i json A r A'"
    from spec_createDoc_of_ID [OF this i] A' show ?thesis by (auto intro: outcomeI)
  next
    fix e
    assume "r = Inl e" "faulty F X e" "A' = A"
    then show ?thesis using A' faulty_no_exists [of X e] by (auto intro: outcome_fault)
  next
    fix e a
    assume e: "r = Inl e" "faulty F X e" and "spec_createDocWithID n i json A (Inr a) A'"
    from spec_createDoc_of_ID [OF this(3) i] have "spec_createDoc n json A (Inr (i, a)) A'" by auto
    with e A' show ?thesis using faulty_no_exists [of X e] by (auto intro: outcome_fault_new)
  qed
qed

lemma createDoc_outcome:
  assumes "rep E wk (kv (pdb s)) A" "validName n" "X \<or> freshID n A (wld s)" "createDoc E wk n json s = (r, s')"
  shows "outcome E kv F wk X (spec_createDoc n json) A r s'"
  using assms(1,3,4)
proof (induction "left s" arbitrary: s r s' rule: less_induct)
  case less
  note r = less.prems(1)
  show ?case
  proof (cases "makeID (wld s)")
    case (Inl e)
    with less.prems makeID_Inl [OF Inl] show ?thesis
      by (auto simp: createDoc.simps [of E wk n json s] freshID_def faulty_def intro!: outcome_fault)
  next
    case (Inr p)
    then obtain i w where m: "makeID (wld s) = Inr (i, w)" by (cases p) auto
    obtain r1 s1 where c: "createDocWithID E wk n i json (s\<lparr>wld := w\<rparr>) = (r1, s1)" by fastforce
    have X: "X \<or> enoughRandom (wld (s\<lparr>wld := w\<rparr>))" using less.prems(2) m by (auto simp: freshID_def)
    have "outcome E kv F wk X (spec_createDocWithID n i json) A r1 s1"
      using wpD [OF createDocWithID_outcome [OF _ assms(2) makeID_validID [OF m] X, of A] c] r by simp
    from createDoc_step [OF this makeID_validID [OF m]] show ?thesis
    proof (elim disjE conjE exE)
      fix a
      assume e: "r1 = Inl [ErrDocExists]" and r1: "rep E wk (kv (pdb s1)) A" and a: "A n = Some a" "aDocs a i \<noteq> None"
      have X: "X \<or> freshID n A (wld s1)" using less.prems(2) m a by (auto simp: freshID_def)
      have "createDoc E wk n json s1 = (r, s')"
        using less.prems(3) m c e by (simp add: createDoc.simps [of E wk n json s])
      with less.hyps [OF createDoc_decreases [OF c m] r1 X] show ?thesis by simp
    next
      assume o: "outcome E kv F wk X (spec_createDoc n json) A (map_sum (\<lambda>e. e) (Pair i) r1) s1"
        and ne: "\<forall>e. r1 = Inl e \<longrightarrow> ErrDocExists \<notin> set e"
      have "(r, s') = (map_sum (\<lambda>e. e) (Pair i) r1, s1)"
        using less.prems(3) m c ne by (cases r1) (auto simp: createDoc.simps [of E wk n json s])
      with o show ?thesis by simp
    qed
  qed
qed

end

section \<open>The IDs and revisions that are drawn\<close>

text \<open>The ID of the attempt with this number, counted from zero, and the world after it.\<close>

fun drawID :: "nat \<Rightarrow> world \<Rightarrow> (bytes \<times> world) result" where
  "drawID 0 w = makeID w"
| "drawID (Suc k) w = bindE (makeID w) (\<lambda>(_, w'). drawID k w')"

lemma makeRevision_first: "makeRevision None w = randRead 16 w"
  by (subst makeRevision.simps) (auto split: sum.splits)

lemma createDocWithID_revision:
  assumes "createDocWithID E wk n i json s = (Inr rv, s')"
  shows "16 \<le> length (entropy (wld s)) \<and> rv = take 16 (entropy (wld s))"
proof -
  have "wp (createDocWithID E wk n i json)
      (\<lambda>r _. \<forall>rv. r = Inr rv \<longrightarrow> 16 \<le> length (entropy (wld s)) \<and> rv = take 16 (entropy (wld s))) s"
    unfolding createDocWithID_def batchM_def Let_def makeRevision_first
    by (auto simp: wp_simps randRead_def result_simps split: sum.splits)
  with assms show ?thesis by (simp add: wp_def)
qed

text \<open>
  The attempt number \<open>k\<close> has the ID \<open>i\<close> and the revision \<open>rv\<close>: the revision is made of the next 16
  random bytes, and the IDs of all attempts before it are taken.
\<close>

definition drawn :: "bytes \<Rightarrow> astate \<Rightarrow> world \<Rightarrow> nat \<Rightarrow> bytes \<Rightarrow> revision \<Rightarrow> bool" where
  "drawn n A w k i rv \<longleftrightarrow>
     (\<exists>w'. drawID k w = Inr (i, w') \<and> 16 \<le> length (entropy w') \<and> rv = take 16 (entropy w')) \<and>
     (\<forall>j < k. \<exists>i' w'. drawID j w = Inr (i', w') \<and> (\<exists>a. A n = Some a \<and> aDocs a i' \<noteq> None))"

lemma drawn_Suc:
  assumes "makeID w = Inr (i1, w1)" "A n = Some a" "aDocs a i1 \<noteq> None" "drawn n A w1 k i rv"
  shows "drawn n A w (Suc k) i rv"
proof -
  have "drawID (Suc j) w = drawID j w1" for j using assms(1) by simp
  then show ?thesis using assms unfolding drawn_def by (auto simp: less_Suc_eq_0_disj simp del: drawID.simps(2))
qed

context store_api
begin

lemma createDocWithID_taken_state:
  assumes "rep E wk (kv (pdb s)) A" "validName n" "validID i" "A n = Some a" "aDocs a i \<noteq> None"
  shows "snd (createDocWithID E wk n i json s) = s"
proof -
  have "okOrFault F (has E (docKey n i) (pdb s)) (Inr True)"
    using has_rep [of "docKey n i" "pdb s"] rep_docKey [OF assms(1,4,3)] assms(5) by simp
  then have "\<exists>e. has E (docKey n i) (pdb s) = Inl e \<or> has E (docKey n i) (pdb s) = Inr True" by (auto simp: okOrFault_def)
  then show ?thesis
    by (auto simp: createDocWithID_def bindM_def readM_def failM_def Let_def split: sum.splits)
qed

lemma createDoc_drawn:
  assumes "rep E wk (kv (pdb s)) A" "validName n" "createDoc E wk n json s = (Inr (i, rv), s')"
  shows "\<exists>k. drawn n A (wld s) k i rv"
  using assms(1,3)
proof (induction "left s" arbitrary: s rule: less_induct)
  case less
  from less.prems(2) obtain i1 w1 where m: "makeID (wld s) = Inr (i1, w1)"
    by (cases "makeID (wld s)") (auto simp: createDoc.simps [of E wk n json s])
  obtain r1 s1 where c: "createDocWithID E wk n i1 json (s\<lparr>wld := w1\<rparr>) = (r1, s1)" by fastforce
  note v = makeID_validID [OF m]
  have rp: "rep E wk (kv (pdb (s\<lparr>wld := w1\<rparr>))) A" using less.prems(1) by simp
  from createDoc_step [OF wpD [OF createDocWithID_outcome [OF rp assms(2) v disjI1 [OF TrueI]] c] v] show ?case
  proof (elim disjE conjE exE)
    fix a
    assume e: "r1 = Inl [ErrDocExists]" "rep E wk (kv (pdb s1)) A" and a: "A n = Some a" "aDocs a i1 \<noteq> None"
    have s1: "s1 = s\<lparr>wld := w1\<rparr>" using createDocWithID_taken_state [OF rp assms(2) v a, of json] c by simp
    have "createDoc E wk n json s1 = (Inr (i, rv), s')"
      using less.prems(2) m c e by (simp add: createDoc.simps [of E wk n json s])
    from less.hyps [OF createDoc_decreases [OF c m] e(2) this] obtain k where "drawn n A w1 k i rv" by (auto simp: s1)
    with drawn_Suc [of "wld s" i1 w1 A n a] m a show ?thesis by blast
  next
    assume ne: "\<forall>e. r1 = Inl e \<longrightarrow> ErrDocExists \<notin> set e"
    have "r1 = Inr rv \<and> i = i1"
      using less.prems(2) m c ne by (cases r1) (auto simp: createDoc.simps [of E wk n json s])
    with createDocWithID_revision [of E wk n i1 json "s\<lparr>wld := w1\<rparr>" rv s1] c m show ?thesis
      by (intro exI [of _ 0]) (auto simp: drawn_def)
  qed
qed

end

end
