(* ===== verification/Import_Laws.thy ===== *)
theory Import_Laws
  imports Store_Create
begin

text \<open>
  Bulk import: all documents are written in one batch, under distinct fresh IDs, or none.
\<close>

section \<open>What an import does\<close>

fun importInto :: "astate \<Rightarrow> bytes \<Rightarrow> (bytes \<times> bytes \<times> revision) list \<Rightarrow> astate" where
  "importInto A n [] = A"
| "importInto A n ((document, docID, rv) # rest) =
     importInto (putDoc A n (the (A n)) docID (Some \<lparr>docJson = document, docRev = rv\<rparr>)) n rest"

definition spec_import :: "bytes \<Rightarrow> bytes list \<Rightarrow> astate \<Rightarrow> bytes list \<Rightarrow> astate \<Rightarrow> bool" where
  "spec_import n documents A ids A' \<longleftrightarrow>
     (\<exists>a revisions. A n = Some a \<and> length ids = length documents \<and> length revisions = length documents \<and>
        distinct ids \<and> (\<forall>i \<in> set ids. validID i \<and> aDocs a i = None) \<and> (\<forall>rv \<in> set revisions. length rv = 16) \<and>
        A' = importInto A n (zip documents (zip ids revisions)))"

text \<open>
  An import leaves the old state or the state with all documents; the latter when it succeeds,
  and otherwise only when Pebble reports a fault.
\<close>

definition importOutcome ::
  "'db services \<Rightarrow> ('db \<Rightarrow> bytes \<rightharpoonup> bytes) \<Rightarrow> (perr \<Rightarrow> bool) \<Rightarrow> bytes \<Rightarrow> bytes \<Rightarrow> bytes list \<Rightarrow> astate \<Rightarrow>
   bytes list result \<Rightarrow> 'db sys \<Rightarrow> bool" where
  "importOutcome E kv F wk n documents A res s' \<longleftrightarrow>
     (\<exists>A'. rep E wk (kv (pdb s')) A' \<and>
        (case res of Inr ids \<Rightarrow> spec_import n documents A ids A'
         | Inl e \<Rightarrow> A' = A \<or> (faulty F False e \<and> (\<exists>ids. spec_import n documents A ids A'))))"

section \<open>Identifiers\<close>

lemma makeImportIDs_loop_props:
  assumes "makeImportIDs_loop c ids rvs w = Inr ((ids', rvs'), w')"
    "length ids \<le> c" "length rvs = length ids" "distinct ids" "\<forall>i \<in> set ids. validID i" "\<forall>rv \<in> set rvs. length rv = 16"
  shows "length ids' = c \<and> length rvs' = c \<and> distinct ids' \<and> (\<forall>i \<in> set ids'. validID i) \<and> (\<forall>rv \<in> set rvs'. length rv = 16)"
  using assms
proof (induction c ids rvs w rule: makeImportIDs_loop.induct)
  case (1 c ids rvs w)
  show ?case
  proof (cases "length ids < c")
    case False
    with "1.prems" show ?thesis by (simp add: makeImportIDs_loop.simps [of c ids])
  next
    case True
    then obtain i w1 where m: "makeID w = Inr (i, w1)"
      using "1.prems"(1) by (auto simp: makeImportIDs_loop.simps [of c ids] split: sum.splits)
    show ?thesis
    proof (cases "i \<in> set ids")
      case i: True
      then have "makeImportIDs_loop c ids rvs w1 = Inr ((ids', rvs'), w')"
        using "1.prems"(1) True m by (simp add: makeImportIDs_loop.simps [of c ids rvs w])
      with "1.IH"(1) [OF _ m refl] True i "1.prems" show ?thesis by simp
    next
      case i: False
      then obtain rv w2 where rv: "makeRevision None w1 = Inr (rv, w2)"
        using "1.prems"(1) True m by (auto simp: makeImportIDs_loop.simps [of c ids rvs w] split: sum.splits)
      with i True m "1.prems"(1) have "makeImportIDs_loop c (ids @ [i]) (rvs @ [rv]) w2 = Inr ((ids', rvs'), w')"
        by (simp add: makeImportIDs_loop.simps [of c ids rvs w])
      moreover have "length rv = 16" using makeRevision_cases [of None w1] rv by auto
      ultimately show ?thesis
        using True i "1.prems" makeID_validID [OF m] by (intro "1.IH"(2) [OF _ m refl _ rv refl]) auto
    qed
  qed
qed

context store_api
begin

lemma hasAnyDoc_none: "hasAnyDoc E n ids db = Inr False \<Longrightarrow> i \<in> set ids \<Longrightarrow> kv db (docKey n i) = None"
proof (induction ids)
  case (Cons j ids)
  with has_rep [of "docKey n j" db] show ?case
    by (auto simp: okOrFault_def result_simps split: if_splits)
qed simp

lemma importIDs_props:
  assumes "importIDs E n c s = (r, s')"
  shows "pdb s' = pdb s" "r = Inr (ids, rvs) \<Longrightarrow> length ids = c \<and> length rvs = c \<and> distinct ids \<and>
    (\<forall>i \<in> set ids. validID i \<and> kv (pdb s) (docKey n i) = None) \<and> (\<forall>rv \<in> set rvs. length rv = 16)"
proof -
  have "pdb s' = pdb s \<and> (\<forall>ids rvs. r = Inr (ids, rvs) \<longrightarrow> length ids = c \<and> length rvs = c \<and> distinct ids \<and>
    (\<forall>i \<in> set ids. validID i \<and> kv (pdb s) (docKey n i) = None) \<and> (\<forall>rv \<in> set rvs. length rv = 16))"
    using assms
  proof (induction "left s" arbitrary: s rule: less_induct)
    case less
    show ?case
    proof (cases "makeImportIDs c (wld s)")
      case (Inl e)
      with less.prems show ?thesis by (auto simp: importIDs.simps [of E n c s])
    next
      case (Inr p)
      then obtain ids1 rvs1 w where m: "makeImportIDs c (wld s) = Inr ((ids1, rvs1), w)" by (metis prod.collapse)
      note props = makeImportIDs_loop_props [OF m [unfolded makeImportIDs_def]]
      show ?thesis
      proof (cases "hasAnyDoc E n ids1 (pdb s)")
        case (Inl e)
        with less.prems m show ?thesis by (auto simp: importIDs.simps [of E n c s])
      next
        case h: (Inr b)
        show ?thesis
        proof (cases b)
          case True
          with h m less.prems have "importIDs E n c (s\<lparr>wld := w\<rparr>) = (r, s')" by (simp add: importIDs.simps [of E n c s])
          moreover have "left (s\<lparr>wld := w\<rparr>) < left s" using import_decreases [OF _ m] h True by (simp add: left_def)
          ultimately show ?thesis using less.hyps [of "s\<lparr>wld := w\<rparr>"] by simp
        next
          case False
          with h m less.prems have "r = Inr (ids1, rvs1)" "s' = s\<lparr>wld := w\<rparr>" by (auto simp: importIDs.simps [of E n c s])
          with props hasAnyDoc_none [of n ids1 "pdb s"] h False show ?thesis by auto
        qed
      qed
    qed
  qed
  then show "pdb s' = pdb s" "r = Inr (ids, rvs) \<Longrightarrow> length ids = c \<and> length rvs = c \<and> distinct ids \<and>
    (\<forall>i \<in> set ids. validID i \<and> kv (pdb s) (docKey n i) = None) \<and> (\<forall>rv \<in> set rvs. length rv = 16)" by auto
qed

section \<open>The batch\<close>

lemma importFill_step:
  assumes "importFill E n dk defs ctx mx j batch ((document, docID, rv) # rest) s = (res, s')"
  shows "(\<exists>e. res = Inl e) \<and> pdb s' = pdb s \<or>
    (\<exists>vs rec w. indexValues document defs = Inr vs \<and>
       sealDoc E (docKey n docID) dk docID rv document (wld s) = Inr (rec, w) \<and>
       importFill E n dk defs ctx mx (j + 1) (batch @ BSet (docKey n docID) rec # setIndexEntries n docID vs) rest
         (s\<lparr>wld := w\<rparr>) = (res, s'))"
proof (cases "indexValues document defs")
  case (Inl e)
  with assms show ?thesis by (auto simp: bindM_def readM_def failM_def split: option.splits)
next
  case vs: (Inr vs)
  show ?thesis
  proof (cases "sealDoc E (docKey n docID) dk docID rv document (wld s)")
    case (Inl e)
    with vs assms show ?thesis by (auto simp: bindM_def readM_def worldM_def failM_def Let_def split: option.splits)
  next
    case (Inr q)
    then obtain rec w where q: "sealDoc E (docKey n docID) dk docID rv document (wld s) = Inr (rec, w)" by (cases q) auto
    show ?thesis
    proof (cases "queueAll E batch (BSet (docKey n docID) rec # setIndexEntries n docID vs)")
      case (Inl e)
      with vs q assms have "(res = Inl e \<or> res = Inl (the (ctx j))) \<and> pdb s' = pdb s"
        by (cases "ctx j") (auto simp: bindM_def readM_def worldM_def failM_def Let_def simp del: queueAll.simps)
      then show ?thesis by blast
    next
      case (Inr b)
      from queueAll_Inr [OF this] Inr vs q assms show ?thesis
        by (auto simp: bindM_def readM_def worldM_def failM_def Let_def simp del: queueAll.simps split: option.splits if_splits)
    qed
  qed
qed

lemma importFill_pdb: "importFill E n dk defs ctx mx j batch items s = (r, s') \<Longrightarrow> pdb s' = pdb s"
proof (induction items arbitrary: j batch s)
  case (Cons it items)
  obtain d i rv where it: "it = (d, i, rv)" by (cases it) auto
  from importFill_step [OF Cons.prems [unfolded it]] show ?case
    using Cons.IH by fastforce
qed (simp add: returnM_def)

text \<open>The batch that an import fills takes a represented state to the state with the documents.\<close>

lemma importFill_rep:
  assumes "importFill E n dk defs ctx mx j batch items s = (Inr b, s')"
    "rep E wk (applyBatch batch m) A" "A n = Some a" "aKey a = dk" "aDefs a = defs"
    "distinct (map (\<lambda>(_, i, _). i) items)"
    "\<forall>(_, i, rv) \<in> set items. validID i \<and> aDocs a i = None \<and> length rv = 16"
  shows "rep E wk (applyBatch b m) (importInto A n items)"
  using assms
proof (induction items arbitrary: j batch s A a)
  case (Cons it items)
  obtain d i rv where it: "it = (d, i, rv)" by (cases it) auto
  from importFill_step [OF Cons.prems(1) [unfolded it]] obtain vs rec w where
    vs: "indexValues d defs = Inr vs" and rec: "sealDoc E (docKey n i) dk i rv d (wld s) = Inr (rec, w)" and
    rest: "importFill E n dk defs ctx mx (j + 1) (batch @ BSet (docKey n i) rec # setIndexEntries n i vs) items (s\<lparr>wld := w\<rparr>) = (Inr b, s')"
    by auto
  have i: "validID i" "aDocs a i = None" "length rv = 16" using Cons.prems(7) it by auto
  have new: "rep E wk (applyBatch (batch @ BSet (docKey n i) rec # setIndexEntries n i vs) m)
      (putDoc A n a i (Some \<lparr>docJson = d, docRev = rv\<rparr>))"
    unfolding applyBatch_simps(3)
    by (rule rep_create [OF Cons.prems(2,3) i(1,2) _ i(3)])
      (use vs Cons.prems(4,5) openDoc_sealDoc [OF rec i(3)] in auto)
  have "rep E wk (applyBatch b m) (importInto (putDoc A n a i (Some \<lparr>docJson = d, docRev = rv\<rparr>)) n items)"
    by (rule Cons.IH [OF rest new, of "a\<lparr>aDocs := (aDocs a)(i \<mapsto> \<lparr>docJson = d, docRev = rv\<rparr>)\<rparr>"])
      (use Cons.prems(4-7) it in \<open>force simp: putDoc_def\<close>)+
  with it Cons.prems(3) show ?case by simp
qed (simp add: returnM_def)

section \<open>Imports\<close>

lemma importItems:
  assumes "rep E wk m A" "A n = Some a" "length ids = c \<and> length rvs = c \<and> distinct ids \<and>
    (\<forall>i \<in> set ids. validID i \<and> m (docKey n i) = None) \<and> (\<forall>rv \<in> set rvs. length rv = 16)"
  shows "distinct (map (\<lambda>(_, i, _). i) (zip documents (zip ids rvs)))"
    "\<forall>(_, i, rv) \<in> set (zip documents (zip ids rvs)). validID i \<and> aDocs a i = None \<and> length rv = 16"
proof -
  have "map (\<lambda>(_, i, _). i) (zip documents (zip ids rvs)) = take (length documents) ids"
    using assms(3) by (auto intro!: nth_equalityI)
  with assms(3) show "distinct (map (\<lambda>(_, i, _). i) (zip documents (zip ids rvs)))" by simp
  show "\<forall>(_, i, rv) \<in> set (zip documents (zip ids rvs)). validID i \<and> aDocs a i = None \<and> length rv = 16"
    using assms(3) rep_docKey [OF assms(1,2)] by (force elim!: in_set_zipE)
qed

lemma importRun:
  assumes r: "rep E wk (kv (pdb s)) A" and a: "A n = Some a" "dk = aKey a" "defs = aDefs a"
  shows "wp (bindM (importIDs E n (length documents)) (\<lambda>(ids, revisions).
        deferM (batchClose E)
         (bindM (importFill E n dk defs ctx mx 0 [] (zip documents (zip ids revisions))) (\<lambda>batch.
          case ctx (length documents) of Some e \<Rightarrow> failM e
          | None \<Rightarrow> bindM (commitM E batch) (\<lambda>_. returnM ids)))))
    (importOutcome E kv F wk n documents A) s"
proof -
  have old: "importOutcome E kv F wk n documents A (joinClose c (Inl e)) s'" if "pdb s' = pdb s" for c e s'
    using r that by (auto simp: importOutcome_def joinClose_def split: option.splits)
  obtain r1 s1 where ids: "importIDs E n (length documents) s = (r1, s1)" by fastforce
  note p1 = importIDs_props [OF ids]
  show ?thesis
  proof (cases r1)
    case (Inl e)
    then show ?thesis using ids old [OF p1(1), of None e] by (simp add: bindM_def wp_def)
  next
    case (Inr q)
    obtain ids' rvs where q: "r1 = Inr (ids', rvs)" using Inr by (cases q) auto
    let ?items = "zip documents (zip ids' rvs)"
    obtain r2 s2 where fill: "importFill E n dk defs ctx mx 0 [] ?items s1 = (r2, s2)" by fastforce
    have s2: "pdb s2 = pdb s" using importFill_pdb [OF fill] p1(1) by simp
    note items = importItems [OF r a(1) p1(2) [OF q], of documents]
    show ?thesis
    proof (cases r2)
      case (Inl e)
      then show ?thesis using ids q fill old [OF s2] by (simp add: bindM_def deferM_def wp_def)
    next
      case b: (Inr b)
      have new: "rep E wk (applyBatch b (kv (pdb s))) (importInto A n ?items)"
        using importFill_rep [OF fill [unfolded b], where A = A and a = a] r a items by simp
      have spec: "spec_import n documents A ids' (importInto A n ?items)"
        unfolding spec_import_def using p1(2) [OF q] a(1) rep_docKey [OF r a(1)] by blast
      show ?thesis
      proof (cases "ctx (length documents)")
        case (Some e)
        then show ?thesis using ids q fill b old [OF s2] by (simp add: bindM_def deferM_def wp_def failM_def)
      next
        case None
        have "wp (commitM E b) (\<lambda>res s'. importOutcome E kv F wk n documents A
            (joinClose (batchClose E (pdb s')) (map_sum (\<lambda>e. e) (\<lambda>_. ids') res)) s') s2"
        proof (rule wp_commit)
          fix db'
          assume "kv db' = applyBatch b (kv (pdb s2))"
          then show "importOutcome E kv F wk n documents A
            (joinClose (batchClose E (pdb (s2\<lparr>pdb := db'\<rparr>))) (map_sum (\<lambda>e. e) (\<lambda>_. ids') (Inr ()))) (s2\<lparr>pdb := db'\<rparr>)"
            using new spec s2 batchClose_fault [of db'] faulty_wrapStore [of F _ False]
            by (auto simp: importOutcome_def joinClose_def split: option.splits)
        next
          fix db' e
          assume "kv db' = applyBatch b (kv (pdb s2)) \<or> kv db' = kv (pdb s2)" "faulty F False e"
          then show "importOutcome E kv F wk n documents A
            (joinClose (batchClose E (pdb (s2\<lparr>pdb := db'\<rparr>))) (map_sum (\<lambda>e. e) (\<lambda>_. ids') (Inl e))) (s2\<lparr>pdb := db'\<rparr>)"
            using r new spec s2 batchClose_fault [of db'] faulty_append [of F e]
            by (auto simp: importOutcome_def joinClose_def split: option.splits)
        qed
        then show ?thesis using ids q fill b None
          by (auto simp: deferM_def wp_def returnM_def bindM_def split: prod.splits sum.splits)
      qed
    qed
  qed
qed

lemma importDocs_rep:
  assumes r: "rep E wk (kv (pdb s)) A" and n: "validName n" and run: "importDocs E wk ctx n documents mx s = (res, s')"
  shows "importOutcome E kv F wk n documents A res s'"
proof -
  have "wp (importDocs E wk ctx n documents mx) (importOutcome E kv F wk n documents A) s"
    (is "wp _ ?Q s") unfolding importDocs_def
  proof (rule wp_bind_read, rule databaseKey_rep [OF r n])
    fix dk
    assume "(case A n of None \<Rightarrow> Inl [ErrDBNotFound] | Some a \<Rightarrow> Inr (aKey a)) = Inr dk"
    then obtain a where a: "A n = Some a" "dk = aKey a" by (auto split: option.splits)
    show "wp (bindM (readM (indexes E n)) (\<lambda>defs. bindM (importIDs E n (length documents)) (\<lambda>(ids, revisions).
      deferM (batchClose E)
       (bindM (importFill E n dk defs ctx mx 0 [] (zip documents (zip ids revisions))) (\<lambda>batch.
        case ctx (length documents) of Some e \<Rightarrow> failM e
        | None \<Rightarrow> bindM (commitM E batch) (\<lambda>_. returnM ids)))))) ?Q s"
    proof (rule wp_bind_read, rule indexes_rep [OF r a(1)])
      fix defs
      assume "Inr (aDefs a) = (Inr defs :: indexDef list result)"
      then have defs: "defs = aDefs a" by simp
      show "wp (bindM (importIDs E n (length documents)) (\<lambda>(ids, revisions).
        deferM (batchClose E)
         (bindM (importFill E n dk defs ctx mx 0 [] (zip documents (zip ids revisions))) (\<lambda>batch.
          case ctx (length documents) of Some e \<Rightarrow> failM e
          | None \<Rightarrow> bindM (commitM E batch) (\<lambda>_. returnM ids))))) ?Q s"
        by (rule importRun [OF r a(1)]) (simp_all add: a(2) defs)
    qed (use r in \<open>auto simp: importOutcome_def\<close>)
  qed (use r in \<open>auto simp: importOutcome_def\<close>)
  from wpD [OF this run] show ?thesis .
qed

end

end
