(* ===== verification/Meta_Laws.thy ===== *)
theory Meta_Laws
  imports Import_Laws
begin

text \<open>
  No operation of a running store touches the record that verifies the master key.
\<close>

definition spares :: "bop \<Rightarrow> bool" where
  "spares q \<longleftrightarrow> (case q of BSet k _ \<Rightarrow> k \<noteq> storeMetaKey | BDelete k \<Rightarrow> k \<noteq> storeMetaKey | BDeleteRange lo _ \<Rightarrow> storeMetaKey < lo)"

lemma spares_apply: "\<forall>q \<in> set ops. spares q \<Longrightarrow> applyBatch ops m storeMetaKey = m storeMetaKey"
proof (induction ops arbitrary: m)
  case (Cons q ops)
  have "applyOp q m storeMetaKey = m storeMetaKey"
    using Cons.prems by (cases "(q, m)" rule: applyOp.cases) (auto simp: spares_def)
  with Cons show ?case by simp
qed simp

lemma meta_below: "hd p \<noteq> 0 \<Longrightarrow> p \<noteq> [] \<Longrightarrow> storeMetaKey < p"
  by (cases p) (simp_all add: storeMetaKey_def word_gt_0)

lemma spares_ops:
  "spares (BSet (dbKey n) v)" "spares (BSet (docKey n i) v)" "spares (BDelete (dbKey n))" "spares (BDelete (docKey n i))"
  "spares (BSet (indexDefKey n x) v)" "spares (BDeleteRange (docsPrefix n) hi)" "spares (BDeleteRange (indexDataPrefix n) hi)"
  "spares (BDeleteRange (indexDefPrefix n) hi)" "q \<in> set (setIndexEntries n i vs) \<Longrightarrow> spares q"
  "q \<in> set (changeIndexEntries n i vs ws) \<Longrightarrow> spares q" "q \<in> set (deleteIndexEntries n i vs) \<Longrightarrow> spares q"
  by (auto simp: spares_def setIndexEntries_def changeIndexEntries_def deleteIndexEntries_def intro!: meta_below)

definition metaKept :: "('db \<Rightarrow> bytes \<rightharpoonup> bytes) \<Rightarrow> ('db, 'a) op \<Rightarrow> bool" where
  "metaKept kv m \<longleftrightarrow> (\<forall>s. kv (pdb (snd (m s))) storeMetaKey = kv (pdb s) storeMetaKey)"

lemma metaKept_basic [intro!]: "metaKept kv (returnM a)" "metaKept kv (failM e)" "metaKept kv (readM f)" "metaKept kv (worldM g)"
  by (auto simp: metaKept_def returnM_def failM_def readM_def worldM_def split: sum.splits)

lemma metaKept_bindM [intro!]: "metaKept kv m \<Longrightarrow> (\<And>a. metaKept kv (f a)) \<Longrightarrow> metaKept kv (bindM m f)"
  unfolding metaKept_def bindM_def by (auto split: prod.splits sum.splits) (metis snd_conv)+

lemma metaKept_deferM [intro!]: "metaKept kv m \<Longrightarrow> metaKept kv (deferM c m)"
  unfolding metaKept_def deferM_def by (auto split: prod.splits) (metis snd_conv)

context pebble_api
begin

lemma metaKept_commitM: "\<forall>q \<in> set b. spares q \<Longrightarrow> metaKept kv (commitM E b)"
  unfolding metaKept_def commitM_def
  by (auto split: prod.splits dest!: batchCommit_kv simp: spares_apply)

lemma metaKept_batchM [intro!]:
  assumes "\<forall>q \<in> set ops. spares q"
  shows "metaKept kv (batchM E ops)"
proof -
  have "kv (pdb (snd (bindM (readM (\<lambda>_. queueAll E [] ops)) (commitM E) s))) storeMetaKey = kv (pdb s) storeMetaKey" for s
  proof (cases "queueAll E [] ops")
    case (Inr b)
    with queueAll_Inr [OF Inr] metaKept_commitM [OF assms] show ?thesis by (simp add: bindM_def readM_def metaKept_def)
  qed (simp add: bindM_def readM_def)
  then show ?thesis unfolding batchM_def by (intro metaKept_deferM) (simp add: metaKept_def)
qed

lemma metaKept_databases: "metaKept kv (createDB E wk n defs)" "metaKept kv (deleteDB E wk n)"
  unfolding createDB_def deleteDB_def by (auto simp: spares_ops)

lemma metaKept_documents:
  "metaKept kv (createDocWithID E wk n i json)" "metaKept kv (replaceDoc E wk n i json match)"
  "metaKept kv (patchDoc E wk n i match apply)" "metaKept kv (deleteDoc E wk n i match)"
  unfolding createDocWithID_def replaceDoc_def patchDoc_def deleteDoc_def Let_def by (auto simp: spares_ops)

lemma metaKept_createDoc: "metaKept kv (createDoc E wk n json)"
proof -
  have k: "createDocWithID E wk n i json s1 = (r, s2) \<Longrightarrow> kv (pdb s2) storeMetaKey = kv (pdb s1) storeMetaKey" for i s1 r s2
    using metaKept_documents(1) [of wk n i json] by (metis metaKept_def snd_conv)
  have "kv (pdb (snd (createDoc E wk n json s))) storeMetaKey = kv (pdb s) storeMetaKey" for s
  proof (induction s rule: measure_induct_rule [of left])
    case (less s)
    show ?case
    proof (cases "makeID (wld s)")
      case (Inr p)
      obtain i w where p: "p = (i, w)" by fastforce
      obtain r s2 where c: "createDocWithID E wk n i json (s\<lparr>wld := w\<rparr>) = (r, s2)" by fastforce
      from k [OF c] less.IH [OF createDoc_decreases [OF c Inr [unfolded p]]] Inr p c show ?thesis
        by (subst createDoc.simps) (auto split: sum.splits)
    qed (subst createDoc.simps, simp)
  qed
  then show ?thesis by (simp add: metaKept_def)
qed

end

lemma importIDs_pdb: "pdb (snd (importIDs E n count s)) = pdb s"
proof (induction E n count s rule: importIDs.induct)
  case (1 E n count s)
  then show ?case by (subst importIDs.simps) (auto split: sum.splits prod.splits)
qed

context store_api
begin

lemma importFill_spares:
  "importFill E n dk defs ctx mx j batch items s = (Inr b, s') \<Longrightarrow> \<forall>q \<in> set batch. spares q \<Longrightarrow> \<forall>q \<in> set b. spares q"
proof (induction items arbitrary: j batch s)
  case (Cons x items)
  obtain document docID rv where x: "x = (document, docID, rv)" by (cases x) auto
  from importFill_step [OF Cons.prems(1) [unfolded x]] Cons.IH Cons.prems(2) show ?case
    by (fastforce simp: spares_ops)
qed (simp add: returnM_def)

lemma metaKept_importDocs: "metaKept kv (importDocs E k ctx n documents mx)"
proof -
  have i: "metaKept kv (importIDs E n count)" for count by (simp add: metaKept_def importIDs_pdb)
  have f: "metaKept kv (bindM (importFill E n dk defs ctx mx 0 [] items) (\<lambda>batch.
        case ctx (length documents) of Some e \<Rightarrow> failM e | None \<Rightarrow> bindM (commitM E batch) (\<lambda>_. returnM ids)))" for dk defs items ids
    unfolding metaKept_def
  proof
    fix s
    obtain r s1 where run: "importFill E n dk defs ctx mx 0 [] items s = (r, s1)" by fastforce
    note p = importFill_pdb [OF run]
    show "kv (pdb (snd (bindM (importFill E n dk defs ctx mx 0 [] items) (\<lambda>batch.
        case ctx (length documents) of Some e \<Rightarrow> failM e | None \<Rightarrow> bindM (commitM E batch) (\<lambda>_. returnM ids)) s))) storeMetaKey =
      kv (pdb s) storeMetaKey"
    proof (cases r)
      case (Inr b)
      from importFill_spares [OF run [unfolded Inr]] have "metaKept kv (bindM (commitM E b) (\<lambda>_. returnM ids))"
        by (intro metaKept_bindM metaKept_commitM metaKept_basic) simp
      with run Inr p show ?thesis by (auto simp: bindM_def [of "importFill _ _ _ _ _ _ _ _ _"] metaKept_def failM_def split: option.splits)
    qed (use run p in \<open>simp add: bindM_def\<close>)
  qed
  show ?thesis unfolding importDocs_def
    by (intro metaKept_bindM metaKept_basic i) (simp add: split_beta metaKept_deferM [OF f])
qed

end

end
