(* ===== verification/Json_Laws.thy ===== *)
theory Json_Laws
  imports Json
begin

text \<open>
  Laws of the JSON model: what the decoder delivers is well formed, encoding a well-formed
  value and decoding it again gives the value back, and so the canonical form that
  \<open>validateDoc\<close> produces is a fixed point of it.
\<close>

section \<open>UTF-8\<close>

lemma runeLen_le: "runeLen s \<le> length s"
  by (cases s) (auto simp: runeLen.simps split: list.splits)

lemma runeLen_intros:
  "0xC2 \<le> a \<Longrightarrow> a \<le> 0xDF \<Longrightarrow> contByte b \<Longrightarrow> runeLen (a # b # r) = 2"
  "0xE0 \<le> a \<Longrightarrow> a \<le> 0xEF \<Longrightarrow> (if a = 0xE0 then 0xA0 else 0x80) \<le> b \<Longrightarrow>
     b \<le> (if a = 0xED then 0x9F else 0xBF) \<Longrightarrow> contByte c \<Longrightarrow> runeLen (a # b # c # r) = 3"
  "0xF0 \<le> a \<Longrightarrow> a \<le> 0xF4 \<Longrightarrow> (if a = 0xF0 then 0x90 else 0x80) \<le> b \<Longrightarrow>
     b \<le> (if a = 0xF4 then 0x8F else 0xBF) \<Longrightarrow> contByte c \<Longrightarrow> contByte d \<Longrightarrow> runeLen (a # b # c # d # r) = 4"
proof -
  note R = runeLen.simps(2)
  show "runeLen (a # b # r) = 2" if "0xC2 \<le> a" "a \<le> 0xDF" "contByte b"
  proof -
    have "\<not> a < 0x80" using that(1) by (simp add: word_less_nat_alt word_le_nat_alt)
    with that show ?thesis by (simp only: R if_False if_True list.case simp_thms)
  qed
  show "runeLen (a # b # c # r) = 3" if "0xE0 \<le> a" "a \<le> 0xEF" "(if a = 0xE0 then 0xA0 else 0x80) \<le> b"
    "b \<le> (if a = 0xED then 0x9F else 0xBF)" "contByte c"
  proof -
    have "\<not> a < 0x80" "\<not> a \<le> 0xDF" using that(1) by (simp_all add: word_less_nat_alt word_le_nat_alt)
    with that show ?thesis by (simp only: R if_False if_True list.case simp_thms)
  qed
  show "runeLen (a # b # c # d # r) = 4" if "0xF0 \<le> a" "a \<le> 0xF4" "(if a = 0xF0 then 0x90 else 0x80) \<le> b"
    "b \<le> (if a = 0xF4 then 0x8F else 0xBF)" "contByte c" "contByte d"
  proof -
    have "\<not> a < 0x80" "\<not> a \<le> 0xDF" "\<not> a \<le> 0xEF" using that(1) by (simp_all add: word_less_nat_alt word_le_nat_alt)
    with that show ?thesis by (simp only: R if_False if_True list.case simp_thms)
  qed
qed

text \<open>The encoding at the head of a text depends on its own bytes only.\<close>

lemma runeLen_cases:
  assumes "runeLen (a # r) \<noteq> 0"
  obtains (1) "a < 0x80"
    | (2) b r' where "\<not> a < 0x80" "r = b # r'" "contByte b" "\<And>x. runeLen (a # b # x) = 2"
    | (3) b c r' where "\<not> a < 0x80" "r = b # c # r'" "contByte b" "contByte c" "\<And>x. runeLen (a # b # c # x) = 3"
    | (4) b c d r' where "\<not> a < 0x80" "r = b # c # d # r'" "contByte b" "contByte c" "contByte d"
        "\<And>x. runeLen (a # b # c # d # x) = 4"
proof -
  note R = runeLen.simps(2)
  have cont: "contByte b" if "lo \<le> b" "b \<le> hi" "0x80 \<le> lo" "hi \<le> 0xBF" for b lo hi :: byte
    using that by (auto simp: contByte_def intro: order_trans)
  consider (1) "a < 0x80"
    | (2) b r' where "\<not> a < 0x80" "0xC2 \<le> a \<and> a \<le> 0xDF" "r = b # r'" "contByte b"
    | (3) b c r' where "\<not> a < 0x80" "0xE0 \<le> a \<and> a \<le> 0xEF" "r = b # c # r'"
        "(if a = 0xE0 then 0xA0 else 0x80) \<le> b \<and> b \<le> (if a = 0xED then 0x9F else 0xBF) \<and> contByte c"
    | (4) b c d r' where "\<not> a < 0x80" "0xF0 \<le> a \<and> a \<le> 0xF4" "r = b # c # d # r'"
        "(if a = 0xF0 then 0x90 else 0x80) \<le> b \<and> b \<le> (if a = 0xF4 then 0x8F else 0xBF) \<and> contByte c \<and> contByte d"
    using assms unfolding R by (auto split: list.split_asm if_split_asm)
  then show ?thesis
  proof cases
    case 1
    then show ?thesis by (rule that(1))
  next
    case 2
    then show ?thesis by (intro that(2)) (auto intro!: runeLen_intros)
  next
    case 3
    then have "\<And>x. runeLen (a # b # c # x) = 3" by (intro runeLen_intros) auto
    with 3 show ?thesis by (intro that(3)) (auto intro: cont split: if_splits)
  next
    case 4
    then have "\<And>x. runeLen (a # b # c # d # x) = 4" by (intro runeLen_intros) auto
    with 4 show ?thesis by (intro that(4)) (auto intro: cont split: if_splits)
  qed
qed

lemma runeLen_local:
  assumes "runeLen s \<noteq> 0" "prefix (take (runeLen s) s) t"
  shows "runeLen t = runeLen s"
proof -
  from assms(1) obtain a r where s: "s = a # r" by (cases s) auto
  from assms(2) obtain u where t: "t = take (runeLen s) s @ u" by (auto simp: prefix_def)
  from assms(1) [unfolded s] show ?thesis
    by (cases rule: runeLen_cases) (auto simp: t s runeLen.simps(2))
qed

lemma runeLen_high:
  assumes "runeLen (a # r) \<noteq> 0" "\<not> a < 0x80" "x \<in> set (take (runeLen (a # r)) (a # r))"
  shows "\<not> x < 0x80"
proof -
  have c: "contByte b \<Longrightarrow> \<not> b < 0x80" for b by (simp add: contByte_def not_less)
  from assms(1) show ?thesis by (cases rule: runeLen_cases) (use assms(2,3) c in auto)
qed

lemma runeLen_append: "runeLen a \<noteq> 0 \<Longrightarrow> runeLen (a @ b) = runeLen a"
  by (rule runeLen_local) (simp_all add: prefix_order.trans [OF take_is_prefix])

lemma runeLen_take: "runeLen s \<noteq> 0 \<Longrightarrow> runeLen (take (runeLen s) s @ t) = runeLen s"
  by (rule runeLen_local) simp_all

lemma utf8Valid_append: "utf8Valid a \<Longrightarrow> utf8Valid (a @ b) \<longleftrightarrow> utf8Valid b"
proof (induction "length a" arbitrary: a rule: less_induct)
  case less
  show ?case
  proof (cases "a = []")
    case False
    with less.prems have r: "runeLen a \<noteq> 0" "utf8Valid (drop (runeLen a) a)" by simp_all
    then have "utf8Valid (drop (runeLen a) a @ b) \<longleftrightarrow> utf8Valid b" using False by (intro less.hyps) auto
    with r False runeLen_append [OF r(1), of b] runeLen_le [of a] show ?thesis by simp
  qed simp
qed

lemma utf8Valid_rune: "runeLen s = length s \<Longrightarrow> utf8Valid s"
  by (cases "s = []") simp_all

lemma utf8Valid_ascii: "list_all (\<lambda>c. c < 0x80) s \<Longrightarrow> utf8Valid s"
  by (induction s) (simp_all add: runeLen.simps)

lemma utf8Valid_take: "runeLen s \<noteq> 0 \<Longrightarrow> utf8Valid (take (runeLen s) s)"
  using runeLen_take [of s "[]"] runeLen_le [of s] by (intro utf8Valid_rune) simp

lemma encodeRune_len:
  assumes "r < 0x110000" "\<not> (0xD800 \<le> r \<and> r < 0xE000)"
  shows "runeLen (encodeRune r) = length (encodeRune r)"
proof -
  have u: "unat (of_nat k :: byte) = k" if "k < 256" for k using that by (simp add: unat_of_nat take_bit_nat_eq_self)
  have c: "contByte (of_nat (0x80 + k))" if "k < 64" for k :: nat
    using that u [of "0x80 + k"] by (simp add: contByte_def word_le_nat_alt)
  have m: "k mod 64 \<le> 63" for k :: nat using mod_less_divisor [of 64 k] by linarith
  consider "r < 0x80" | "0x80 \<le> r" "r < 0x800" | "0x800 \<le> r" "r < 0x10000" | "0x10000 \<le> r" by linarith
  then show ?thesis
  proof cases
    case 1
    then show ?thesis using u [of r] by (simp add: encodeRune_def runeLen.simps word_less_nat_alt)
  next
    case 2
    let ?a = "of_nat (0xC0 + r div 64) :: byte" and ?b = "of_nat (0x80 + r mod 64) :: byte"
    have a: "0xC2 \<le> 0xC0 + r div 64" "0xC0 + r div 64 \<le> 0xDF" using 2 by auto
    have e: "encodeRune r = [?a, ?b]" using 2 by (simp add: encodeRune_def)
    have "runeLen [?a, ?b] = 2" using a u [of "0xC0 + r div 64"] c [of "r mod 64"]
      by (intro runeLen_intros(1)) (simp_all add: word_le_nat_alt del: of_nat_add)
    then show ?thesis unfolding e by simp
  next
    case 3
    let ?a = "of_nat (0xE0 + r div 4096) :: byte" and ?b = "of_nat (0x80 + r div 64 mod 64) :: byte" and ?c = "of_nat (0x80 + r mod 64) :: byte"
    have a: "0xE0 + r div 4096 \<le> 0xEF" using 3 by auto
    define q where "q = r div 64"
    have q: "32 \<le> q" "q < 1024" "\<not> (864 \<le> q \<and> q < 896)" "r div 4096 = q div 64"
      using 3 assms(2) by (auto simp: q_def div_mult2_eq [symmetric])
    have lo: "r div 4096 = 0 \<longrightarrow> 32 \<le> r div 64 mod 64" using q by (auto simp: q_def [symmetric])
    have hi: "r div 4096 = 13 \<longrightarrow> r div 64 mod 64 \<le> 31" unfolding q(4) q_def [symmetric] using q(3) div_mult_mod_eq [of q 64] mod_less_divisor [of 64 q] by (intro impI) linarith
    have e: "encodeRune r = [?a, ?b, ?c]" using 3 by (simp add: encodeRune_def)
    have ua: "unat ?a = 0xE0 + r div 4096" using a by (intro u) simp
    have ub: "unat ?b = 0x80 + r div 64 mod 64" by (intro u) (simp add: mod_less_divisor [THEN order_less_le_trans])
    have "runeLen [?a, ?b, ?c] = 3"
      using a lo hi ua ub m c [of "r mod 64"]
      by (intro runeLen_intros(2)) (simp_all add: word_le_nat_alt word_unat_eq_iff del: of_nat_add)
    then show ?thesis unfolding e by simp
  next
    case 4
    let ?a = "of_nat (0xF0 + r div 262144) :: byte" and ?b = "of_nat (0x80 + r div 4096 mod 64) :: byte"
      and ?c = "of_nat (0x80 + r div 64 mod 64) :: byte" and ?d = "of_nat (0x80 + r mod 64) :: byte"
    have a: "0xF0 + r div 262144 \<le> 0xF4" using assms(1) by auto
    define q where "q = r div 4096"
    have q: "16 \<le> q" "q < 272" "r div 262144 = q div 64" using 4 assms(1) by (auto simp: q_def div_mult2_eq [symmetric])
    have lo: "r div 262144 = 0 \<longrightarrow> 16 \<le> r div 4096 mod 64" using q by (auto simp: q_def [symmetric])
    have hi: "r div 262144 = 4 \<longrightarrow> r div 4096 mod 64 \<le> 15" unfolding q(3) q_def [symmetric] using q(2) div_mult_mod_eq [of q 64] by (intro impI) linarith
    have e: "encodeRune r = [?a, ?b, ?c, ?d]" using 4 by (simp add: encodeRune_def)
    have ua: "unat ?a = 0xF0 + r div 262144" using a by (intro u) simp
    have ub: "unat ?b = 0x80 + r div 4096 mod 64" by (intro u) (simp add: mod_less_divisor [THEN order_less_le_trans])
    have "runeLen [?a, ?b, ?c, ?d] = 4"
      using a lo hi ua ub m c [of "r div 64 mod 64"] c [of "r mod 64"]
      by (intro runeLen_intros(3)) (simp_all add: word_le_nat_alt word_unat_eq_iff del: of_nat_add)
    then show ?thesis unfolding e by simp
  qed
qed

section \<open>Strings\<close>

lemma encodeRune_valid: "r < 0x110000 \<Longrightarrow> \<not> (0xD800 \<le> r \<and> r < 0xE000) \<Longrightarrow> utf8Valid (encodeRune r)"
  using encodeRune_len by (intro utf8Valid_rune) auto

lemma replacementChar_valid: "utf8Valid replacementChar"
  by code_simp

lemma getu4_bound: "getu4 s = Some r \<Longrightarrow> r < 0x10000"
proof -
  have f: "unat x < 16" if "fromHexChar c = Some x" for c x :: byte
  proof -
    have "list_all (\<lambda>k. case fromHexChar (of_nat k) of None \<Rightarrow> True | Some x \<Rightarrow> unat x < 16) [0..<256]" by code_simp
    then have "k < 256 \<Longrightarrow> case fromHexChar (of_nat k) of None \<Rightarrow> True | Some x \<Rightarrow> unat x < 16" for k
      by (simp add: list_all_iff)
    from this [of "unat c"] have "case fromHexChar c of None \<Rightarrow> True | Some x \<Rightarrow> unat x < 16"
      using unsigned_less [of c] by simp
    with that show ?thesis by simp
  qed
  assume "getu4 s = Some r"
  then obtain a b c d where "r = unat a * 4096 + unat b * 256 + unat c * 16 + unat d"
    "map fromHexChar (take 4 s) = [Some a, Some b, Some c, Some d]"
    by (auto simp: getu4_def split: list.splits option.splits)
  then have "unat a < 16" "unat b < 16" "unat c < 16" "unat d < 16" using f by (auto simp: map_eq_Cons_conv)
  then show ?thesis unfolding \<open>r = _\<close> by linarith
qed

lemma pairWith_bound: "pairWith r s = Some p \<Longrightarrow> 0x10000 \<le> p \<and> p < 0x110000"
  by (auto simp: pairWith_def split: list.splits if_splits option.splits)

lemma simpleEscape_ascii: "simpleEscape e = Some b \<Longrightarrow> b < 0x80"
  by (auto simp: simpleEscape_def split: if_splits)

lemma utf8Valid_Cons_ascii: "c < 0x80 \<Longrightarrow> utf8Valid (c # s) \<longleftrightarrow> utf8Valid s"
  by (simp add: runeLen.simps)

text \<open>The decoder only delivers strings that are valid UTF-8.\<close>

lemma unquote_valid: "unquote s = Some (x, u) \<Longrightarrow> utf8Valid x"
proof (induction "length s" arbitrary: s x u rule: less_induct)
  case less
  show ?case
  proof (cases s)
    case Nil
    with less.prems show ?thesis by (simp add: unquote.simps)
  next
    case (Cons c t)
    have IH: "utf8Valid z" if "unquote y = Some (z, w)" "length y \<le> length t" for y z w
      using less.hyps [of y z w] that Cons by simp
    show ?thesis
      using less.prems unfolding Cons
      by (subst (asm) unquote.simps)
        (auto split: if_split_asm list.split_asm option.split_asm simp del: utf8Valid_simps(2)
          simp: utf8Valid_Cons_ascii utf8Valid_take utf8Valid_append encodeRune_valid replacementChar_valid
          dest!: simpleEscape_ascii getu4_bound pairWith_bound IH)
  qed
qed

text \<open>Unquoting what was quoted.\<close>

lemma getu4_hex: "getu4 (48 # 48 # hexEncode [c] @ r) = Some (unat c)"
proof -
  have "unat (drop_bit 4 c) * 16 + unat (c AND 0x0f) = unat c"
  proof -
    have "unat (c AND 0x0f) = take_bit 4 (unat c)"
      unfolding byte_masks take_bit_eq_mask [symmetric] by (rule unsigned_take_bit_eq)
    then show ?thesis unfolding unat_drop_bit_eq by (simp add: take_bit_eq_mod drop_bit_eq_div div_mult_mod_eq)
  qed
  then show ?thesis by (simp add: getu4_def fromHexChar_hexDigit unat_nibbles fromHexChar_def [of 48])
qed

lemma not_less_byte: "32 \<le> (c :: byte) \<Longrightarrow> \<not> c < 32" "\<not> (c :: byte) < 0x80 \<Longrightarrow> \<not> c < 32 \<and> c \<noteq> 34 \<and> c \<noteq> 92"
  by (auto simp: word_less_nat_alt word_le_nat_alt)

lemma unquote_ascii:
  "32 \<le> c \<Longrightarrow> c < 0x80 \<Longrightarrow> c \<noteq> 34 \<Longrightarrow> c \<noteq> 92 \<Longrightarrow> unquote (c # s) = map_option (\<lambda>(x, u). (c # x, u)) (unquote s)"
  by (subst unquote.simps) (simp add: not_less_byte)

lemma unquote_rune:
  "\<not> c < 0x80 \<Longrightarrow> runeLen (c # s) \<noteq> 0 \<Longrightarrow>
    unquote (c # s) = map_option (\<lambda>(x, u). (take (runeLen (c # s)) (c # s) @ x, u)) (unquote (drop (runeLen (c # s) - 1) s))"
  using not_less_byte(2) [of c] by (subst unquote.simps) auto

lemma unquote_short:
  "shortEscape c = Some e \<Longrightarrow> unquote (92 # e # s) = map_option (\<lambda>(x, u). (c # x, u)) (unquote s)"
  by (subst unquote.simps) (auto simp: shortEscape_def simpleEscape_def split: if_splits)

lemma unquote_u:
  assumes "getu4 t = Some r" "\<not> (0xD800 \<le> r \<and> r < 0xE000)"
  shows "unquote (92 # 117 # t) = map_option (\<lambda>(x, u). (encodeRune r @ x, u)) (unquote (drop 4 t))"
  using assms by (subst unquote.simps) auto

lemma str_escapes:
  "str (CHR 92 # ''u00'') = [92, 117, 48, 48]" "str (CHR 92 # ''ufffd'') = [92, 117, 102, 102, 102, 100]"
  "str (CHR 92 # ''u2028'') = [92, 117, 50, 48, 50, 56]" "str (CHR 92 # ''u2029'') = [92, 117, 50, 48, 50, 57]"
  by code_simp+

lemma getu4_separators: "getu4 (50 # 48 # 50 # 56 # r) = Some 0x2028" "getu4 (50 # 48 # 50 # 57 # r) = Some 0x2029"
  by (simp_all add: getu4_def fromHexChar_def)

lemma encodeRune_separators: "encodeRune 0x2028 = [0xE2, 0x80, 0xA8]" "encodeRune 0x2029 = [0xE2, 0x80, 0xA9]"
  by (simp_all add: encodeRune_def)

lemma runeLen_separators: "runeLen (0xE2 # 0x80 # 0xA8 # r) = 3" "runeLen (0xE2 # 0x80 # 0xA9 # r) = 3"
  by (simp_all add: runeLen_intros(2) contByte_def)

lemma unquote_escape_ascii:
  assumes "c < 0x80" "unquote (escapeString s @ t) = Some (s, rest)"
  shows "unquote (escapeString (c # s) @ t) = Some (c # s, rest)"
proof (cases "htmlSafe c")
  case True
  with assms show ?thesis by (subst escapeString.simps) (simp add: unquote_ascii htmlSafe_def)
next
  case False
  show ?thesis
  proof (cases "shortEscape c")
    case None
    have "unat c < 0x80" using assms(1) by (simp add: word_less_nat_alt)
    then have "encodeRune (unat c) = [c]" by (simp add: encodeRune_def)
    moreover have "escapeString (c # s) @ t = 92 # 117 # 48 # 48 # hexEncode [c] @ (escapeString s @ t)"
      using False None assms(1) by (subst escapeString.simps) (simp add: str_escapes)
    moreover have "unat c < 0xD800" using \<open>unat c < 0x80\<close> by simp
    ultimately show ?thesis using assms(2) unquote_u [OF getu4_hex, of c "escapeString s @ t"]
      by (simp del: hexEncode_simps)
  next
    case (Some e)
    with False assms show ?thesis by (subst escapeString.simps) (simp add: unquote_short)
  qed
qed

lemma unquote_escapeString: "utf8Valid s \<Longrightarrow> unquote (escapeString s @ 34 # rest) = Some (s, rest)"
proof (induction "length s" arbitrary: s rule: less_induct)
  case less
  show ?case
  proof (cases s)
    case Nil
    then show ?thesis by (simp add: escapeString.simps unquote.simps)
  next
    case (Cons c t)
    note E = escapeString.simps(2)
    show ?thesis
    proof (cases "c < 0x80")
      case True
      with less.prems have "utf8Valid t" by (simp add: Cons utf8Valid_Cons_ascii del: utf8Valid_simps(2))
      with less.hyps [of t] True show ?thesis by (simp add: Cons unquote_escape_ascii)
    next
      case False
      let ?n = "runeLen (c # t)"
      from less.prems have n: "?n \<noteq> 0" "utf8Valid (drop ?n (c # t))" by (auto simp: Cons)
      then have IH: "unquote (escapeString (drop ?n (c # t)) @ 34 # rest) = Some (drop ?n (c # t), rest)"
        by (intro less.hyps) (simp_all add: Cons)
      obtain k where k: "?n = Suc k" using n(1) not0_implies_Suc by blast
      consider (ls) u where "t = 0x80 # 0xA8 # u" "c = 0xE2" | (ps) u where "t = 0x80 # 0xA9 # u" "c = 0xE2"
        | (other) "\<not> prefix [0xE2, 0x80, 0xA8] (c # t)" "\<not> prefix [0xE2, 0x80, 0xA9] (c # t)"
        by (cases t; cases "tl t") auto
      then show ?thesis
      proof cases
        case ls
        with IH n False show ?thesis unfolding Cons E
          by (simp add: str_escapes runeLen_separators unquote_u [OF getu4_separators(1)] encodeRune_separators)
      next
        case ps
        with IH n False show ?thesis unfolding Cons E
          by (simp add: str_escapes runeLen_separators unquote_u [OF getu4_separators(2)] encodeRune_separators)
      next
        case other
        let ?r = "escapeString (drop k t) @ 34 # rest"
        have e: "escapeString (c # t) @ 34 # rest = c # (take k t @ ?r)"
          using other n False unfolding E by (auto simp: k)
        have "runeLen (c # (take k t @ ?r)) = Suc k" using runeLen_take [OF n(1), of ?r] by (simp add: k)
        moreover have "k \<le> length t" using runeLen_le [of "c # t"] by (simp add: k)
        ultimately show ?thesis unfolding Cons e using IH False by (simp add: unquote_rune k)
      qed
    qed
  qed
qed

section \<open>Numbers\<close>

text \<open>What follows a number does not change how far it reaches.\<close>

definition starts :: "(byte \<Rightarrow> bool) \<Rightarrow> bytes \<Rightarrow> bool" where
  "starts P s \<longleftrightarrow> (case s of [] \<Rightarrow> False | c # _ \<Rightarrow> P c)"

lemma starts_simps [simp]: "\<not> starts P []" "starts P (c # s) \<longleftrightarrow> P c"
  by (simp_all add: starts_def)

definition numStop :: "bytes \<Rightarrow> bool" where
  "numStop rest \<longleftrightarrow> \<not> starts (\<lambda>c. isDigit c \<or> c = 46 \<or> c = 101 \<or> c = 69) rest"

lemma scanDigits_redo:
  assumes "scanDigits s = Some (a, t)" "\<not> starts isDigit rest"
  shows "a \<noteq> []" "isDigit (hd a)" "scanDigits (a @ rest) = Some (a, rest)"
proof -
  from assms(1) have a: "a = takeWhile isDigit s" "a \<noteq> []" by (auto simp: scanDigits_def Let_def split: if_splits)
  then show "a \<noteq> []" by simp
  have all: "\<forall>x \<in> set a. isDigit x" unfolding a(1) by (auto dest: set_takeWhileD)
  with a(2) show "isDigit (hd a)" by simp
  have "takeWhile isDigit rest = []" using assms(2) by (cases rest) auto
  with all a(2) show "scanDigits (a @ rest) = Some (a, rest)" by (simp add: scanDigits_def)
qed

lemma scan_parts:
  "scanDigits s = Some (a, t) \<Longrightarrow> s = a @ t" "scanInt s = Some (a, t) \<Longrightarrow> s = a @ t"
  "scanFrac s = Some (a, t) \<Longrightarrow> s = a @ t" "scanExp s = Some (a, t) \<Longrightarrow> s = a @ t"
proof -
  have d: "scanDigits s = Some (a, t) \<Longrightarrow> s = a @ t" for s a t
    by (auto simp: scanDigits_def Let_def dropWhile_eq_drop [symmetric] split: if_splits)
  then show "scanDigits s = Some (a, t) \<Longrightarrow> s = a @ t" .
  show "scanInt s = Some (a, t) \<Longrightarrow> s = a @ t" by (auto simp: scanInt_def dest: d split: list.splits if_splits)
  show "scanFrac s = Some (a, t) \<Longrightarrow> s = a @ t" by (auto simp: scanFrac_def dest: d split: list.splits if_splits)
  show "scanExp s = Some (a, t) \<Longrightarrow> s = a @ t" by (auto simp: scanExp_def dest: d split: list.splits if_splits)
qed

lemma scanNumber_parts: "scanNumber s = Some (a, t) \<Longrightarrow> s = a @ t"
  by (auto simp: scanNumber_def dest!: scan_parts split: list.splits if_splits option.splits)

lemma digit_chars: "\<not> isDigit 46" "\<not> isDigit 101" "\<not> isDigit 69" "\<not> isDigit 43" "\<not> isDigit 45" "isDigit 48"
  by (simp_all add: isDigit_def)

lemma scanInt_redo:
  assumes "scanInt s = Some (a, t)" "\<not> starts isDigit rest"
  shows "a \<noteq> [] \<and> isDigit (hd a) \<and> scanInt (a @ rest) = Some (a, rest)"
proof (cases "\<exists>r. s = 48 # r")
  case True
  with assms show ?thesis by (auto simp: scanInt_def digit_chars)
next
  case False
  with assms(1) have d: "scanDigits s = Some (a, t)" by (auto simp: scanInt_def split: list.splits if_splits)
  from d False have "hd a \<noteq> 48" by (cases s) (auto simp: scanDigits_def split: if_splits)
  with scanDigits_redo [OF d assms(2)] show ?thesis by (cases a) (auto simp: scanInt_def)
qed

lemma scanFrac_redo:
  assumes "scanFrac s = Some (a, t)" "\<not> starts isDigit rest" "a = [] \<Longrightarrow> \<not> starts (\<lambda>c. c = 46) rest"
  shows "scanFrac (a @ rest) = Some (a, rest) \<and> (a = [] \<or> hd a = 46)"
proof (cases a)
  case Nil
  then show ?thesis using assms(3) by (cases rest) (auto simp: scanFrac_def)
next
  case (Cons c ds)
  with assms(1) obtain r where "c = 46" "scanDigits r = Some (ds, t)" by (auto simp: scanFrac_def split: list.splits if_splits)
  with Cons scanDigits_redo [OF this(2) assms(2)] show ?thesis by (simp add: scanFrac_def)
qed

lemma scanExp_redo:
  assumes "scanExp s = Some (a, t)" "\<not> starts isDigit rest" "a = [] \<Longrightarrow> \<not> starts (\<lambda>c. c = 101 \<or> c = 69) rest"
  shows "scanExp (a @ rest) = Some (a, rest) \<and> (a = [] \<or> hd a = 101 \<or> hd a = 69)"
proof (cases a)
  case Nil
  then show ?thesis using assms(3) by (cases rest) (auto simp: scanExp_def)
next
  case (Cons c x)
  with assms(1) have c: "c = 101 \<or> c = 69" by (auto simp: scanExp_def split: list.splits if_splits)
  from Cons assms(1) consider d ds r where "x = d # ds" "d = 43 \<or> d = 45" "scanDigits r = Some (ds, t)"
    | r where "scanDigits r = Some (x, t)" by (auto simp: scanExp_def split: list.splits if_splits)
  then show ?thesis
  proof cases
    case 1
    with Cons c scanDigits_redo [OF 1(3) assms(2)] show ?thesis by (auto simp: scanExp_def)
  next
    case 2
    have "x \<noteq> []" "isDigit (hd x)" "scanDigits (x @ rest) = Some (x, rest)" by (rule scanDigits_redo [OF 2 assms(2)])+
    moreover from this have "hd x \<noteq> 43" "hd x \<noteq> 45" using digit_chars by metis+
    ultimately show ?thesis using Cons c by (cases x) (auto simp: scanExp_def)
  qed
qed

lemma scanNumber_redo:
  assumes "scanNumber s = Some (a, t)" "numStop rest"
  shows "scanNumber (a @ rest) = Some (a, rest)" "a \<noteq> []" "isDigit (hd a) \<or> hd a = 45"
proof -
  let ?split = "\<lambda>s :: bytes. case s of c # r \<Rightarrow> if c = 45 then ([c], r) else ([], s) | [] \<Rightarrow> ([], s)"
  obtain g u where g: "?split s = (g, u)" by fastforce
  then have g': "g = [] \<or> g = [45]" by (auto split: list.splits if_splits)
  from assms(1) obtain i t1 f t2 e where p: "scanInt u = Some (i, t1)" "scanFrac t1 = Some (f, t2)" "scanExp t2 = Some (e, t)"
    "a = g @ i @ f @ e"
    unfolding scanNumber_def Let_def g by (auto split: option.splits)
  from assms(2) have r: "\<not> starts isDigit rest" "\<not> starts (\<lambda>c. c = 46) rest" "\<not> starts (\<lambda>c. c = 101 \<or> c = 69) rest"
    by (cases rest; auto simp: numStop_def)+
  have e: "scanExp (e @ rest) = Some (e, rest)" "e = [] \<or> hd e = 101 \<or> hd e = 69" using scanExp_redo [OF p(3) r(1,3)] by auto
  then have er: "\<not> starts isDigit (e @ rest)" "\<not> starts (\<lambda>c. c = 46) (e @ rest)" using r by (cases e; auto simp: digit_chars)+
  have f: "scanFrac (f @ e @ rest) = Some (f, e @ rest)" "f = [] \<or> hd f = 46" using scanFrac_redo [OF p(2) er] by auto
  then have fr: "\<not> starts isDigit (f @ e @ rest)" using er(1) by (cases f) (auto simp: digit_chars)
  have i: "scanInt (i @ f @ e @ rest) = Some (i, f @ e @ rest)" "i \<noteq> []" "isDigit (hd i)" using scanInt_redo [OF p(1) fr] by auto
  then have "hd i \<noteq> 45" using digit_chars by metis
  then have "?split (g @ i @ f @ e @ rest) = (g, i @ f @ e @ rest)" using g' i(2) by (cases i) auto
  then show "scanNumber (a @ rest) = Some (a, rest)" using i(1) f(1) e(1) unfolding p(4) by (simp add: scanNumber_def)
  show "a \<noteq> []" "isDigit (hd a) \<or> hd a = 45" using i(2,3) g' unfolding p(4) by auto
qed

lemma scanNumber_valid: "scanNumber s = Some (a, t) \<Longrightarrow> isValidNumber a"
  using scanNumber_redo(1) [of s a t "[]"] by (simp add: isValidNumber_def numStop_def)

lemma isValidNumber_scan:
  assumes "isValidNumber n"
  shows "numStop rest \<Longrightarrow> scanNumber (n @ rest) = Some (n, rest)" "n \<noteq> []" "isDigit (hd n) \<or> hd n = 45"
proof -
  from assms obtain a where a: "scanNumber n = Some (a, [])" 
    unfolding isValidNumber_def by (auto split: option.split_asm prod.split_asm list.split_asm)
  then have "n = a" using scanNumber_parts by fastforce
  then show "numStop rest \<Longrightarrow> scanNumber (n @ rest) = Some (n, rest)" "n \<noteq> []" "isDigit (hd n) \<or> hd n = 45"
    using scanNumber_redo [OF a, of rest] scanNumber_redo(2,3) [OF a, of "[]"] by (auto simp: numStop_def)
qed

section \<open>Values\<close>

text \<open>What the decoder delivers at nesting depth \<open>d\<close>.\<close>

fun wfJson :: "nat \<Rightarrow> json \<Rightarrow> bool" where
  "wfJson d JNull \<longleftrightarrow> True"
| "wfJson d (JBool b) \<longleftrightarrow> True"
| "wfJson d (JNum n) \<longleftrightarrow> isValidNumber n"
| "wfJson d (JStr s) \<longleftrightarrow> utf8Valid s"
| "wfJson d (JArr xs) \<longleftrightarrow> d < maxNestingDepth \<and> (\<forall>x \<in> set xs. wfJson (Suc d) x)"
| "wfJson d (JObj m) \<longleftrightarrow> d < maxNestingDepth \<and> (\<forall>p \<in> set m. utf8Valid (fst p) \<and> wfJson (Suc d) (snd p)) \<and>
     sorted_wrt (<) (map fst m)"

abbreviation wfMembers :: "nat \<Rightarrow> (bytes \<times> json) list \<Rightarrow> bool" where
  "wfMembers d m \<equiv> (\<forall>p \<in> set m. utf8Valid (fst p) \<and> wfJson d (snd p)) \<and> sorted_wrt (<) (map fst m)"

lemma mapPut_keys: "set (map fst (mapPut k v m)) = insert k (set (map fst m))"
  by (induction k v m rule: mapPut.induct) auto

lemma mapPut_set: "set (mapPut k v m) \<subseteq> insert (k, v) (set m)"
  by (induction k v m rule: mapPut.induct) auto

lemma mapPut_sorted: "sorted_wrt (<) (map fst m) \<Longrightarrow> sorted_wrt (<) (map fst (mapPut k v m))"
proof (induction k v m rule: mapPut.induct)
  case (2 k v a b m)
  have "\<forall>x \<in> set (map fst (mapPut k v m)). x = k \<or> x \<in> set (map fst m)" unfolding mapPut_keys by blast
  moreover have "\<forall>x \<in> set (map fst m). a < x" "sorted_wrt (<) (map fst m)" using "2.prems" by auto
  ultimately show ?case using "2.IH" "2.prems" by (auto dest: less_trans simp: not_less_iff_gr_or_eq simp del: set_map)
qed simp

lemma mapPut_append: "\<forall>x \<in> set (map fst m). x < k \<Longrightarrow> mapPut k v m = m @ [(k, v)]"
  by (induction k v m rule: mapPut.induct) (auto dest: less_asym)

lemma wfMembers_mapPut: "wfMembers d m \<Longrightarrow> utf8Valid k \<Longrightarrow> wfJson d v \<Longrightarrow> wfMembers d (mapPut k v m)"
  using mapPut_set [of k v m] mapPut_sorted [of m k v] by auto

lemma decode_wf:
  "decodeValue f d s = Some (v, r) \<Longrightarrow> wfJson d v"
  "decodeElems f d s = Some (vs, r) \<Longrightarrow> \<forall>x \<in> set vs. wfJson d x"
  "decodeMembers f d m s = Some (m', r) \<Longrightarrow> wfMembers d m \<Longrightarrow> wfMembers d m'"
proof (induction f arbitrary: d s v r vs m m')
  case (Suc f)
  note IH = Suc.IH
  {
    case 1
    then show ?case
      by (auto simp: decodeValue.simps(2) split: list.split_asm if_split_asm
        dest!: unquote_valid scanNumber_valid IH(2,3) simp del: utf8Valid_simps(2))
  next
    case 2
    then show ?case
      by (auto simp: decodeElems.simps(2) split: list.split_asm if_split_asm option.split_asm dest!: IH(1,2))
  next
    case 3
    from 3(1) obtain y k t t' v u w where p: "unquote y = Some (k, t)" "decodeValue f d t' = Some (v, u)"
      "m' = mapPut k v m \<or> decodeMembers f d (mapPut k v m) w = Some (m', r)"
      by (auto simp: decodeMembers.simps(2) split: list.split_asm if_split_asm option.split_asm) blast
    from wfMembers_mapPut [OF 3(2) unquote_valid [OF p(1)] IH(1) [OF p(2)]] p(3) IH(3) [of d "mapPut k v m" w m' r]
    show ?case by blast
  }
qed (simp_all add: decode_simps)

section \<open>Decoding what was encoded\<close>

lemma skipSpace_keep: "\<not> isSpace c \<Longrightarrow> skipSpace (c # s) = c # s"
  by (simp add: skipSpace_def)

lemma isSpace_chars [simp]: "\<not> isSpace 34" "\<not> isSpace 44" "\<not> isSpace 58" "\<not> isSpace 91" "\<not> isSpace 93" "\<not> isSpace 123"
  "\<not> isSpace 125" "\<not> isSpace 110" "\<not> isSpace 116" "\<not> isSpace 102" "\<not> isSpace 45"
  by (simp_all add: isSpace_def)

lemma isDigit_range: "isDigit c \<Longrightarrow> \<not> isSpace c \<and> c \<noteq> 34 \<and> c \<noteq> 91 \<and> c \<noteq> 93 \<and> c \<noteq> 123 \<and> c \<noteq> 125 \<and> c \<noteq> 110 \<and> c \<noteq> 116 \<and> c \<noteq> 102"
  by (auto simp: isDigit_def isSpace_def)

lemma json_words: "str ''null'' = [110, 117, 108, 108]" "str ''true'' = [116, 114, 117, 101]" "str ''false'' = [102, 97, 108, 115, 101]"
  "str ''ull'' = [117, 108, 108]" "str ''rue'' = [114, 117, 101]" "str ''alse'' = [97, 108, 115, 101]"
  by code_simp+

lemma numStop_chars [simp]: "numStop []" "numStop (93 # r)" "numStop (125 # r)" "numStop (44 # r)"
  by (simp_all add: numStop_def isDigit_def)

lemma marshal_head:
  assumes "jsonMarshal v = Some b" "wfJson d v"
  obtains c t where "b = c # t" "\<not> isSpace c" "c \<noteq> 93" "c \<noteq> 125"
proof (cases v)
  case (JNum n)
  with assms isValidNumber_scan(2,3) [of n] have "b = n" "n \<noteq> []" "isDigit (hd n) \<or> hd n = 45" by auto
  then obtain c t where "b = c # t" "isDigit c \<or> c = 45" by (cases n) auto
  then show ?thesis using that [of c t] isDigit_range [of c] by (auto simp: isSpace_def)
qed (use assms that in \<open>auto simp: json_words quoteString_def split: if_splits\<close>)

lemma decode_marshal:
  "jsonMarshal v = Some b \<Longrightarrow> wfJson d v \<Longrightarrow> numStop rest \<Longrightarrow> 2 * length b < f \<Longrightarrow>
     decodeValue f d (b @ rest) = Some (v, rest)"
  "marshalElems vs = Some b \<Longrightarrow> vs \<noteq> [] \<Longrightarrow> \<forall>x \<in> set vs. wfJson d x \<Longrightarrow> 2 * length b + 1 < f \<Longrightarrow>
     decodeElems f d (b @ 93 # rest) = Some (vs, rest)"
  "marshalMembers m = Some b \<Longrightarrow> m \<noteq> [] \<Longrightarrow> wfMembers d (acc @ m) \<Longrightarrow> 2 * length b + 1 < f \<Longrightarrow>
     decodeMembers f d acc (b @ 125 # rest) = Some (acc @ m, rest)"
proof (induction v and vs and m arbitrary: b d rest f and b d rest f and b d rest f acc
    rule: jsonMarshal_marshalElems_marshalMembers.induct)
  case 1
  then show ?case by (cases f) (auto simp: decode_simps json_words skipSpace_keep)
next
  case (2 x)
  then show ?case by (cases f; cases x) (auto simp: decode_simps json_words skipSpace_keep)
next
  case (3 n)
  then have n: "b = n" "n \<noteq> []" "isDigit (hd n) \<or> hd n = 45" "scanNumber (n @ rest) = Some (n, rest)"
    using isValidNumber_scan(1) [of n rest] isValidNumber_scan(2,3) [of n] by auto
  then obtain c t where c: "n = c # t" "isDigit c \<or> c = 45" by (cases n) auto
  then have "\<not> isSpace c" "c \<noteq> 34" "c \<noteq> 91" "c \<noteq> 123" "c \<noteq> 110" "c \<noteq> 116" "c \<noteq> 102" using isDigit_range [of c] by auto
  with 3 n c show ?case by (cases f) (auto simp: decode_simps skipSpace_keep)
next
  case (4 s)
  then show ?case by (cases f) (auto simp: decode_simps skipSpace_keep quoteString_def unquote_escapeString)
next
  case (5 xs)
  from 5 obtain b' where b': "marshalElems xs = Some b'" "b = 91 # b' @ [93]" by auto
  obtain f' where f: "f = Suc f'" using 5 by (cases f) auto
  show ?case
  proof (cases xs)
    case Nil
    with 5 b' f show ?thesis by (simp add: decode_simps skipSpace_keep)
  next
    case (Cons x ys)
    with 5 b' obtain a where a: "jsonMarshal x = Some a" "prefix a b'" by (auto split: option.splits if_splits)
    obtain c t where c: "a = c # t" "\<not> isSpace c" "c \<noteq> 93" using a(1) 5 Cons by (auto elim: marshal_head)
    then obtain t' where t': "b' = c # t'" using a(2) by (cases b') auto
    have "decodeElems f' (Suc d) (b' @ 93 # rest) = Some (xs, rest)" using 5 b' f Cons by (intro 5) auto
    with 5 f b' c t' show ?thesis by (simp add: decode_simps skipSpace_keep)
  qed
next
  case (6 m)
  from 6 obtain b' where b': "marshalMembers m = Some b'" "b = 123 # b' @ [125]" by auto
  obtain f' where f: "f = Suc f'" using 6 by (cases f) auto
  show ?case
  proof (cases m)
    case Nil
    with 6 b' f show ?thesis by (simp add: decode_simps skipSpace_keep)
  next
    case (Cons x ys)
    with 6 b' obtain t' where t': "b' = 34 # t'" by (cases x) (auto simp: quoteString_def Let_def split: option.splits if_splits)
    have "decodeMembers f' (Suc d) [] (b' @ 125 # rest) = Some ([] @ m, rest)" using 6 b' f Cons by (intro 6) auto
    with 6 f b' t' show ?thesis by (simp add: decode_simps skipSpace_keep)
  qed
next
  case 7
  then show ?case by simp
next
  case (8 x xs)
  obtain f' where f: "f = Suc f'" using 8 by (cases f) auto
  from 8 obtain a where a: "jsonMarshal x = Some a" by (auto split: option.splits)
  show ?case
  proof (cases "xs = []")
    case True
    have "decodeValue f' d (a @ 93 # rest) = Some (x, 93 # rest)" using 8 a f True by (intro 8) auto
    with 8 a f True show ?thesis by (simp add: decode_simps skipSpace_keep)
  next
    case False
    with 8 a obtain b' where b': "marshalElems xs = Some b'" "b = a @ 44 # b'" by auto
    have "decodeValue f' d (a @ 44 # b' @ 93 # rest) = Some (x, 44 # b' @ 93 # rest)" using 8 a b' f False by (intro 8) auto
    moreover have "decodeElems f' d (b' @ 93 # rest) = Some (xs, rest)" using 8 a b' f False by (intro 8) auto
    ultimately show ?thesis using b' f by (simp add: decode_simps skipSpace_keep)
  qed
next
  case 9
  then show ?case by simp
next
  case (10 k v m)
  obtain f' where f: "f = Suc f'" using 10 by (cases f) auto
  from 10 obtain a where a: "jsonMarshal v = Some a" by (auto split: option.splits)
  have u: "unquote (escapeString k @ 34 # t) = Some (k, t)" for t using 10 by (intro unquote_escapeString) auto
  have p: "mapPut k v acc = acc @ [(k, v)]" using 10 by (intro mapPut_append) (auto simp: sorted_wrt_append)
  show ?case
  proof (cases "m = []")
    case True
    have "decodeValue f' d (a @ 125 # rest) = Some (v, 125 # rest)" using 10 a f True by (intro 10) (auto simp: quoteString_def)
    moreover have "b = quoteString k @ 58 # a" using 10(3) a True by simp
    ultimately show ?thesis using True f u p by (simp add: decode_simps skipSpace_keep quoteString_def)
  next
    case False
    with 10 a obtain b' where b': "marshalMembers m = Some b'" "b = quoteString k @ 58 # a @ 44 # b'" by auto
    have "decodeValue f' d (a @ 44 # b' @ 125 # rest) = Some (v, 44 # b' @ 125 # rest)" using 10 a b' f False by (intro 10) auto
    moreover have "decodeMembers f' d (acc @ [(k, v)]) (b' @ 125 # rest) = Some ((acc @ [(k, v)]) @ m, rest)"
      using 10 a b' f False by (intro 10) auto
    ultimately show ?thesis using b' f u p by (simp add: decode_simps skipSpace_keep quoteString_def)
  qed
qed

section \<open>The bytes of a canonical document\<close>

text \<open>It is valid UTF-8 and has no line ends.\<close>

definition clean :: "bytes \<Rightarrow> bool" where
  "clean s \<longleftrightarrow> utf8Valid s \<and> (\<forall>c \<in> set s. c \<noteq> 10 \<and> c \<noteq> 13)"

lemma clean_append: "clean a \<Longrightarrow> clean b \<Longrightarrow> clean (a @ b)"
  by (auto simp: clean_def utf8Valid_append simp del: utf8Valid_simps(2))

lemma clean_ascii: "\<forall>c \<in> set s. 32 \<le> c \<and> c < 0x80 \<Longrightarrow> clean s"
  by (auto simp: clean_def list_all_iff intro!: utf8Valid_ascii simp del: utf8Valid_simps(2))

lemma clean_Cons: "32 \<le> c \<Longrightarrow> c < 0x80 \<Longrightarrow> clean s \<Longrightarrow> clean (c # s)"
  using clean_append [of "[c]" s] clean_ascii [of "[c]"] by simp

lemma clean_escapes: "clean (str (CHR 92 # ''u00''))" "clean (str (CHR 92 # ''ufffd''))" "clean (str (CHR 92 # ''u2028''))"
  "clean (str (CHR 92 # ''u2029''))"
  by (rule clean_ascii; simp add: str_escapes)+

lemma clean_hex: "clean (hexEncode b)"
proof (rule clean_ascii, rule ballI)
  fix c
  assume "c \<in> set (hexEncode b)"
  with lowerHex_hexEncode [of b] have "lowerHex c" by (auto simp: list_all_iff)
  then show "32 \<le> c \<and> c < 0x80" unfolding lowerHex_def by (auto simp: word_le_nat_alt word_less_nat_alt)
qed

lemma clean_rune:
  assumes "runeLen (c # t) \<noteq> 0" "\<not> c < 0x80"
  shows "clean (take (runeLen (c # t)) (c # t))"
proof -
  have "x \<noteq> 10 \<and> x \<noteq> 13" if "x \<in> set (take (runeLen (c # t)) (c # t))" for x
    using runeLen_high [OF assms that] by auto
  with utf8Valid_take [OF assms(1)] show ?thesis by (simp add: clean_def del: utf8Valid_simps(2))
qed

lemma clean_escapeString: "clean (escapeString s)"
proof (induction "length s" arbitrary: s rule: less_induct)
  case less
  show ?case
  proof (cases s)
    case Nil
    then show ?thesis by (simp add: escapeString.simps clean_def)
  next
    case (Cons c t)
    have IH: "length y \<le> length t \<Longrightarrow> clean (escapeString y)" for y using less [of y] Cons by simp
    have short: "32 \<le> e \<and> e < 0x80" if "shortEscape c = Some e" for e
      using that by (auto simp: shortEscape_def split: if_splits)
    have safe: "32 \<le> c \<and> c < 0x80" if "htmlSafe c" using that by (simp add: htmlSafe_def)
    show ?thesis unfolding Cons
      by (subst escapeString.simps)
        (auto simp: IH short safe clean_Cons clean_append clean_escapes clean_hex clean_rune split: option.split
          simp del: hexEncode_simps take_Cons')
  qed
qed

lemma clean_quoteString: "clean (quoteString s)"
  unfolding quoteString_def by (intro clean_append clean_escapeString) (simp_all add: clean_ascii)

lemma clean_number:
  assumes "isValidNumber n"
  shows "clean n"
proof -
  have d: "\<forall>c \<in> set a. 32 \<le> c \<and> c < 0x80" if "scanDigits s = Some (a, t)" for s a t
  proof
    fix c
    assume "c \<in> set a"
    with that have "isDigit c" by (auto simp: scanDigits_def Let_def split: if_splits dest: set_takeWhileD)
    then show "32 \<le> c \<and> c < 0x80" unfolding isDigit_def by (auto simp: word_le_nat_alt word_less_nat_alt)
  qed
  have i: "\<forall>c \<in> set a. 32 \<le> c \<and> c < 0x80" if "scanInt s = Some (a, t)" for s a t
    using that d [of s a t] by (auto simp: scanInt_def split: list.splits if_splits)
  have f: "\<forall>c \<in> set a. 32 \<le> c \<and> c < 0x80" if "scanFrac s = Some (a, t)" for s a t
    using that by (auto simp: scanFrac_def dest!: d split: list.splits if_splits)
  have e: "\<forall>c \<in> set a. 32 \<le> c \<and> c < 0x80" if "scanExp s = Some (a, t)" for s a t
    using that by (auto simp: scanExp_def dest!: d split: list.splits if_splits)
  from isValidNumber_scan(1) [OF assms, of "[]"] have "scanNumber n = Some (n, [])" by simp
  moreover obtain g u where g: "(case n of c # r \<Rightarrow> if c = 45 then ([c], r) else ([], n) | [] \<Rightarrow> ([], n)) = (g, u)" by fastforce
  ultimately obtain x t1 y t2 z where p: "scanInt u = Some (x, t1)" "scanFrac t1 = Some (y, t2)" "scanExp t2 = Some (z, [])"
    "n = g @ x @ y @ z"
    unfolding scanNumber_def Let_def by (auto split: option.splits)
  moreover have "g = [] \<or> g = [45]" using g by (auto split: list.splits if_splits)
  ultimately have "n = g @ x @ y @ z" "g = [] \<or> g = [45]" "\<forall>c \<in> set (x @ y @ z). 32 \<le> c \<and> c < 0x80"
    using i [OF p(1)] f [OF p(2)] e [OF p(3)] by auto
  then show ?thesis by (auto intro!: clean_ascii)
qed

lemma marshal_clean:
  "jsonMarshal v = Some b \<Longrightarrow> clean b" "marshalElems vs = Some b \<Longrightarrow> clean b" "marshalMembers m = Some b \<Longrightarrow> clean b"
proof (induction v and vs and m arbitrary: b and b and b rule: jsonMarshal_marshalElems_marshalMembers.induct)
  case (3 n)
  then show ?case by (auto simp: clean_number str_def intro: clean_ascii split: if_splits)
next
  case (8 x xs)
  then show ?case by (auto simp: clean_append clean_Cons split: option.splits if_splits)
next
  case (10 k v m)
  then show ?case by (auto simp: clean_append clean_Cons clean_quoteString Let_def split: option.splits if_splits)
qed (auto simp: json_words clean_quoteString clean_append clean_Cons clean_ascii)

section \<open>validateDoc\<close>

lemma validateDoc_Inr_iff:
  "validateDoc body maxBytes = Inr c \<longleftrightarrow>
     int (length body) \<le> maxBytes \<and> utf8Valid body \<and> int (length c) \<le> maxBytes \<and>
     (\<exists>m rest. jsonDecode body = Some (JObj m, rest) \<and> skipSpace rest = [] \<and> jsonMarshal (JObj m) = Some c)"
  unfolding validateDoc_def ensureJSONEnd_def isObject_def
  by (auto split: option.splits json.splits simp del: jsonMarshal.simps)

lemma jsonDecode_marshal:
  assumes "jsonDecode body = Some (v, rest)" "jsonMarshal v = Some c"
  shows "jsonDecode c = Some (v, [])"
proof -
  have "wfJson 0 v" using decode_wf(1) assms(1) by (auto simp: jsonDecode_def)
  from decode_marshal(1) [OF assms(2) this, of "[]" "2 * length c + 1"] show ?thesis by (simp add: jsonDecode_def)
qed

lemma validateDoc_fixpoint:
  assumes "validateDoc body maxBytes = Inr c"
  shows "validateDoc c maxBytes = Inr c"
proof -
  from assms obtain m rest where m: "jsonDecode body = Some (JObj m, rest)" "jsonMarshal (JObj m) = Some c" "int (length c) \<le> maxBytes"
    unfolding validateDoc_Inr_iff by blast
  with jsonDecode_marshal [OF m(1,2)] marshal_clean(1) [OF m(2)] show ?thesis
    unfolding validateDoc_Inr_iff by (auto simp: clean_def skipSpace_def simp del: utf8Valid_simps(2))
qed

section \<open>Properties\<close>

text \<open>
  C21: the canonical form of a document.  When \<open>validateDoc\<close> accepts a body, the document it
  returns is within the limit, decodes to the same JSON object as the body, is free of line
  ends, and is accepted unchanged when it is submitted again.
\<close>

theorem validateDoc_canonical:
  assumes "validateDoc body maxBytes = Inr c"
  shows "int (length c) \<le> maxBytes \<and>
    (\<exists>m rest. jsonDecode body = Some (JObj m, rest) \<and> jsonDecode c = Some (JObj m, [])) \<and>
    10 \<notin> set c \<and> 13 \<notin> set c \<and> validateDoc c maxBytes = Inr c"
proof -
  from assms obtain m rest where m: "jsonDecode body = Some (JObj m, rest)" "jsonMarshal (JObj m) = Some c" "int (length c) \<le> maxBytes"
    unfolding validateDoc_Inr_iff by blast
  with jsonDecode_marshal [OF m(1,2)] marshal_clean(1) [OF m(2)] validateDoc_fixpoint [OF assms] show ?thesis
    by (auto simp: clean_def simp del: utf8Valid_simps(2))
qed

definition looseDoc :: bytes where
  "looseDoc = str ''{ '' @ [34] @ str ''b'' @ [34] @ str '' : 1e2, '' @ [34] @ str ''a'' @ [34] @ str '':'' @ [34, 60, 34] @ str '' } ''"

definition canonicalDoc :: bytes where
  "canonicalDoc = str ''{'' @ [34] @ str ''a'' @ [34] @ str '':'' @ [34] @ str (CHR 92 # ''u003c'') @ [34] @ str '','' @
     [34] @ str ''b'' @ [34] @ str '':1e2}''"

lemma looseDoc_accepted: "validateDoc looseDoc 100 = Inr canonicalDoc"
  by code_simp

theorem validateDoc_canonical_witness: "validateDoc canonicalDoc 100 = Inr canonicalDoc"
  using validateDoc_canonical [OF looseDoc_accepted] by blast

end
