(* ===== verification/Bulk_Laws.thy ===== *)
theory Bulk_Laws
  imports Bulk
begin

text \<open>
  The reader of bulk imports, which works on buffered fragments, accepts exactly what a
  reference accepts that looks at whole lines; and the stream of an export delivers the
  documents it is given, one per line.
\<close>

section \<open>Reference\<close>

text \<open>The lines of a body, with their terminators.\<close>

function rawLines :: "bytes \<Rightarrow> bytes list" where
  "rawLines u =
     (if u = [] then []
      else if 10 \<in> set u
      then let l = takeWhile (\<lambda>c. c \<noteq> 10) u @ [10] in l # rawLines (drop (length l) u)
      else [u])"
  by pat_completeness auto
termination
  by (relation "measure length") auto

declare rawLines.simps [simp del]

definition complete :: "bytes \<Rightarrow> bool" where
  "complete raw = (raw \<noteq> [] \<and> last raw = 10)"

definition lineContent :: "bytes \<Rightarrow> bytes" where
  "lineContent raw = trimLineEnd raw (complete raw)"

text \<open>
  The exception: the carriage return of the line end is the last byte of a full buffer, and
  the content has just the length of the limit.
\<close>

definition splitCR :: "int \<Rightarrow> bytes \<Rightarrow> bool" where
  "splitCR maxLine raw \<longleftrightarrow> raw = lineContent raw @ [13, 10] \<and> int (length (lineContent raw)) = maxLine \<and>
     (length (lineContent raw) + 1) mod bufSize = 0"

definition goodLine :: "int \<Rightarrow> bytes \<Rightarrow> bytes \<Rightarrow> bool" where
  "goodLine maxLine raw doc \<longleftrightarrow> lineContent raw \<noteq> [] \<and> int (length (lineContent raw)) \<le> maxLine \<and>
     \<not> splitCR maxLine raw \<and> validateDoc (lineContent raw) maxLine = Inr doc"

section \<open>Line ends\<close>

lemma lineLen_content:
  assumes "complete raw = c"
  shows "lineLen raw c = int (length (lineContent raw))" "lineContent raw = trimLineEnd raw c"
proof -
  show t: "lineContent raw = trimLineEnd raw c" by (simp add: lineContent_def assms)
  show "lineLen raw c = int (length (lineContent raw))"
  proof (cases c)
    case True
    with assms have "raw \<noteq> []" "last raw = 10" by (auto simp: complete_def)
    then obtain x where x: "raw = x @ [10]" by (metis append_butlast_last_id)
    show ?thesis
    proof (cases x rule: rev_cases)
      case Nil
      then show ?thesis unfolding t using True x by (simp add: lineLen_def trimLineEnd_def trimSuffix_def)
    next
      case (snoc y b)
      then show ?thesis unfolding t using True x by (auto simp: lineLen_def trimLineEnd_def trimSuffix_def nth_append butlast_append)
    qed
  next
    case False
    then show ?thesis unfolding t by (simp add: lineLen_def trimLineEnd_def)
  qed
qed

lemma incomplete_content: "10 \<notin> set raw \<Longrightarrow> lineContent raw = raw"
proof -
  assume n: "10 \<notin> set raw"
  have "\<not> complete raw" unfolding complete_def by (metis n last_in_set)
  then show ?thesis by (simp add: lineContent_def trimLineEnd_def)
qed

text \<open>The fragments of a line that are checked before it is complete.\<close>

definition fragOK :: "int \<Rightarrow> bytes \<Rightarrow> bool" where
  "fragOK maxLine raw \<longleftrightarrow> int (bufSize * ((length raw - (if complete raw then 1 else 0)) div bufSize)) \<le> maxLine"

lemma fragOK_iff:
  assumes "int (length (lineContent raw)) \<le> maxLine"
  shows "fragOK maxLine raw \<longleftrightarrow> \<not> splitCR maxLine raw"
proof (cases "complete raw")
  case False
  then have c: "lineContent raw = raw" by (simp add: lineContent_def trimLineEnd_def)
  have "int (bufSize * (length raw div bufSize)) \<le> int (length raw)" by (simp only: of_nat_le_iff) simp
  then have "fragOK maxLine raw" using False assms c unfolding fragOK_def by simp
  moreover have "\<not> splitCR maxLine raw" using c by (simp add: splitCR_def)
  ultimately show ?thesis by simp
next
  case True
  then obtain x where x: "raw = x @ [10]" by (metis append_butlast_last_id complete_def)
  show ?thesis
  proof (cases "x \<noteq> [] \<and> last x = 13")
    case cr: True
    then obtain y where y: "x = y @ [13]" by (metis append_butlast_last_id)
    then have c: "lineContent raw = y" using True x by (simp add: lineContent_def trimLineEnd_def trimSuffix_def butlast_append)
    define k where "k = bufSize * ((length y + 1) div bufSize)"
    have k: "k \<le> length y + 1" "k = length y + 1 \<longleftrightarrow> (length y + 1) mod bufSize = 0"
    proof -
      have "k + (length y + 1) mod bufSize = length y + 1" unfolding k_def by (rule mult_div_mod_eq)
      then show "k \<le> length y + 1" "k = length y + 1 \<longleftrightarrow> (length y + 1) mod bufSize = 0" by linarith+
    qed
    have "fragOK maxLine raw \<longleftrightarrow> int k \<le> maxLine" using True x y by (simp add: fragOK_def k_def)
    moreover have "splitCR maxLine raw \<longleftrightarrow> int (length y) = maxLine \<and> k = length y + 1"
      unfolding splitCR_def c using k(2) by (auto simp: x y)
    ultimately show ?thesis using k(1) assms c by auto
  next
    case cr: False
    then have c: "lineContent raw = x" using True x by (auto simp: lineContent_def trimLineEnd_def trimSuffix_def)
    have "int (bufSize * (length x div bufSize)) \<le> int (length x)" by (simp only: of_nat_le_iff) simp
    then have "fragOK maxLine raw" using True assms c x unfolding fragOK_def by simp
    moreover have "\<not> splitCR maxLine raw" using c x cr by (auto simp: splitCR_def)
    ultimately show ?thesis by simp
  qed
qed

lemma goodLine_alt:
  "goodLine maxLine raw doc \<longleftrightarrow> lineContent raw \<noteq> [] \<and> int (length (lineContent raw)) \<le> maxLine \<and>
     fragOK maxLine raw \<and> validateDoc (lineContent raw) maxLine = Inr doc"
  unfolding goodLine_def using fragOK_iff [of raw maxLine] by blast

lemma rawLines_newline:
  assumes "10 \<notin> set acc" "10 \<in> set u"
  shows "rawLines (acc @ u) = (acc @ takeWhile (\<lambda>c. c \<noteq> 10) u @ [10]) # rawLines (drop (length (takeWhile (\<lambda>c. c \<noteq> 10) u) + 1) u)"
proof -
  have "takeWhile (\<lambda>c. c \<noteq> 10) (acc @ u) = acc @ takeWhile (\<lambda>c. c \<noteq> 10) u"
    using assms(1) by (intro takeWhile_append2) auto
  then show ?thesis using assms(2) by (subst rawLines.simps) (auto simp: Let_def)
qed

lemma rawLines_last: "10 \<notin> set u \<Longrightarrow> rawLines u = (if u = [] then [] else [u])"
  by (subst rawLines.simps) simp

lemma takeWhile_short: "x \<in> set (take k u) \<Longrightarrow> length (takeWhile (\<lambda>c. c \<noteq> x) u) < k"
proof (induction u arbitrary: k)
  case (Cons a u)
  then show ?case by (cases k) auto
qed simp

text \<open>A part of a line that fills the buffer is within the limit when the line is accepted.\<close>

lemma fullLine:
  assumes "10 \<notin> set p" "p \<noteq> []" "bufSize dvd length p" "list_all2 (goodLine maxLine) (rawLines (p @ v)) ds"
  shows "int (length p) \<le> maxLine"
proof -
  from assms(3) obtain k where k: "length p = bufSize * k" by (auto elim: dvdE)
  have b: "0 < bufSize" by (simp add: bufSize_def)
  have le: "int (length p) \<le> int (bufSize * ((length p + j) div bufSize))" for j
    using k b by (simp add: div_add1_eq) 
  show ?thesis
  proof (cases "10 \<in> set v")
    case True
    let ?raw = "p @ takeWhile (\<lambda>c. c \<noteq> 10) v @ [10]"
    from assms(4) have "fragOK maxLine ?raw"
      unfolding rawLines_newline [OF assms(1) True] list_all2_Cons1 goodLine_alt by blast
    moreover have "complete ?raw" by (simp add: complete_def)
    ultimately show ?thesis using le [of "length (takeWhile (\<lambda>c. c \<noteq> 10) v)"] by (simp add: fragOK_def)
  next
    case False
    with assms(1) have no: "10 \<notin> set (p @ v)" by simp
    have "\<not> complete (p @ v)" unfolding complete_def by (metis no last_in_set)
    moreover from assms(2,4) have "fragOK maxLine (p @ v)"
      unfolding rawLines_last [OF no] by (simp add: list_all2_Cons1 goodLine_alt) blast
    ultimately show ?thesis using le [of "length v"] by (simp add: fragOK_def)
  qed
qed

section \<open>The reader and the reference\<close>

text \<open>What the loop returns from a state in which \<open>line\<close> is the part of the current line read so far.\<close>

definition accepts :: "int \<Rightarrow> int \<Rightarrow> int \<Rightarrow> bytes list \<Rightarrow> bytes \<Rightarrow> int \<Rightarrow> bytes \<Rightarrow> bytes list \<Rightarrow> bool" where
  "accepts maxLine maxBytes maxDocs documents line count u out \<longleftrightarrow>
     count + int (length u) \<le> maxBytes \<and> out \<noteq> [] \<and>
     (\<exists>ds. out = documents @ ds \<and> (ds = [] \<or> int (length out) \<le> maxDocs) \<and>
        list_all2 (goodLine maxLine) (rawLines (line @ u)) ds)"

lemma loop_accepts:
  assumes "failure r = None" "10 \<notin> set line" "bufSize dvd length line" "line = [] \<or> int (length line) \<le> maxLine" "0 \<le> maxLine"
  shows "readBulk_loop ctxErr expired maxLine maxBytes maxDocs documents line count lineNumber r = Inr out \<longleftrightarrow>
    accepts maxLine maxBytes maxDocs documents line count (content r) out"
  using assms(1-4)
proof (induction "length (content r)" arbitrary: documents line count lineNumber r rule: less_induct)
  case less
  let ?u = "content r"
  let ?loop = "readBulk_loop ctxErr expired maxLine maxBytes maxDocs documents line count lineNumber r"
  consider (newline) "10 \<in> set (take bufSize ?u)"
    | (last) "10 \<notin> set (take bufSize ?u)" "length ?u < bufSize \<or> length ?u = bufSize \<and> eager r"
    | (full) "10 \<notin> set (take bufSize ?u)" "\<not> (length ?u < bufSize \<or> length ?u = bufSize \<and> eager r)"
    by blast
  then show ?case
  proof cases
    case newline
    define l where "l = takeWhile (\<lambda>c. c \<noteq> 10) ?u"
    define r' where "r' = r\<lparr>content := drop (length l + 1) ?u\<rparr>"
    let ?raw = "line @ l @ [10]"
    have mem: "10 \<in> set ?u" using newline by (rule in_set_takeD)
    have len: "length l < bufSize" unfolding l_def by (rule takeWhile_short [OF newline])
    have slice: "readSlice r = (l @ [10], SliceOk, r')"
      using newline by (simp add: readSlice_def l_def r'_def Let_def)
    have lc: "complete ?raw" by (simp add: complete_def)
    note ll = lineLen_content [of ?raw True]
    have frag: "fragOK maxLine ?raw" using lc len less.prems(3,4) assms(5)
      by (auto simp: fragOK_def elim!: dvdE)
    have shorter: "length (content r') < length ?u" using mem by (cases ?u) (auto simp: r'_def)
    define cnt ln where "cnt = count + int (length l + 1)" and "ln = lineNumber + 1"
    have unf: "?loop = (if cnt > maxBytes then Inl [ErrBulkLimit]
      else if int (length (lineContent ?raw)) > maxLine then Inl [BulkLine lineNumber, ErrBulkLimit]
      else if lineContent ?raw = [] then Inl [BulkLine lineNumber, ErrInvalidDoc]
      else if int (length documents) \<ge> maxDocs then Inl [BulkLine lineNumber, ErrBulkLimit]
      else case validateDoc (lineContent ?raw) maxLine of Inl e \<Rightarrow> Inl (BulkLine lineNumber # e)
        | Inr d \<Rightarrow> readBulk_loop ctxErr expired maxLine maxBytes maxDocs (documents @ [d]) [] (cnt) ln r')"
      using ll lc by (simp add: readBulk_loop.simps [of _ _ _ _ _ _ _ _ _ r] slice Let_def cnt_def ln_def split: sum.split)
    have IH: "readBulk_loop ctxErr expired maxLine maxBytes maxDocs (documents @ [d]) [] (cnt) ln r' = Inr out
      \<longleftrightarrow> accepts maxLine maxBytes maxDocs (documents @ [d]) [] (cnt) (content r') out" for d
      using less.prems(1) by (intro less.hyps [OF shorter]) (simp_all add: r'_def)
    have raw: "rawLines (line @ ?u) = ?raw # rawLines (content r')"
      using rawLines_newline [OF less.prems(2) mem] by (simp add: l_def r'_def)
    have total: "count + int (length ?u) = cnt + int (length (content r'))"
      using takeWhile_short [of 10 "length ?u" ?u] mem by (simp add: r'_def l_def cnt_def)
    show ?thesis
      unfolding unf accepts_def [of _ _ _ documents] raw list_all2_Cons1 total using frag
      by (auto simp: IH accepts_def goodLine_alt split: sum.splits)
  next
    case last
    have "10 \<notin> set ?u" using last by (metis take_all less_imp_le order_refl)
    then have no: "10 \<notin> set (line @ ?u)" using less.prems(2) by simp
    let ?raw = "line @ ?u"
    have slice: "readSlice r = (?u, SliceErr None, r\<lparr>content := []\<rparr>)"
      using last less.prems(1) by (simp add: readSlice_def Let_def)
    have c: "lineContent ?raw = ?raw" by (rule incomplete_content [OF no])
    have "\<not> complete ?raw" unfolding complete_def by (metis no last_in_set)
    note ll = lineLen_content [of ?raw False]
    have unf: "?loop = (if count + int (length ?u) > maxBytes then Inl [ErrBulkLimit]
      else if int (length ?raw) > maxLine then Inl [BulkLine lineNumber, ErrBulkLimit]
      else if ?raw = [] then (if documents = [] then Inl [ErrBulkEmpty] else Inr documents)
      else if int (length documents) \<ge> maxDocs then Inl [BulkLine lineNumber, ErrBulkLimit]
      else case validateDoc ?raw maxLine of Inl e \<Rightarrow> Inl (BulkLine lineNumber # e) | Inr d \<Rightarrow> Inr (documents @ [d]))"
      using ll \<open>\<not> complete ?raw\<close> c
      by (simp add: readBulk_loop.simps [of _ _ _ _ _ _ _ _ _ r] slice Let_def split: sum.split)
    have "goodLine maxLine ?raw d \<longleftrightarrow> ?raw \<noteq> [] \<and> int (length ?raw) \<le> maxLine \<and> validateDoc ?raw maxLine = Inr d" for d
      unfolding goodLine_def c using c by (auto simp: splitCR_def)
    then show ?thesis
      unfolding unf accepts_def rawLines_last [OF no] using assms(5)
      by (auto simp: list_all2_Cons1 split: sum.splits)
  next
    case full
    define r' where "r' = r\<lparr>content := drop bufSize ?u\<rparr>"
    let ?line = "line @ take bufSize ?u"
    have b: "bufSize \<le> length ?u" "0 < bufSize" using full by (auto simp: bufSize_def)
    have slice: "readSlice r = (take bufSize ?u, SliceFull, r')"
      using full by (simp add: readSlice_def Let_def r'_def)
    have no: "10 \<notin> set ?line" using full(1) less.prems(2) by simp
    have unf: "?loop = (if count + int bufSize > maxBytes then Inl [ErrBulkLimit]
      else if int (length ?line) > maxLine then Inl [BulkLine lineNumber, ErrBulkLimit]
      else readBulk_loop ctxErr expired maxLine maxBytes maxDocs documents ?line (count + int bufSize) lineNumber r')"
      using b by (simp add: readBulk_loop.simps [of _ _ _ _ _ _ _ _ _ r] slice Let_def lineLen_def)
    have IH: "readBulk_loop ctxErr expired maxLine maxBytes maxDocs documents ?line (count + int bufSize) lineNumber r' = Inr out
        \<longleftrightarrow> accepts maxLine maxBytes maxDocs documents ?line (count + int bufSize) (content r') out"
      if "int (length ?line) \<le> maxLine"
    proof (rule less.hyps)
      show "bufSize dvd length ?line" using less.prems(3) b by simp
    qed (use less.prems(1) b no that in \<open>auto simp: r'_def\<close>)
    have same: "accepts maxLine maxBytes maxDocs documents ?line (count + int bufSize) (content r') out \<longleftrightarrow>
        accepts maxLine maxBytes maxDocs documents line count ?u out"
      using b by (simp add: accepts_def r'_def)
    have "int (length ?line) \<le> maxLine" if "accepts maxLine maxBytes maxDocs documents line count ?u out"
    proof -
      from that obtain ds where "list_all2 (goodLine maxLine) (rawLines (?line @ drop bufSize ?u)) ds"
        by (auto simp: accepts_def)
      moreover have "?line \<noteq> []" "bufSize dvd length ?line" using less.prems(3) b by auto
      ultimately show ?thesis using no by (intro fullLine)
    qed
    then show ?thesis unfolding unf using IH same b by (auto simp: accepts_def)
  qed
qed

lemma loop_read_error:
  "failure r \<noteq> None \<Longrightarrow> readBulk_loop ctxErr expired maxLine maxBytes maxDocs documents line count lineNumber r \<noteq> Inr out"
proof (induction "length (content r)" arbitrary: documents line count lineNumber r rule: less_induct)
  case less
  obtain f e r' where slice: "readSlice r = (f, e, r')" by (metis prod.collapse)
  then have r': "failure r' \<noteq> None" and e: "e \<noteq> SliceErr None"
    using less.prems by (auto simp: readSlice_def Let_def split: if_splits)
  show ?case
  proof (cases e)
    case (SliceErr x)
    with e show ?thesis
      by (subst readBulk_loop.simps) (auto simp: slice Let_def split: option.splits)
  next
    case SliceOk
    with less.hyps [OF readSlice_shorter [OF slice] r'] show ?thesis
      by (simp add: readBulk_loop.simps [of _ _ _ _ _ _ _ _ _ r] slice Let_def split: sum.split)
  next
    case SliceFull
    with less.hyps [OF readSlice_shorter [OF slice] r'] show ?thesis
      by (simp add: readBulk_loop.simps [of _ _ _ _ _ _ _ _ _ r] slice Let_def)
  qed
qed

lemma loop_negative:
  "maxLine < 0 \<Longrightarrow> readBulk_loop ctxErr expired maxLine maxBytes maxDocs documents line count lineNumber r \<noteq> Inr out"
  by (subst readBulk_loop.simps) (auto simp: lineLen_def Let_def split: prod.splits)

section \<open>The stream of an export\<close>

definition ndjson :: "bytes list \<Rightarrow> bytes" where
  "ndjson docs = concat (map (\<lambda>d. d @ [10]) docs)"

text \<open>What a stream has been given so far: what the client has received and what is buffered.\<close>

definition streamed :: "bulkStream \<Rightarrow> bytes" where
  "streamed s = sent (writer s) @ buffered s"

lemma bufFlush_streamed:
  "streamed (snd (bufFlush s)) = streamed s"
  "fst (bufFlush s) \<Longrightarrow> \<not> bufErr (snd (bufFlush s)) \<and> buffered (snd (bufFlush s)) = []"
  "\<not> fst (bufFlush s) \<Longrightarrow> bufErr (snd (bufFlush s))"
  by (auto simp: bufFlush_def streamed_def netWrite_def Let_def split: prod.splits if_splits)

lemma bufWrite_streamed:
  "prefix (streamed (snd (bufWrite p s))) (streamed s @ p) \<and>
    (fst (bufWrite p s) \<longrightarrow> streamed (snd (bufWrite p s)) = streamed s @ p)"
proof (induction p s rule: bufWrite.induct)
  case (1 p s)
  show ?case
  proof (cases "length p > bulkBufferSize - length (buffered s) \<and> \<not> bufErr s")
    case False
    then show ?thesis by (subst (1 2 3) bufWrite.simps) (auto simp: streamed_def)
  next
    case more: True
    show ?thesis
    proof (cases "buffered s = []")
      case True
      obtain n ok w where net: "netWrite p (writer s) = (n, ok, w)" by (metis prod.collapse)
      let ?s = "s\<lparr>writer := w, bufErr := \<not> ok\<rparr>"
      have "bufWrite p s = bufWrite (drop n p) ?s"
        using more True net by (subst bufWrite.simps) simp
      moreover have "streamed ?s @ drop n p = streamed s @ p"
        using net True by (auto simp: netWrite_def streamed_def Let_def)
      ultimately show ?thesis using "1.IH"(1) [OF more True net [symmetric] refl refl] by simp
    next
      case False
      let ?n = "bulkBufferSize - length (buffered s)"
      let ?s = "snd (bufFlush (s\<lparr>buffered := buffered s @ take ?n p\<rparr>))"
      have "bufWrite p s = bufWrite (drop ?n p) ?s"
        using more False by (subst bufWrite.simps) (simp add: Let_def)
      moreover have "streamed ?s @ drop ?n p = streamed s @ p"
        by (simp add: bufFlush_streamed(1)) (simp add: streamed_def)
      ultimately show ?thesis using "1.IH"(2) [OF more False refl] by simp
    qed
  qed
qed

lemma bufWriteByte_streamed:
  "prefix (streamed (snd (bufWriteByte c s))) (streamed s @ [c])"
  "fst (bufWriteByte c s) \<Longrightarrow> streamed (snd (bufWriteByte c s)) = streamed s @ [c]"
  using bufFlush_streamed(1) [of s]
  by (auto simp: bufWriteByte_def Let_def split: prod.splits if_splits) (auto simp: streamed_def)

lemma streamFlush_streamed:
  "streamed (snd (streamFlush c s)) = streamed s"
  "fst (streamFlush c s) = Inr () \<Longrightarrow> buffered (snd (streamFlush c s)) = [] \<and> \<not> bufErr (snd (streamFlush c s))"
  using bufFlush_streamed [of s] by (auto simp: streamFlush_def streamed_def Let_def split: prod.splits if_splits)

lemma streamWrite_streamed:
  "prefix (streamed (snd (streamWrite c d s))) (streamed s @ d @ [10])"
  "fst (streamWrite c d s) = Inr () \<Longrightarrow> streamed (snd (streamWrite c d s)) = streamed s @ d @ [10]"
proof -
  define s0 where "s0 = (if \<not> started s then s\<lparr>writer := writeHeader 200 (writer s), started := True\<rparr> else s)"
  have s0: "streamed s0 = streamed s" by (simp add: s0_def streamed_def writeHeader_def)
  obtain ok1 s1 where w: "bufWrite d s0 = (ok1, s1)" by fastforce
  obtain ok2 s2 where b: "bufWriteByte 10 s1 = (ok2, s2)" by fastforce
  define s3 where "s3 = s2\<lparr>pending := pending s2 + int (length d) + 1\<rparr>"
  have s3: "streamed s3 = streamed s2" by (simp add: s3_def streamed_def)
  have run: "streamWrite c d s = (if \<not> ok1 then (Inl [], s1) else if \<not> ok2 then (Inl [], s2)
      else if pending s3 < int bulkBufferSize then (Inr (), s3) else streamFlush c s3)"
    by (simp add: streamWrite_def s0_def [symmetric] w b s3_def Let_def)
  have p1: "prefix (streamed s1) (streamed s @ d)" "ok1 \<Longrightarrow> streamed s1 = streamed s @ d"
    using bufWrite_streamed [of d s0] w s0 by auto
  have p2: "prefix (streamed s2) (streamed s1 @ [10])" "ok2 \<Longrightarrow> streamed s2 = streamed s1 @ [10]"
    using bufWriteByte_streamed [of 10 s1] b by auto
  note p3 = streamFlush_streamed(1) [of c s3]
  show "prefix (streamed (snd (streamWrite c d s))) (streamed s @ d @ [10])"
    using p1 p2 p3 s3 unfolding run by (auto intro: prefix_order.trans [of _ "streamed s @ d"])
  show "fst (streamWrite c d s) = Inr () \<Longrightarrow> streamed (snd (streamWrite c d s)) = streamed s @ d @ [10]"
    using p1(2) p2(2) p3 s3 unfolding run by (auto split: if_splits)
qed

section \<open>Properties\<close>

text \<open>
  C20: the reader of a bulk import accepts a body exactly when the body was read to its end, is
  within the byte limit, has at least one line and at most the allowed number, and every
  line holds a valid document within the line limit; it then returns the canonical documents
  in order.  The buffered reading makes one exception: a line whose content has just the
  length of the limit is rejected when its carriage return is the last byte of a full buffer.
\<close>

theorem readBulk_accepts:
  "readBulkCtx ctxErr expired r maxLine maxBytes maxDocs = Inr docs \<longleftrightarrow>
     failure r = None \<and> docs \<noteq> [] \<and> int (length (content r)) \<le> maxBytes \<and> int (length docs) \<le> maxDocs \<and>
     list_all2 (goodLine maxLine) (rawLines (content r)) docs"
proof (cases "failure r = None \<and> 0 \<le> maxLine")
  case True
  then have "readBulkCtx ctxErr expired r maxLine maxBytes maxDocs = Inr docs \<longleftrightarrow>
      accepts maxLine maxBytes maxDocs [] [] 0 (content r) docs"
    unfolding readBulkCtx_def by (intro loop_accepts) simp_all
  with True show ?thesis by (auto simp: accepts_def)
next
  case False
  have "\<not> list_all2 (goodLine maxLine) (rawLines (content r)) docs" if "maxLine < 0" "docs \<noteq> []"
    using that by (auto simp: neq_Nil_conv list_all2_Cons2 goodLine_def)
  with False loop_read_error [of r] loop_negative [of maxLine] show ?thesis
    unfolding readBulkCtx_def by (metis not_less)
qed

end
