(* ===== verification/Api_Laws.thy ===== *)
theory Api_Laws
  imports Startup Meta_Laws Store_Create Import_Laws Json_Laws Bulk_Laws
begin

text \<open>
  What every request keeps: the store stays the representation of an abstract state whose
  documents are canonical JSON objects within the body limit, whatever the request, the
  randomness and the faults of Pebble are; and the slots of bulk requests are given back.
\<close>

section \<open>Canonical documents\<close>

definition canonicalDocs :: "int \<Rightarrow> astate \<Rightarrow> bool" where
  "canonicalDocs limit A \<longleftrightarrow>
     (\<forall>n a i d. A n = Some a \<longrightarrow> aDocs a i = Some d \<longrightarrow> validateDoc (docJson d) limit = Inr (docJson d))"

lemma canonicalDocs_putDoc:
  "canonicalDocs limit A \<Longrightarrow> A n = Some a \<Longrightarrow> (\<And>d. x = Some d \<Longrightarrow> validateDoc (docJson d) limit = Inr (docJson d)) \<Longrightarrow>
     canonicalDocs limit (putDoc A n a i x)"
  by (auto simp: canonicalDocs_def putDoc_def split: if_splits)

lemma canonicalDocs_importInto:
  "canonicalDocs limit A \<Longrightarrow> A n \<noteq> None \<Longrightarrow> (\<And>doc i rv. (doc, i, rv) \<in> set xs \<Longrightarrow> validateDoc doc limit = Inr doc) \<Longrightarrow>
     canonicalDocs limit (importInto A n xs)"
proof (induction A n xs rule: importInto.induct)
  case (2 A n document docID rv rest)
  then have "canonicalDocs limit (putDoc A n (the (A n)) docID (Some \<lparr>docJson = document, docRev = rv\<rparr>))"
    using "2.prems"(3) [of document docID rv] by (intro canonicalDocs_putDoc) auto
  moreover have "putDoc A n (the (A n)) docID (Some \<lparr>docJson = document, docRev = rv\<rparr>) n \<noteq> None" by (simp add: putDoc_def)
  ultimately show ?case using "2.IH" "2.prems"(3) by auto
qed simp

lemma canonicalDocs_spec:
  "canonicalDocs limit A \<Longrightarrow> spec_createDB n defs A res A' \<Longrightarrow> canonicalDocs limit A'"
  "canonicalDocs limit A \<Longrightarrow> spec_deleteDB n A res A' \<Longrightarrow> canonicalDocs limit A'"
  "canonicalDocs limit A \<Longrightarrow> spec_deleteDoc n i match A res A' \<Longrightarrow> canonicalDocs limit A'"
  "canonicalDocs limit A \<Longrightarrow> validateDoc json limit = Inr json \<Longrightarrow> spec_createDoc n json A res' A' \<Longrightarrow> canonicalDocs limit A'"
  subgoal by (auto simp: spec_createDB_def canonicalDocs_def split: if_splits)
  subgoal by (auto simp: spec_deleteDB_def canonicalDocs_def split: if_splits)
  subgoal by (auto simp: spec_deleteDoc_def docAt_def split: if_splits option.splits intro!: canonicalDocs_putDoc)
  subgoal by (auto simp: spec_createDoc_def split: if_splits option.splits sum.splits intro!: canonicalDocs_putDoc)
  done

lemma canonicalDocs_write:
  assumes "canonicalDocs limit A" "A n = Some a" "validateDoc json limit = Inr json" "spec_write n i a d json A res A'"
  shows "canonicalDocs limit A'"
proof (cases "indexValues json (aDefs a)")
  case (Inr vs)
  with assms show ?thesis by (auto simp: spec_write_def split: if_splits intro!: canonicalDocs_putDoc)
qed (use assms in \<open>simp add: spec_write_def\<close>)

lemma canonicalDocs_patch:
  assumes "canonicalDocs limit A" "\<And>d json. apply d = Inr json \<Longrightarrow> validateDoc json limit = Inr json"
    "spec_patchDoc n i match apply A res A'"
  shows "canonicalDocs limit A'"
proof (cases "docAt A n i")
  case (Some p)
  then obtain a d where p: "p = (a, d)" "A n = Some a" by (auto simp: docAt_def split: option.splits)
  show ?thesis
  proof (cases "apply (docJson d)")
    case (Inr json)
    with assms Some p show ?thesis
      by (auto simp: spec_patchDoc_def split: if_splits intro: canonicalDocs_write)
  qed (use assms Some p in \<open>auto simp: spec_patchDoc_def split: if_splits\<close>)
qed (use assms in \<open>simp add: spec_patchDoc_def\<close>)

lemma canonicalDocs_replace:
  "canonicalDocs limit A \<Longrightarrow> validateDoc json limit = Inr json \<Longrightarrow> spec_replaceDoc n i json match A res A' \<Longrightarrow> canonicalDocs limit A'"
  unfolding spec_replaceDoc_def by (auto intro: canonicalDocs_patch)

lemma canonicalDocs_import:
  assumes "canonicalDocs limit A" "\<And>doc. doc \<in> set documents \<Longrightarrow> validateDoc doc limit = Inr doc"
    "spec_import n documents A ids A'"
  shows "canonicalDocs limit A'"
  using assms unfolding spec_import_def by (auto intro!: canonicalDocs_importInto dest: set_zip_leftD)

text \<open>What the handlers hand to the store is canonical.\<close>

lemma requestDoc_canonical: "requestDoc env r = Inr document \<Longrightarrow> validateDoc document (maxBodyBytes env) = Inr document"
proof -
  assume "requestDoc env r = Inr document"
  then obtain body where b: "(case validateDoc body (maxBodyBytes env) of
       Inl e \<Rightarrow>
         if errors_Is e ErrBodyTooLarge then Inl (writeError [] 413 ''content_too_large'' ''Document exceeds the size limit'')
         else Inl (writeError [] 400 ''invalid_document'' ''Document must be a JSON object'')
     | Inr document \<Rightarrow> Inr document) = Inr document"
    unfolding requestDoc_def bindE_Inr_iff by blast
  then have "validateDoc body (maxBodyBytes env) = Inr document"
    by (cases "validateDoc body (maxBodyBytes env)") (auto split: if_splits)
  then show ?thesis by (rule validateDoc_fixpoint)
qed

lemma applyPatch_canonical: "applyPatch P document body mt limit = Inr json \<Longrightarrow> validateDoc json limit = Inr json"
  by (auto simp: applyPatch_def split: option.splits sum.splits patchErr.splits if_splits intro: validateDoc_fixpoint)

lemma readBulk_canonical:
  assumes "readBulkCtx ctxErr expired r maxLine maxBytes maxDocs = Inr docs" "doc \<in> set docs"
  shows "validateDoc doc maxLine = Inr doc"
proof (cases "0 \<le> maxLine \<and> failure r = None")
  case True
  with assms(1) have "accepts maxLine maxBytes maxDocs [] [] 0 (content r) docs"
    unfolding readBulkCtx_def by (subst (asm) loop_accepts) simp_all
  then have "list_all2 (goodLine maxLine) (rawLines (content r)) docs" by (auto simp: accepts_def)
  with assms(2) obtain raw where "goodLine maxLine raw doc" by (auto simp: list_all2_conv_all_nth in_set_conv_nth)
  then show ?thesis by (auto simp: goodLine_def intro: validateDoc_fixpoint)
next
  case False
  then show ?thesis
  proof (cases "failure r = None")
    case True
    with False assms(1) loop_negative [of maxLine] show ?thesis unfolding readBulkCtx_def by (auto simp: not_le)
  next
    case fails: False
    with assms(1) loop_read_error [of r] show ?thesis unfolding readBulkCtx_def by blast
  qed
qed

section \<open>What an operation keeps\<close>

definition goodStore :: "('db, 'p, 'q) apiEnv \<Rightarrow> ('db \<Rightarrow> bytes \<rightharpoonup> bytes) \<Rightarrow> 'db sys \<Rightarrow> bool" where
  "goodStore env kv s \<longleftrightarrow>
     (\<exists>A. rep (services env) (wrappingKey env) (kv (pdb s)) A \<and> canonicalDocs (maxBodyBytes env) A)"

text \<open>What a handler keeps of the state of the server.\<close>

definition keeps :: "('db, 'p, 'q) apiEnv \<Rightarrow> ('db \<Rightarrow> bytes \<rightharpoonup> bytes) \<Rightarrow> 'db apiState \<Rightarrow> 'db apiState \<Rightarrow> bool" where
  "keeps env kv st st' \<longleftrightarrow> (goodStore env kv (store st) \<longrightarrow> goodStore env kv (store st')) \<and>
     kv (pdb (store st')) storeMetaKey = kv (pdb (store st)) storeMetaKey \<and>
     bulkSlots st' = bulkSlots st \<and> stopping st' = stopping st"

lemma keeps_refl [simp]: "keeps env kv st st"
  by (simp add: keeps_def)

lemma keeps_onStore:
  assumes "onStore m st = (res, st')" "goodStore env kv (store st) \<Longrightarrow> goodStore env kv (snd (m (store st)))" "metaKept kv m"
  shows "keeps env kv st st'"
  using assms by (auto simp: keeps_def onStore_def metaKept_def split: prod.splits) (metis snd_conv)+

lemma keeps_onStore_read: "onStore (readM f) st = (res, st') \<Longrightarrow> keeps env kv st st'"
  by (auto simp: onStore_def readM_def)

lemma keeps_onStore_world: "onStore (worldM f) st = (res, st') \<Longrightarrow> keeps env kv st st'"
  by (rule keeps_onStore) (auto simp: worldM_def goodStore_def split: sum.splits)

lemma validDocPath_None:
  "validDocPath r = None \<Longrightarrow> validName (pathValue r ''database'') \<and> validID (pathValue r ''id'')"
  by (auto simp: validDocPath_def isOk_iff split: if_splits)

lemma executePathQuery_pdb: "pdb (snd (executePathQuery E J wk ctx n plan query s)) = pdb s"
proof -
  have "wp (executePathQuery E J wk ctx n plan query) (\<lambda>_ s'. pdb s' = pdb s) s"
    unfolding executePathQuery_def by (auto simp: wp_simps Let_def split: sum.splits prod.splits)
  then show ?thesis by (simp add: wp_def split: prod.splits)
qed

locale api_laws = store_api "services env" kv F "wrappingKey env"
  for env :: "('db, 'p, 'q) apiEnv" and kv F
begin

lemma good_outcome:
  assumes "goodStore env kv s"
    "\<And>A. rep (services env) (wrappingKey env) (kv (pdb s)) A \<Longrightarrow> canonicalDocs (maxBodyBytes env) A \<Longrightarrow>
      wp m (outcome (services env) kv F (wrappingKey env) True spec A) s"
    "\<And>A r A'. canonicalDocs (maxBodyBytes env) A \<Longrightarrow> spec A r A' \<Longrightarrow> canonicalDocs (maxBodyBytes env) A'"
  shows "goodStore env kv (snd (m s))"
proof -
  from assms(1) obtain A where A: "rep (services env) (wrappingKey env) (kv (pdb s)) A" "canonicalDocs (maxBodyBytes env) A"
    by (auto simp: goodStore_def)
  from assms(2) [OF A] have "outcome (services env) kv F (wrappingKey env) True spec A (fst (m s)) (snd (m s))"
    by (simp add: wp_def split: prod.splits)
  with A(2) assms(3) [OF A(2)] show ?thesis unfolding goodStore_def outcome_def by blast
qed

lemma wp_createDoc:
  "rep (services env) (wrappingKey env) (kv (pdb s)) A \<Longrightarrow> validName n \<Longrightarrow>
     wp (createDoc (services env) (wrappingKey env) n json) (outcome (services env) kv F (wrappingKey env) True (spec_createDoc n json) A) s"
  unfolding wp_def by (auto split: prod.splits intro: createDoc_outcome)

lemma createDB_good:
  "validName n \<Longrightarrow> goodStore env kv s \<Longrightarrow> goodStore env kv (snd (createDB (services env) (wrappingKey env) n defs s))"
  by (erule good_outcome [where spec = "spec_createDB n defs"], rule createDB_outcome)
    (auto intro: canonicalDocs_spec)

lemma deleteDB_good:
  "validName n \<Longrightarrow> goodStore env kv s \<Longrightarrow> goodStore env kv (snd (deleteDB (services env) (wrappingKey env) n s))"
  by (erule good_outcome [where spec = "spec_deleteDB n"], rule deleteDB_outcome)
    (auto intro: canonicalDocs_spec)

lemma deleteDoc_good:
  "validName n \<Longrightarrow> validID i \<Longrightarrow> goodStore env kv s \<Longrightarrow>
     goodStore env kv (snd (deleteDoc (services env) (wrappingKey env) n i match s))"
  by (erule good_outcome [where spec = "spec_deleteDoc n i match"], rule deleteDoc_outcome)
    (auto intro: canonicalDocs_spec)

lemma createDoc_good:
  "validName n \<Longrightarrow> validateDoc json (maxBodyBytes env) = Inr json \<Longrightarrow> goodStore env kv s \<Longrightarrow>
     goodStore env kv (snd (createDoc (services env) (wrappingKey env) n json s))"
  by (erule good_outcome [where spec = "spec_createDoc n json"], rule wp_createDoc)
    (auto intro: canonicalDocs_spec)

lemma replaceDoc_good:
  "validName n \<Longrightarrow> validID i \<Longrightarrow> validateDoc json (maxBodyBytes env) = Inr json \<Longrightarrow> goodStore env kv s \<Longrightarrow>
     goodStore env kv (snd (replaceDoc (services env) (wrappingKey env) n i json match s))"
  by (erule good_outcome [where spec = "spec_replaceDoc n i json match"], rule replaceDoc_outcome)
    (auto intro: canonicalDocs_replace)

lemma patchDoc_good:
  "validName n \<Longrightarrow> validID i \<Longrightarrow> (\<And>d json. apply d = Inr json \<Longrightarrow> validateDoc json (maxBodyBytes env) = Inr json) \<Longrightarrow>
     goodStore env kv s \<Longrightarrow> goodStore env kv (snd (patchDoc (services env) (wrappingKey env) n i match apply s))"
  by (erule good_outcome [where spec = "spec_patchDoc n i match apply"], rule patchDoc_outcome)
    (auto intro: canonicalDocs_patch)

lemma importDocs_good:
  assumes "validName n" "\<And>doc. doc \<in> set documents \<Longrightarrow> validateDoc doc (maxBodyBytes env) = Inr doc" "goodStore env kv s"
  shows "goodStore env kv (snd (importDocs (services env) (wrappingKey env) ctx n documents mx s))"
proof -
  from assms(3) obtain A where A: "rep (services env) (wrappingKey env) (kv (pdb s)) A" "canonicalDocs (maxBodyBytes env) A"
    by (auto simp: goodStore_def)
  obtain res s' where run: "importDocs (services env) (wrappingKey env) ctx n documents mx s = (res, s')" by fastforce
  from importDocs_rep [OF A(1) assms(1) run] canonicalDocs_import [OF A(2) assms(2), of documents n] A(2) show ?thesis
    unfolding importOutcome_def goodStore_def run by (cases res) auto
qed

lemma apiCreateDB_keeps: "keeps env kv st (snd (apiCreateDB env r st))"
  unfolding apiCreateDB_def
  by (auto simp: isOk_iff split: sum.splits option.splits prod.splits intro!: keeps_onStore [OF _ createDB_good] metaKept_databases)

lemma apiListDBs_keeps: "keeps env kv st (snd (apiListDBs env r st))"
  unfolding apiListDBs_def by (auto split: sum.splits prod.splits intro: keeps_onStore_read)

lemma apiDeleteDB_keeps: "keeps env kv st (snd (apiDeleteDB env r st))"
  unfolding apiDeleteDB_def Let_def
  by (auto simp: isOk_iff split: sum.splits prod.splits intro!: keeps_onStore [OF _ deleteDB_good] metaKept_databases)

lemma apiListDocs_keeps: "keeps env kv st (snd (apiListDocs env r st))"
  unfolding apiListDocs_def Let_def by (auto split: sum.splits prod.splits intro: keeps_onStore_world)

lemma apiQueryDocs_keeps: "keeps env kv st (snd (apiQueryDocs env r st))"
proof -
  have q: "onStore (executePathQuery (services env) (pathLib env) (wrappingKey env) ctx n plan query) st = (res, st') \<Longrightarrow>
      keeps env kv st st'" for ctx n plan query res st'
    by (rule keeps_onStore) (auto simp: goodStore_def executePathQuery_pdb metaKept_def)
  show ?thesis unfolding apiQueryDocs_def Let_def by (auto split: sum.splits prod.splits intro: q)
qed

lemma apiCreateDoc_keeps: "keeps env kv st (snd (apiCreateDoc env r st))"
  unfolding apiCreateDoc_def Let_def
  by (auto simp: isOk_iff split: sum.splits prod.splits intro!: keeps_onStore [OF _ createDoc_good] metaKept_createDoc dest: requestDoc_canonical)

lemma apiGetDoc_keeps: "keeps env kv st (snd (apiGetDoc env r st))"
  unfolding apiGetDoc_def by (auto split: option.splits sum.splits prod.splits intro: keeps_onStore_read)

lemma apiReplaceDoc_keeps: "keeps env kv st (snd (apiReplaceDoc env r st))"
  unfolding apiReplaceDoc_def
  by (auto split: option.splits sum.splits prod.splits intro!: keeps_onStore [OF _ replaceDoc_good] metaKept_documents
      dest: requestDoc_canonical validDocPath_None)

lemma apiPatchDoc_keeps: "keeps env kv st (snd (apiPatchDoc env r st))"
  unfolding apiPatchDoc_def
  by (auto split: option.splits sum.splits prod.splits intro!: keeps_onStore [OF _ patchDoc_good] metaKept_documents
      dest: applyPatch_canonical validDocPath_None)

lemma apiDeleteDoc_keeps: "keeps env kv st (snd (apiDeleteDoc env r st))"
  unfolding apiDeleteDoc_def
  by (auto split: option.splits sum.splits prod.splits intro!: keeps_onStore [OF _ deleteDoc_good] metaKept_documents dest: validDocPath_None)

lemma startBulk_cases:
  assumes "startBulk env r st = (res, st')"
  shows "(\<exists>resp. res = Some resp \<and> st' = st) \<or>
    (res = None \<and> st' = st\<lparr>bulkSlots := bulkSlots st + 1\<rparr> \<and> bulkSlots st < bulkConcurrency (bulkCfg env) \<and>
     validName (pathValue r ''database''))"
  using assms by (auto simp: startBulk_def takeBulkSlot_def freeBulkSlot_def isOk_iff split: if_splits deadlineResult.splits)

lemma keeps_slot:
  "keeps env kv (st\<lparr>bulkSlots := bulkSlots st + 1\<rparr>) st' \<Longrightarrow> keeps env kv st (freeBulkSlot st')"
  by (simp add: keeps_def freeBulkSlot_def)

lemma exportBulk_keeps: "keeps env kv st (snd (exportBulk env r st))"
proof (cases "startBulk env r st")
  case (Pair res st')
  from startBulk_cases [OF this] Pair show ?thesis
    by (auto simp: exportBulk_def Let_def keeps_slot split: prod.splits)
qed

lemma importBulk_keeps: "keeps env kv st (snd (importBulk env r st))"
proof (cases "startBulk env r st")
  case (Pair res st')
  have i: "onStore (importDocs (services env) (wrappingKey env) ctx n documents mx) st1 = (res, st2) \<Longrightarrow> validName n \<Longrightarrow>
      readBulkCtx ctxErr expired rd (maxBodyBytes env) mb md = Inr documents \<Longrightarrow> keeps env kv st1 st2"
    for ctx n documents mx st1 res st2 ctxErr expired rd mb md
    by (rule keeps_onStore) (auto intro!: importDocs_good metaKept_importDocs dest: readBulk_canonical)
  from startBulk_cases [OF Pair] Pair show ?thesis
    by (auto simp: importBulk_def keeps_slot split: sum.splits prod.splits intro: keeps_slot [OF i])
qed

lemma dispatch_keeps: "keeps env kv st (snd (dispatch env h r st))"
  by (cases h) (simp_all add: apiWelcome_def apiHealth_def queryOptions_def apiCreateDB_keeps apiListDBs_keeps apiListDocs_keeps
      apiQueryDocs_keeps apiDeleteDB_keeps apiCreateDoc_keeps apiGetDoc_keeps apiReplaceDoc_keeps apiPatchDoc_keeps
      apiDeleteDoc_keeps exportBulk_keeps importBulk_keeps)

lemma serve_keeps: "keeps env kv st (snd (serve muxAnswer env r st))"
  unfolding serve_defs by (auto simp: dispatch_keeps split: option.splits prod.splits)

end

section \<open>Sequences of requests\<close>

lemma keeps_trans: "keeps env kv st st1 \<Longrightarrow> keeps env kv st1 st2 \<Longrightarrow> keeps env kv st st2"
  by (simp add: keeps_def)

context api_laws
begin

lemma serveAll_keeps: "keeps env kv st (snd (serveAll muxAnswer env rs st))"
proof (induction rs arbitrary: st)
  case (Cons r rs)
  show ?case using keeps_trans [OF serve_keeps [of st muxAnswer r] Cons.IH] by (simp add: Let_def prod.case_eq_if)
qed simp

end

end
