(* ===== verification/Route_Laws.thy ===== *)
theory Route_Laws
  imports Http_Routes
begin

text \<open>
  What the patterns of the API amount to: the reference table of resources and methods, and that
  the routing tree of \<open>http.ServeMux\<close> built from the registered patterns computes exactly it.
\<close>

section \<open>The reference\<close>

definition dbSeg :: bytes where "dbSeg = str ''db''"
definition bulkSeg :: bytes where "bulkSeg = str ''bulk''"
definition healthSeg :: bytes where "healthSeg = str ''healthz''"
definition databaseVar :: bytes where "databaseVar = str ''database''"
definition idVar :: bytes where "idVar = str ''id''"

definition rootHandlers :: "(bytes \<times> handler) list" where
  "rootHandlers = [(methodGet, HWelcome)]"
definition healthHandlers :: "(bytes \<times> handler) list" where
  "healthHandlers = [(methodGet, HHealth)]"
definition dbsHandlers :: "(bytes \<times> handler) list" where
  "dbsHandlers = [(methodPost, HCreateDB), (methodGet, HListDBs)]"
definition dbHandlers :: "(bytes \<times> handler) list" where
  "dbHandlers = [(methodGet, HListDocs), (queryMethod, HQueryDocs), (methodOptions, HQueryOptions),
     (methodDelete, HDeleteDB), (methodPost, HCreateDoc)]"
definition docHandlers :: "(bytes \<times> handler) list" where
  "docHandlers = [(methodGet, HGetDoc), (methodPut, HReplaceDoc), (methodPatch, HPatchDoc), (methodDelete, HDeleteDoc)]"
definition bulkHandlers :: "(bytes \<times> handler) list" where
  "bulkHandlers = [(methodGet, HExportBulk), (methodPost, HImportBulk)]"

fun routeSpec :: "bytes \<Rightarrow> bytes list \<Rightarrow> handler \<times> (bytes \<times> bytes) list" where
  "routeSpec m [a] =
     (if a = [47] then (resource rootHandlers m, [])
      else if a = healthSeg then (resource healthHandlers m, [])
      else if a = dbSeg then (resource dbsHandlers m, [])
      else (HNotFound, []))"
| "routeSpec m [a, b] =
     (if b = [47] then
        (if a = healthSeg then (slashed healthHandlers m, [])
         else if a = dbSeg then (slashed dbsHandlers m, [])
         else (HNotFound, []))
      else if a = dbSeg then (resource dbHandlers m, [(databaseVar, b)])
      else if a = bulkSeg then (resource bulkHandlers m, [(databaseVar, b)])
      else (HNotFound, []))"
| "routeSpec m [a, b, c] =
     (if b = [47] then (HNotFound, [])
      else if c = [47] then
        (if a = dbSeg \<and> slashed dbHandlers m = HRedirectNoSlash then (HRedirectNoSlash, [(databaseVar, b)])
         else if a = bulkSeg \<and> slashed bulkHandlers m = HRedirectNoSlash then (HRedirectNoSlash, [(databaseVar, b)])
         else (HNotFound, []))
      else if a = dbSeg then (resource docHandlers m, [(databaseVar, b), (idVar, c)])
      else (HNotFound, []))"
| "routeSpec m [a, b, c, d] =
     (if b \<noteq> [47] \<and> c \<noteq> [47] \<and> d = [47] \<and> a = dbSeg \<and> slashed docHandlers m = HRedirectNoSlash
      then (HRedirectNoSlash, [(databaseVar, b), (idVar, c)]) else (HNotFound, []))"
| "routeSpec m _ = (HNotFound, [])"

section \<open>The routing tree\<close>

lemmas methodDefs = methodGet_def methodHead_def methodPost_def methodPut_def methodPatch_def methodDelete_def
  methodOptions_def queryMethod_def
lemmas patternDefs = rootPattern_def healthPattern_def dbsPattern_def dbPattern_def docPattern_def bulkPattern_def
lemmas segDefs = dbSeg_def bulkSeg_def healthSeg_def databaseVar_def idVar_def

lemma methods_distinct:
  "distinct [[], methodGet, methodHead, methodPost, methodPut, methodPatch, methodDelete, methodOptions, queryMethod]"
  by code_simp

lemma methods_neq [simp]:
  "[] \<noteq> methodGet" "[] \<noteq> methodHead" "[] \<noteq> methodPost" "[] \<noteq> methodPut" "[] \<noteq> methodPatch" "[] \<noteq> methodDelete" "[] \<noteq> methodOptions" "[] \<noteq> queryMethod"
  "methodGet \<noteq> []" "methodHead \<noteq> []" "methodPost \<noteq> []" "methodPut \<noteq> []" "methodPatch \<noteq> []" "methodDelete \<noteq> []" "methodOptions \<noteq> []" "queryMethod \<noteq> []"
  "methodGet \<noteq> methodHead" "methodGet \<noteq> methodPost" "methodGet \<noteq> methodPut" "methodGet \<noteq> methodPatch" "methodGet \<noteq> methodDelete" "methodGet \<noteq> methodOptions" "methodGet \<noteq> queryMethod"
  "methodHead \<noteq> methodGet" "methodHead \<noteq> methodPost" "methodHead \<noteq> methodPut" "methodHead \<noteq> methodPatch" "methodHead \<noteq> methodDelete" "methodHead \<noteq> methodOptions" "methodHead \<noteq> queryMethod"
  "methodPost \<noteq> methodGet" "methodPost \<noteq> methodHead" "methodPost \<noteq> methodPut" "methodPost \<noteq> methodPatch" "methodPost \<noteq> methodDelete" "methodPost \<noteq> methodOptions" "methodPost \<noteq> queryMethod"
  "methodPut \<noteq> methodGet" "methodPut \<noteq> methodHead" "methodPut \<noteq> methodPost" "methodPut \<noteq> methodPatch" "methodPut \<noteq> methodDelete" "methodPut \<noteq> methodOptions" "methodPut \<noteq> queryMethod"
  "methodPatch \<noteq> methodGet" "methodPatch \<noteq> methodHead" "methodPatch \<noteq> methodPost" "methodPatch \<noteq> methodPut" "methodPatch \<noteq> methodDelete" "methodPatch \<noteq> methodOptions" "methodPatch \<noteq> queryMethod"
  "methodDelete \<noteq> methodGet" "methodDelete \<noteq> methodHead" "methodDelete \<noteq> methodPost" "methodDelete \<noteq> methodPut" "methodDelete \<noteq> methodPatch" "methodDelete \<noteq> methodOptions" "methodDelete \<noteq> queryMethod"
  "methodOptions \<noteq> methodGet" "methodOptions \<noteq> methodHead" "methodOptions \<noteq> methodPost" "methodOptions \<noteq> methodPut" "methodOptions \<noteq> methodPatch" "methodOptions \<noteq> methodDelete" "methodOptions \<noteq> queryMethod"
  "queryMethod \<noteq> methodGet" "queryMethod \<noteq> methodHead" "queryMethod \<noteq> methodPost" "queryMethod \<noteq> methodPut" "queryMethod \<noteq> methodPatch" "queryMethod \<noteq> methodDelete" "queryMethod \<noteq> methodOptions"
  using methods_distinct by auto

lemma segs_distinct: "distinct [[47], dbSeg, bulkSeg, healthSeg]"
  by code_simp

lemma segs_neq [simp]:
  "[47] \<noteq> dbSeg" "[47] \<noteq> bulkSeg" "[47] \<noteq> healthSeg"
  "dbSeg \<noteq> [47]" "bulkSeg \<noteq> [47]" "healthSeg \<noteq> [47]" "dbSeg \<noteq> bulkSeg" "bulkSeg \<noteq> dbSeg" "dbSeg \<noteq> healthSeg"
  "healthSeg \<noteq> dbSeg" "bulkSeg \<noteq> healthSeg" "healthSeg \<noteq> bulkSeg"
  using segs_distinct by auto

lemma litSeg_simps [simp]:
  "litSeg s (Lit x) = (s = x)" "litSeg s Dollar = (s = [47])" "litSeg s (Wild n) = False" "litSeg s Multi = False"
  by (auto simp: litSeg_def)

lemma wildSeg_simps [simp]:
  "wildSeg (Wild n)" "\<not> wildSeg (Lit x)" "\<not> wildSeg Dollar" "\<not> wildSeg Multi"
  by (simp_all add: wildSeg_def)

text \<open>Without a catch-all, only patterns as long as the path matter; a catch-all is the last resort.\<close>

definition noMulti :: "(seg list \<times> 'h) list \<Rightarrow> bool" where
  "noMulti pats = list_all (\<lambda>(p, _). Multi \<notin> set p) pats"

lemma noMulti_simps [simp]:
  "noMulti []" "noMulti ((p, h) # pats) = (Multi \<notin> set p \<and> noMulti pats)"
  by (simp_all add: noMulti_def)

lemma noMulti_below: "noMulti pats \<Longrightarrow> noMulti (below P pats)"
  by (induction P pats rule: below.induct) auto

lemma noMulti_filter: "noMulti pats \<Longrightarrow> noMulti (filter Q pats)"
  by (simp add: noMulti_def list_all_iff)

lemma below_multi: "noMulti pats \<Longrightarrow> below (\<lambda>p. p = Multi) pats = []"
  by (induction "\<lambda>p. p = Multi" pats rule: below.induct) auto

lemma below_length:
  "filter (\<lambda>(p, _). length p = n) (below P pats) = below P (filter (\<lambda>(p, _). length p = Suc n) pats)"
  by (induction P pats rule: below.induct) auto

lemma firstLeaf_length: "firstLeaf (filter (\<lambda>(p, _). length p = 0) pats) = firstLeaf pats"
  by (induction pats rule: firstLeaf.induct) auto

lemma below_append: "below P (xs @ ys) = below P xs @ below P ys"
  by (induction P xs rule: below.induct) auto

lemma firstLeaf_append: "firstLeaf (xs @ ys) = orElse (firstLeaf xs) (firstLeaf ys)"
  by (induction xs rule: firstLeaf.induct) (auto simp: orElse_def)

lemma matchPath_none [simp]: "matchPath [] ss = None"
  by (cases ss) simp_all

lemma matchPath_length:
  "noMulti pats \<Longrightarrow> matchPath pats ss = matchPath (filter (\<lambda>(p, _). length p = length ss) pats) ss"
proof (induction ss arbitrary: pats)
  case Nil
  show ?case using firstLeaf_length [of pats] by simp
next
  case (Cons s ss)
  have step: "matchPath (below P pats) ss = matchPath (below P (filter (\<lambda>(p, _). length p = Suc (length ss)) pats)) ss" for P
    using Cons.IH [OF noMulti_below [OF Cons.prems]] by (simp add: below_length)
  show ?case
  proof (cases "filter (\<lambda>(p, _). length p = Suc (length ss)) pats = []")
    case True
    with step have none: "matchPath (below P pats) ss = None" for P by simp
    show ?thesis unfolding matchPath.simps length_Cons none below_multi [OF Cons.prems] using True by simp
  next
    case False
    then have "pats \<noteq> []" by auto
    with False show ?thesis
      unfolding matchPath.simps length_Cons step below_multi [OF Cons.prems] below_multi [OF noMulti_filter [OF Cons.prems]] by simp
  qed
qed

lemma matchPath_multi:
  "noMulti pats \<Longrightarrow> matchPath (pats @ [([Multi], x)]) (s # ss) = orElse (matchPath pats (s # ss)) (Some (x, []))"
  by (simp add: below_append below_multi orElse_def split: option.splits)

text \<open>The registrations of one method, with the segments named.\<close>

abbreviation "dbP \<equiv> [Lit dbSeg, Wild databaseVar]"
abbreviation "docP \<equiv> [Lit dbSeg, Wild databaseVar, Wild idVar]"
abbreviation "bulkP \<equiv> [Lit bulkSeg, Wild databaseVar]"

lemma muxTable_get:
  "withMethod methodGet muxTable =
     [([Dollar], [Dollar], HWelcome),
      ([Lit healthSeg], [Lit healthSeg], HHealth), ([Lit healthSeg, Dollar], [Lit healthSeg, Dollar], HRedirectNoSlash),
      ([Lit dbSeg], [Lit dbSeg], HListDBs), ([Lit dbSeg, Dollar], [Lit dbSeg, Dollar], HRedirectNoSlash),
      (dbP, dbP, HListDocs), (dbP @ [Dollar], dbP @ [Dollar], HRedirectNoSlash),
      (docP, docP, HGetDoc), (docP @ [Dollar], docP @ [Dollar], HRedirectNoSlash),
      (bulkP, bulkP, HExportBulk), (bulkP @ [Dollar], bulkP @ [Dollar], HRedirectNoSlash)]"
  by code_simp

lemma muxTable_head:
  "withMethod methodHead muxTable =
     map (\<lambda>p. (p, p, HMethodNotAllowed)) [[Dollar], [Lit healthSeg], [Lit dbSeg], dbP, docP, bulkP]"
  by code_simp

lemma muxTable_post:
  "withMethod methodPost muxTable =
     [([Lit dbSeg], [Lit dbSeg], HCreateDB), ([Lit dbSeg, Dollar], [Lit dbSeg, Dollar], HRedirectNoSlash),
      (dbP, dbP, HCreateDoc), (dbP @ [Dollar], dbP @ [Dollar], HRedirectNoSlash),
      (bulkP, bulkP, HImportBulk), (bulkP @ [Dollar], bulkP @ [Dollar], HRedirectNoSlash)]"
  by code_simp

lemma muxTable_query:
  "withMethod queryMethod muxTable = [(dbP, dbP, HQueryDocs), (dbP @ [Dollar], dbP @ [Dollar], HRedirectNoSlash)]"
  by code_simp

lemma muxTable_options:
  "withMethod methodOptions muxTable = [(dbP, dbP, HQueryOptions), (dbP @ [Dollar], dbP @ [Dollar], HRedirectNoSlash)]"
  by code_simp

lemma muxTable_delete:
  "withMethod methodDelete muxTable =
     [(dbP, dbP, HDeleteDB), (dbP @ [Dollar], dbP @ [Dollar], HRedirectNoSlash),
      (docP, docP, HDeleteDoc), (docP @ [Dollar], docP @ [Dollar], HRedirectNoSlash)]"
  by code_simp

lemma muxTable_put:
  "withMethod methodPut muxTable = [(docP, docP, HReplaceDoc), (docP @ [Dollar], docP @ [Dollar], HRedirectNoSlash)]"
  by code_simp

lemma muxTable_patch:
  "withMethod methodPatch muxTable = [(docP, docP, HPatchDoc), (docP @ [Dollar], docP @ [Dollar], HRedirectNoSlash)]"
  by code_simp

lemma muxTable_any:
  "withMethod [] muxTable =
     map (\<lambda>p. (p, p, HMethodNotAllowed)) [[Dollar], [Lit healthSeg], [Lit dbSeg], dbP, docP, bulkP] @ [([Multi], [Multi], HNotFound)]"
  by code_simp

lemma muxTable_other:
  assumes "m \<notin> {[], methodGet, methodHead, methodPost, methodPut, methodPatch, methodDelete, methodOptions, queryMethod}"
  shows "withMethod m muxTable = []"
  using assms by (simp add: withMethod_def muxTable_def route_def patternDefs eq_commute [of _ m])

lemma segs_cases:
  obtains (0) "ss = []" | (1) a where "ss = [a]" | (2) a b where "ss = [a, b]" | (3) a b c where "ss = [a, b, c]"
    | (4) a b c d where "ss = [a, b, c, d]" | (5) a b c d e r where "ss = a # b # c # d # e # r"
  by (metis list.exhaust)

lemmas route_simps = muxMatch_def orElse_def wildNames_def resource_def slashed_def rootHandlers_def healthHandlers_def
  dbsHandlers_def dbHandlers_def docHandlers_def bulkHandlers_def

lemma names_neq [simp]: "databaseVar \<noteq> idVar"
  by code_simp

lemma seg_kinds:
  obtains (db) "a = dbSeg" | (bulk) "a = bulkSeg" | (health) "a = healthSeg" | (slash) "a = [47]"
    | (other) "a \<noteq> dbSeg" "a \<noteq> bulkSeg" "a \<noteq> healthSeg" "a \<noteq> [47]"
  by blast

lemma method_kinds:
  obtains (none) "m = []" | (get) "m = methodGet" | (head) "m = methodHead" | (post) "m = methodPost" | (put) "m = methodPut"
    | (patch) "m = methodPatch" | (delete) "m = methodDelete" | (options) "m = methodOptions" | (query) "m = queryMethod"
    | (other) "m \<notin> {[], methodGet, methodHead, methodPost, methodPut, methodPatch, methodDelete, methodOptions, queryMethod}"
  by blast

lemmas tables = muxTable_get muxTable_head muxTable_post muxTable_put muxTable_patch muxTable_delete muxTable_options muxTable_query
  muxTable_any muxTable_other

text \<open>The registrations of a method with so many segments, without the catch-all.\<close>

definition leaves :: "bytes \<Rightarrow> nat \<Rightarrow> (seg list \<times> seg list \<times> handler) list" where
  "leaves m n = filter (\<lambda>(p, _). length p = n \<and> p \<noteq> [Multi]) (withMethod m muxTable)"

lemma matchPath_method:
  "m \<noteq> [] \<Longrightarrow> matchPath (withMethod m muxTable) ss = matchPath (leaves m (length ss)) ss"
  unfolding leaves_def
  by (subst matchPath_length; cases m rule: method_kinds) (simp_all add: tables cong: if_cong)

lemma matchPath_any:
  "matchPath (withMethod [] muxTable) (s # ss) =
     orElse (matchPath (leaves [] (length (s # ss))) (s # ss)) (Some (([Multi], HNotFound), []))"
  unfolding muxTable_any leaves_def
  by (subst matchPath_multi, simp, subst matchPath_length, simp) (simp cong: if_cong)

lemma muxMatch_leaves:
  "muxMatch muxTable m (s # ss) =
     map_option (\<lambda>((p, h), ms). (h, zip (wildNames p) ms))
       (orElse (if m = [] then None else matchPath (leaves m (length (s # ss))) (s # ss))
          (orElse (if m = methodHead then matchPath (leaves methodGet (length (s # ss))) (s # ss) else None)
             (orElse (matchPath (leaves [] (length (s # ss))) (s # ss)) (Some (([Multi], HNotFound), [])))))"
  by (simp only: muxMatch_def matchPath_any) (simp add: matchPath_method del: matchPath.simps)

lemma leaves_long: "n \<ge> 5 \<Longrightarrow> leaves m n = []"
  by (cases m rule: method_kinds) (simp_all add: leaves_def tables)

lemma muxMatch_1: "muxMatch muxTable m [a] = Some (routeSpec m [a])"
  unfolding muxMatch_leaves
  by (cases m rule: method_kinds; cases a rule: seg_kinds; simp add: leaves_def tables route_simps)

lemma muxMatch_2: "muxMatch muxTable m [a, b] = Some (routeSpec m [a, b])"
  unfolding muxMatch_leaves
  by (cases m rule: method_kinds; cases a rule: seg_kinds; cases "b = [47]"; simp add: leaves_def tables route_simps)

lemma muxMatch_3: "muxMatch muxTable m [a, b, c] = Some (routeSpec m [a, b, c])"
  unfolding muxMatch_leaves
  by (cases m rule: method_kinds; cases a rule: seg_kinds; cases "b = [47]"; cases "c = [47]"; simp add: leaves_def tables route_simps)

lemma muxMatch_4: "muxMatch muxTable m [a, b, c, d] = Some (routeSpec m [a, b, c, d])"
  unfolding muxMatch_leaves
  by (cases m rule: method_kinds; cases "a = dbSeg"; cases "b = [47]"; cases "c = [47]"; cases "d = [47]"; simp add: leaves_def tables route_simps)

lemma muxMatch_5: "muxMatch muxTable m (a # b # c # d # e # r) = Some (routeSpec m (a # b # c # d # e # r))"
  unfolding muxMatch_leaves by (simp add: leaves_long orElse_def wildNames_def)

lemma pathSegs_ne: "pathSegs p \<noteq> []"
  by (simp add: pathSegs_def Let_def)

text \<open>
  A slash after a resource is redirected only for the methods that are registered for the resource:
  PUT of a database and DELETE of its bulk resource, for instance, are \<open>route_not_found\<close>.
\<close>

lemma slash_other_method:
  assumes "name \<noteq> [47]"
  shows "muxMatch muxTable methodPut [dbSeg, name, [47]] = Some (HNotFound, [])"
    "muxMatch muxTable methodDelete [bulkSeg, name, [47]] = Some (HNotFound, [])"
  using assms by (simp_all add: muxMatch_3 slashed_def dbHandlers_def bulkHandlers_def)

text \<open>
  C18: the routing tree that \<open>http.ServeMux\<close> makes of the registered patterns sends every method and
  every path to the handler of the reference table, with the database and the ID of the path as
  its variables: the handler of the resource for its methods, and \<open>method_not_allowed\<close> for all other
  methods of a resource, HEAD included; for the path of a resource (other than the root) with a
  slash at its end a redirect, but only for the methods registered for the resource, and HEAD with
  GET; and \<open>route_not_found\<close> for everything else, the other methods of a path with such a slash
  included.
\<close>

theorem muxMatch_routeSpec:
  "muxMatch muxTable m (pathSegs path) = Some (routeSpec m (pathSegs path))"
  using pathSegs_ne [of path]
  by (cases "pathSegs path" rule: segs_cases) (simp_all only: muxMatch_1 muxMatch_2 muxMatch_3 muxMatch_4 muxMatch_5)

end
