(* ===== verification/Path_Pointer.thy ===== *)
theory Path_Pointer
  imports Path_Query
begin

text \<open>
  Paths that an index can answer.  A JSONPath made of member names only, none of which looks
  like an array index, becomes a JSON pointer; following the pointer, with its escapes and its
  array rule, is following the names through objects.
\<close>

section \<open>Escapes\<close>

definition escapeByte :: "byte \<Rightarrow> bytes" where
  "escapeByte c = (if c = 126 then [126, 48] else if c = 47 then [126, 49] else [c])"

definition escapeTilde :: "byte \<Rightarrow> bytes" where
  "escapeTilde c = (if c = 126 then [126, 48] else [c])"

lemma escapeName_bytes: "escapeName name = concat (map escapeByte name)"
  unfolding escapeName_def replaceByte_def by (induction name) (simp_all add: escapeByte_def)

lemma slash_escapeName: "47 \<notin> set (escapeName name)"
  by (auto simp: escapeName_bytes escapeByte_def split: if_splits)

lemma replacePair_skip [simp]: "x \<noteq> a \<Longrightarrow> replacePair a b c (x # s) = x # replacePair a b c s"
  by (cases s) simp_all

lemma unescape_slash: "replacePair 126 49 47 (concat (map escapeByte name)) = concat (map escapeTilde name)"
  by (induction name) (simp_all add: escapeByte_def escapeTilde_def)

lemma unescape_tilde: "replacePair 126 48 126 (concat (map escapeTilde name)) = name"
  by (induction name) (simp_all add: escapeTilde_def)

lemma unescapeToken_escapeName [simp]: "unescapeToken (escapeName name) = name"
  by (simp add: unescapeToken_def escapeName_bytes unescape_slash unescape_tilde)

section \<open>Names as a pointer\<close>

definition child :: "bytes \<Rightarrow> segment" where
  "child name = \<lparr>isDescendant = False, selectors = [SelName name]\<rparr>"

definition namePointer :: "bytes list \<Rightarrow> bytes" where
  "namePointer names = concat (map (\<lambda>name. 47 # escapeName name) names)"

lemma namePointer_simps [simp]:
  "namePointer [] = []" "namePointer (name # names) = 47 # escapeName name @ namePointer names"
  by (simp_all add: namePointer_def)

lemma segment_child: "\<not> isDescendant g \<Longrightarrow> selectors g = [SelName name] \<Longrightarrow> g = child name"
  by (cases g) (simp add: child_def)

lemma jsonPathPointer_loop_names:
  assumes "jsonPathPointer_loop pointer segments = Some result"
  shows "\<exists>names. segments = map child names \<and> result = pointer @ namePointer names \<and> list_all (\<lambda>n. \<not> isArrayIndex n) names"
  using assms
proof (induction pointer segments rule: jsonPathPointer_loop.induct)
  case (2 pointer segment segments)
  then obtain name where g: "\<not> isDescendant segment" "selectors segment = [SelName name]" "\<not> isArrayIndex name"
    and rest: "jsonPathPointer_loop (pointer @ 47 # escapeName name) segments = Some result"
    by (auto split: if_splits selector.splits simp: length_Suc_conv)
  with "2.IH" [of name] obtain names where "segments = map child names" "result = (pointer @ 47 # escapeName name) @ namePointer names"
    "list_all (\<lambda>n. \<not> isArrayIndex n) names" by auto
  with g segment_child [OF g(1,2)] show ?case by (intro exI [of _ "name # names"]) simp
qed simp

lemma jsonPathPointer_names:
  assumes "jsonPathPointer segments = Some pointer"
  obtains names where "names \<noteq> []" "segments = map child names" "pointer = namePointer names" "list_all (\<lambda>n. \<not> isArrayIndex n) names"
proof -
  from assms have p: "jsonPathPointer_loop [] segments = Some pointer" "pointer \<noteq> []"
    unfolding jsonPathPointer_def by (simp_all split: option.splits if_splits)
  from jsonPathPointer_loop_names [OF p(1)] obtain names where
    "segments = map child names" "pointer = namePointer names" "list_all (\<lambda>n. \<not> isArrayIndex n) names" by auto
  moreover from this p(2) have "names \<noteq> []" by auto
  ultimately show ?thesis using that by blast
qed

lemma splitByte_plain: "sep \<notin> set s \<Longrightarrow> splitByte sep s = [s]"
  by (induction s) auto

lemma splitByte_append: "sep \<notin> set s \<Longrightarrow> splitByte sep (s @ sep # t) = s # splitByte sep t"
  by (induction s) auto

lemma splitByte_namePointer: "names \<noteq> [] \<Longrightarrow> splitByte 47 (drop 1 (namePointer names)) = map escapeName names"
proof (induction names)
  case (Cons name names)
  show ?case
  proof (cases names)
    case (Cons m ms)
    then show ?thesis using Cons.IH splitByte_append [OF slash_escapeName] by simp
  qed (simp add: splitByte_plain slash_escapeName)
qed simp

section \<open>Following names\<close>

fun nameWalk :: "json \<Rightarrow> bytes list \<Rightarrow> json option" where
  "nameWalk v [] = Some v"
| "nameWalk v (name # names) =
     (case v of
        JObj m \<Rightarrow> (case map_of m name of None \<Rightarrow> None | Some x \<Rightarrow> nameWalk x names)
      | _ \<Rightarrow> None)"

lemma stepPointer_name:
  "\<not> isArrayIndex name \<Longrightarrow> stepPointer v name = (case v of JObj m \<Rightarrow> map_of m name | _ \<Rightarrow> None)"
  by (cases v) (auto simp: isArrayIndex_def split: option.splits)

lemma pointerValue_loop_names:
  "list_all (\<lambda>n. \<not> isArrayIndex n) names \<Longrightarrow> pointerValue_loop v (map escapeName names) = nameWalk v names"
  by (induction names arbitrary: v) (auto simp: stepPointer_name split: json.splits option.splits)

lemma pointerValue_names:
  assumes "names \<noteq> []" "list_all (\<lambda>n. \<not> isArrayIndex n) names"
  shows "pointerValue v (namePointer names) = nameWalk v names"
  unfolding pointerValue_def splitByte_namePointer [OF assms(1)] by (rule pointerValue_loop_names [OF assms(2)])

section \<open>The JSONPath package\<close>

text \<open>
  What the program relies on: a parsed path has a well-formed text (its closing delimiters and
  commas are within open ones), and a path of single member names selects what following the
  names through the objects gives, if anything.
\<close>

locale path_api =
  fixes J :: "'p pathEngine"
  assumes select_names: "jpSegments J p = map child names \<Longrightarrow>
      jpSelect J p v = (case nameWalk v names of None \<Rightarrow> [] | Some x \<Rightarrow> [x])"
    and text_balanced: "jpParse J raw = Some p \<Longrightarrow> isOk (safePath (jpString J p))"
begin

lemma select_pointer:
  assumes "jsonPathPointer (jpSegments J p) = Some pointer"
  shows "jpSelect J p v = (case pointerValue v pointer of None \<Rightarrow> [] | Some x \<Rightarrow> [x])"
proof -
  obtain names where n: "names \<noteq> []" "jpSegments J p = map child names" "pointer = namePointer names"
    "list_all (\<lambda>n. \<not> isArrayIndex n) names" by (rule jsonPathPointer_names [OF assms])
  then show ?thesis using select_names pointerValue_names by simp
qed

lemma pointer_ne: "jsonPathPointer (jpSegments J p) = Some pointer \<Longrightarrow> pointerValue JNull pointer = None \<and> pointerValue (JObj []) pointer = None"
proof -
  assume "jsonPathPointer (jpSegments J p) = Some pointer"
  then obtain names where "names \<noteq> []" "pointer = namePointer names" "list_all (\<lambda>n. \<not> isArrayIndex n) names"
    by (rule jsonPathPointer_names)
  then have "pointerValue JNull pointer = nameWalk JNull names" "pointerValue (JObj []) pointer = nameWalk (JObj []) names"
    using pointerValue_names by blast+
  with \<open>names \<noteq> []\<close> show ?thesis by (cases names) simp_all
qed

end

end
