(* ===== verification/Scan_Laws.thy ===== *)
theory Scan_Laws
  imports Store_Reads Index_Query
begin

text \<open>
  Scans of the stored map in pages: the pattern that lists and queries share.  A scan positions
  an iterator behind a cursor, takes one entry more than the page holds, and reports the
  iterator's error only when it ran to the end.
\<close>

lemma okOrFault_bind_Inr: "okOrFault F r (Inr a) \<Longrightarrow> okOrFault F (f a) g \<Longrightarrow> okOrFault F (bindE r f) g"
  using okOrFault_bindE [of F r "Inr a" f "\<lambda>_. g"] by simp

section \<open>Positions\<close>

definition after :: "bytes option \<Rightarrow> bytes \<Rightarrow> bool" where
  "after c k \<longleftrightarrow> (case c of None \<Rightarrow> True | Some b \<Rightarrow> b < k)"

lemma seekAfter_filter:
  "sorted (map fst es) \<Longrightarrow> distinct (map fst es) \<Longrightarrow> seekAfter c es = filter (\<lambda>(k, _). after c k) es"
proof (cases c)
  case (Some b)
  assume "sorted (map fst es)" "distinct (map fst es)"
  then show ?thesis unfolding Some
  proof (induction es)
    case (Cons e es)
    obtain k v where e: "e = (k, v)" by fastforce
    have gt: "\<forall>(k', v') \<in> set es. k < k'" using Cons.prems e by (force simp: less_le)
    have all: "b \<le> k \<Longrightarrow> filter (\<lambda>(k, _). after (Some b) k) es = es"
      using gt by (intro filter_True) (auto simp: after_def)
    show ?case
    proof (cases rule: linorder_cases [of k b])
      case less
      with Cons e show ?thesis by (auto simp: seekAfter_def after_def)
    qed (use e all in \<open>auto simp: seekAfter_def after_def\<close>)
  qed (simp add: seekAfter_def)
qed (simp add: seekAfter_def after_def)

lemma seekAfter_subset: "set (seekAfter c es) \<subseteq> set es"
  by (auto simp: seekAfter_def split: option.splits list.splits if_splits dest!: set_dropWhileD)
    (metis list.set_intros set_dropWhileD)+

lemma seekAfter_prefix:
  assumes "sorted (map fst full)" "distinct (map fst full)" "full = es @ rest"
  shows "seekAfter c full = seekAfter c es @ filter (\<lambda>(k, _). after c k) rest"
  using assms seekAfter_filter [of full c] seekAfter_filter [of es c] by (simp add: sorted_append)

section \<open>Pages\<close>

text \<open>
  One page of a scan.  The loop takes at most \<open>k\<close> entries and returns them (as \<open>g\<close> presents
  them) with the entries left; the result is the page of all stored entries, or a fault.
\<close>

lemma page_scan:
  assumes full: "sorted (map fst full)" "distinct (map fst full)" "full = entries it @ rest"
    "rest = [] \<and> iterError it = None \<or> (\<exists>p. F p \<and> iterError it = Some p)"
    and loop: "okOrFault F (loop (seekAfter c (entries it)))
      (Inr (g (take k (seekAfter c (entries it))), drop k (seekAfter c (entries it))))"
  shows "okOrFault F (bindE (loop (seekAfter c (entries it))) (\<lambda>(x, r). bindE (iterErr it r) (\<lambda>_. h x)))
    (h (g (take k (seekAfter c full))))"
proof -
  let ?es = "seekAfter c (entries it)"
  from loop show ?thesis unfolding okOrFault_def
  proof (elim disjE exE conjE)
    assume l: "loop ?es = Inr (g (take k ?es), drop k ?es)"
    show "bindE (loop ?es) (\<lambda>(x, r). bindE (iterErr it r) (\<lambda>_. h x)) = h (g (take k (seekAfter c full))) \<or>
      (\<exists>e. bindE (loop ?es) (\<lambda>(x, r). bindE (iterErr it r) (\<lambda>_. h x)) = Inl e \<and> faulty F False e)"
    proof (cases "iterError it")
      case None
      with full l show ?thesis by (auto simp: iterErr_def split: list.splits)
    next
      case (Some p)
      with full(4) have F: "F p" by auto
      show ?thesis
      proof (cases "drop k ?es")
        case Nil
        with l Some F show ?thesis by (auto simp: iterErr_def intro: faulty_wrapStore)
      next
        case (Cons x xs)
        then have "k < length ?es" by (metis drop_eq_Nil2 list.distinct(1) not_le)
        then have "take k (seekAfter c full) = take k ?es"
          unfolding seekAfter_prefix [OF full(1-3)] by simp
        with l Some Cons show ?thesis by (simp add: iterErr_def)
      qed
    qed
  qed auto
qed

context pebble_api
begin

text \<open>A page of the entries between two bounds, with the iterator opened and closed.\<close>

lemma scan_page:
  assumes loop: "\<And>es rest. sortedEntries (kv db) lo hi = es @ rest \<Longrightarrow>
      okOrFault F (loop (seekAfter c es)) (Inr (g (take k (seekAfter c es)), drop k (seekAfter c es)))"
    and ok: "h (g (take k (seekAfter c (sortedEntries (kv db) lo hi)))) = Inr y"
  shows "okOrFault F (case dbNewIter E db lo hi of Inl e \<Rightarrow> Inl (wrapStore e)
    | Inr it \<Rightarrow> joinClose (iterClose it)
        (bindE (loop (seekAfter c (entries it))) (\<lambda>(x, r). bindE (iterErr it r) (\<lambda>_. h x)))) (Inr y)"
  using dbNewIter_kv [of db lo hi]
proof (elim disjE exE conjE)
  fix p
  assume "F p" "dbNewIter E db lo hi = Inl p"
  then show ?thesis by (simp add: okOrFault_fault)
next
  fix it rest
  assume it: "dbNewIter E db lo hi = Inr it" "entries it @ rest = sortedEntries (kv db) lo hi"
    and close: "\<forall>p. iterClose it = Some p \<longrightarrow> F p"
  note s = sortedEntries_props(2,3) [OF kv_finite, of db lo hi]
  have page: "rest = [] \<and> iterError it = None \<or> (\<exists>p. F p \<and> iterError it = Some p) \<Longrightarrow>
    okOrFault F (bindE (loop (seekAfter c (entries it))) (\<lambda>(x, r). bindE (iterErr it r) (\<lambda>_. h x))) (Inr y)"
    unfolding ok [symmetric] by (rule page_scan [OF s it(2) [symmetric]]) (use loop [OF it(2) [symmetric]] in auto)
  show ?thesis if "rest = []" "iterError it = None"
    using it(1) page that close by (auto intro!: okOrFault_joinClose)
  show ?thesis if "F p" "iterError it = Some p" for p
    using it(1) page that close by (auto intro!: okOrFault_joinClose)
qed

end

text \<open>Entries that share a prefix.\<close>

lemma sortedEntries_shift:
  assumes "boundedKeys m lo hi = (\<lambda>k. p @ k) ` K" "finite K"
  shows "sortedEntries m lo hi = map (\<lambda>k. (p @ k, the (m (p @ k)))) (sorted_list_of_set K)"
proof -
  have "sorted_list_of_set ((\<lambda>k. p @ k) ` K) = map (\<lambda>k. p @ k) (sorted_list_of_set K)"
    using assms(2) by (intro sorted_distinct_set_unique)
      (auto simp: sorted_map distinct_map inj_on_def intro: sorted_wrt_mono_rel [OF _ sorted_sorted_list_of_set])
  then show ?thesis by (simp add: sortedEntries_def assms(1) comp_def)
qed

lemma seekAfter_shift:
  assumes "sorted ks" "distinct ks"
  shows "seekAfter (map_option (\<lambda>b. p @ b) c) (map (\<lambda>k. (p @ k, f k)) ks) = map (\<lambda>k. (p @ k, f k)) (filter (after c) ks)"
proof -
  have s: "sorted (map fst (map (\<lambda>k. (p @ k, f k)) ks))" "distinct (map fst (map (\<lambda>k. (p @ k, f k)) ks))"
    using assms by (auto simp: comp_def sorted_map distinct_map inj_on_def intro: sorted_wrt_mono_rel [OF _ assms(1)])
  have "after (map_option (\<lambda>b. p @ b) c) (p @ k) = after c k" for k by (auto simp: after_def split: option.splits)
  then show ?thesis unfolding seekAfter_filter [OF s] by (simp add: filter_map comp_def)
qed

end
