(* ===== verification/Index_Entry.thy ===== *)
theory Index_Entry
  imports Index_Value
begin

text \<open>
  Index entries can be split: the value at the front of an index key delimits itself, so
  \<open>splitIndexEntry\<close> recovers the value and the document ID from the key that \<open>indexKey\<close> builds.
\<close>

unbundle bit_operations_syntax

section \<open>Strings\<close>

lemma drop_nth: "drop e r = c # s \<Longrightarrow> e < length r \<and> r ! e = c \<and> drop (Suc e) r = s"
  by (metis Cons_nth_drop_Suc drop_eq_Nil linorder_not_less list.discI list.inject)

lemma splitString_valid:
  assumes "validSortableString_loop decoded v" "drop e r = v @ x"
  shows "splitString_loop r e = Some (e + length v)"
  using assms
proof (induction decoded v arbitrary: e rule: validSortableString_loop.induct)
  case (2 decoded c v)
  from "2.prems"(2) have c: "e < length r" "r ! e = c" "drop (Suc e) r = v @ x"
    using drop_nth [of e r c "v @ x"] by auto
  show ?case
  proof (cases "c = 0")
    case False
    with 2 c have "v \<noteq> []" by (cases v) auto
    then have "Suc e < length r" using c(3) by (metis append_is_Nil_conv drop_eq_Nil2 not_le)
    with 2 c False show ?thesis by (simp add: splitString_loop.simps [of r e])
  next
    case True
    with "2.prems" obtain b s where v: "v = b # s" by (cases v) auto
    with c have b: "Suc e < length r" "r ! Suc e = b" "drop (Suc (Suc e)) r = s @ x"
      using drop_nth [of "Suc e" r b "s @ x"] by auto
    show ?thesis
    proof (cases "b = 0")
      case True
      with \<open>c = 0\<close> "2.prems" v b c show ?thesis by (simp add: splitString_loop.simps [of r e])
    next
      case False
      with \<open>c = 0\<close> "2.prems" v have ff: "b = 0xff" "validSortableString_loop (decoded @ [0]) s"
        by (auto split: if_splits)
      from "2.IH"(2) [OF _ v _ ff(1)] \<open>c = 0\<close> False ff b
      have "splitString_loop r (e + 2) = Some (e + 2 + length s)" by simp
      with \<open>c = 0\<close> False ff b c v show ?thesis by (simp add: splitString_loop.simps [of r e])
    qed
  qed
qed simp

section \<open>Numbers\<close>

lemma indexByte_first:
  assumes "b \<notin> set d"
  shows "indexByte (d @ b # x) b = int (length d)"
proof -
  have "takeWhile (\<lambda>c. c \<noteq> b) (d @ b # x) = d" using assms by (auto simp: takeWhile_append)
  then show ?thesis by (simp add: indexByte_def)
qed

lemma validSortableNumber_split:
  assumes "validSortableNumber v" "length v \<noteq> 1"
  obtains h d where "v = h @ d @ [if v ! 0 = 0 then 0xff else 0]" "length h = 9" "d \<noteq> []"
    "(if v ! 0 = 0 then 0xff else 0) \<notin> set d" "v ! 0 = 0 \<or> v ! 0 = 2"
proof -
  let ?t = "if v ! 0 = 0 then 0xff else 0 :: byte"
  let ?d = "take (length v - 1 - 9) (drop 9 v)"
  from assms have len: "11 \<le> length v" and h: "v ! 0 = 0 \<or> v ! 0 = 2" and t: "v ! (length v - 1) = ?t"
    by (auto simp: validSortableNumber_def Let_def split: if_splits)
  from assms len have "list_all (\<lambda>digit. \<not> (v ! 0 \<noteq> 0 \<and> (digit < 0x01 \<or> digit > 0x0a) \<or>
      v ! 0 = 0 \<and> (digit < 0xf5 \<or> digit > 0xfe))) ?d"
    by (simp add: validSortableNumber_def Let_def split: if_splits)
  then have nt: "?t \<notin> set ?d" by (auto simp: list_all_iff)
  have "drop 9 v = ?d @ [v ! (length v - 1)]"
  proof -
    have "drop 9 v \<noteq> []" using len by simp
    then have "drop 9 v = butlast (drop 9 v) @ [last (drop 9 v)]" by (metis append_butlast_last_id)
    moreover have "butlast (drop 9 v) = ?d" by (simp add: butlast_conv_take)
    moreover have "last (drop 9 v) = v ! (length v - 1)" using len by (simp add: last_conv_nth)
    ultimately show ?thesis by simp
  qed
  then have "v = take 9 v @ ?d @ [?t]" unfolding t using append_take_drop_id [of 9 v] by simp
  moreover have "?d \<noteq> []" using len by simp
  moreover have "length (take 9 v) = 9" using len by simp
  ultimately show ?thesis using that [of "take 9 v" ?d] nt h by blast
qed

section \<open>Entries\<close>

lemma splitIndexEntry_append:
  assumes "validIndexValue (t # v)" "t = 0x03 \<or> t = 0x04"
  shows "splitIndexEntry (p @ [t]) (p @ t # v @ x) = Some (t # v, x)"
proof -
  have p: "prefix (p @ [t]) (p @ t # v @ x)" "drop (length (p @ [t])) (p @ t # v @ x) = v @ x"
    "(p @ [t]) ! (length (p @ [t]) - 1) = t"
    by (simp_all add: nth_append)
  from assms(2) show ?thesis
  proof
    assume t: "t = 0x04"
    with assms(1) have "validSortableString_loop [] v"
      by (simp add: validIndexValue_def validSortableString_def split: if_splits)
    then have "splitString_loop (v @ x) 0 = Some (length v)" using splitString_valid [of "[]" v 0 "v @ x" x] by simp
    with p t assms(1) show ?thesis unfolding splitIndexEntry_def Let_def by simp
  next
    assume t: "t = 0x03"
    with assms(1) have n: "validSortableNumber v" by (simp add: validIndexValue_def split: if_splits)
    show ?thesis
    proof (cases "length v = 1")
      case True
      with n have "v = [0x01]" by (cases v) (auto simp: validSortableNumber_def)
      with p t assms(1) show ?thesis unfolding splitIndexEntry_def Let_def by simp
    next
      case False
      with n obtain h d where d: "v = h @ d @ [if v ! 0 = 0 then 0xff else 0]" "length h = 9" "d \<noteq> []"
        "(if v ! 0 = 0 then 0xff else 0) \<notin> set d" "v ! 0 = 0 \<or> v ! 0 = 2"
        by (rule validSortableNumber_split)
      define u where "u = (if v ! 0 = 0 then 0xff else 0 :: byte)"
      from d(1) have v: "v = h @ d @ [u]" by (simp add: u_def)
      have "drop 9 (v @ x) = d @ u # x" "drop (10 + length d) (v @ x) = x" "length v = 9 + length d + 1" "(v @ x) ! 0 = v ! 0" "v \<noteq> []"
        unfolding v using d(2,3) by (auto simp: nth_append)
      moreover have "indexByte (d @ u # x) u = int (length d)" using d(4) by (intro indexByte_first) (simp add: u_def)
      moreover have "0 < length d" using d(3) by simp
      ultimately show ?thesis
        using p t assms(1) d(5) unfolding splitIndexEntry_def Let_def
        by (auto simp: u_def [symmetric] simp del: drop_append length_greater_0_conv)
    qed
  qed
qed


text \<open>
  C34: the value in an index key delimits itself.  For every valid encoded number or string and
  every document ID, \<open>splitIndexEntry\<close> applied to the key that \<open>indexKey\<close> builds, with the type
  prefix of the value, returns exactly the value and the document ID.
\<close>

theorem splitIndexEntry_indexKey:
  assumes "validIndexValue v" "hd v = 0x03 \<or> hd v = 0x04"
  shows "splitIndexEntry (indexTypePrefix database index (hd v)) (indexKey database index v docID) = Some (v, docID)"
proof -
  from assms(1) obtain t r where "v = t # r" by (cases v) (auto simp: validIndexValue_def)
  then show ?thesis
    using splitIndexEntry_append [of t r] assms
    by (simp add: indexTypePrefix_def indexKey_def indexValuePrefix_def)
qed

theorem splitIndexEntry_indexKey_witness:
  "splitIndexEntry (indexTypePrefix (str ''db'') (str ''ix'') 0x04)
     (indexKey (str ''db'') (str ''ix'') [0x04, 0x61, 0x00, 0xff, 0x00, 0x00] [0x07, 0x00]) =
   Some ([0x04, 0x61, 0x00, 0xff, 0x00, 0x00], [0x07, 0x00])"
proof -
  have "validIndexValue [0x04, 0x61, 0x00, 0xff, 0x00, 0x00]"
    by (simp add: validIndexValue_def maxEncodedIndexValue_def maxIndexValue_def validSortableString_def
        utf8Valid.simps runeLen.simps)
  from splitIndexEntry_indexKey [OF this] show ?thesis by simp
qed

end
