(* ===== verification/Query_Laws.thy ===== *)
theory Query_Laws
  imports Scan_Laws Index_Entry "HOL-Library.Product_Lexorder"
begin

text \<open>
  What queries on an index return: the page of the documents whose indexed value is the one asked
  for (or lies in the range), in the order of value and ID, behind the cursor, and whether
  there are more.
\<close>

section \<open>Valid values are prefix-free\<close>

lemma validIndexValue_prefix_free:
  assumes "validIndexValue v" "validIndexValue w" "v @ x = w @ y"
  shows "v = w \<and> x = y"
proof -
  obtain t v' where v: "v = t # v'" using assms(1) by (cases v) (auto simp: validIndexValue_def)
  with assms(2,3) obtain w' where w: "w = t # w'" by (cases w) (auto simp: validIndexValue_def)
  show ?thesis
  proof (cases "t = 0x03 \<or> t = 0x04")
    case True
    have "splitIndexEntry [t] (v @ x) = Some (v, x)" "splitIndexEntry [t] (w @ y) = Some (w, y)"
      using splitIndexEntry_append [OF assms(1) [unfolded v] True, of "[]" x]
        splitIndexEntry_append [OF assms(2) [unfolded w] True, of "[]" y] by (simp_all add: v w)
    with assms(3) show ?thesis by (metis option.inject prod.inject)
  next
    case False
    with assms(1,2) have "v' = []" "w' = []" by (auto simp: validIndexValue_def v w split: if_splits)
    with assms(3) show ?thesis by (simp add: v w)
  qed
qed

lemma prefix_free_less:
  assumes "\<not> prefix a b" "\<not> prefix b a"
  shows "a @ x < b @ y \<longleftrightarrow> a < (b :: bytes)"
  using assms
proof (induction a arbitrary: b)
  case (Cons c a)
  then show ?case by (cases b) auto
qed simp

lemma validIndexValue_not_prefix:
  "validIndexValue v \<Longrightarrow> validIndexValue w \<Longrightarrow> v \<noteq> w \<Longrightarrow> \<not> prefix v w"
  using validIndexValue_prefix_free [of v w] by (auto simp: prefix_def)

lemma entry_less:
  assumes "validIndexValue v" "validIndexValue w"
  shows "v @ i < w @ j \<longleftrightarrow> (v, i) < (w, j)"
proof (cases "v = w")
  case False
  then have "v @ i < w @ j \<longleftrightarrow> v < w" using assms by (intro prefix_free_less validIndexValue_not_prefix) auto
  with False show ?thesis by (simp add: less_prod_def' order.order_iff_strict)
qed (simp add: less_prod_def')

section \<open>The entries of an index\<close>

definition idxPairs :: "adb \<Rightarrow> bytes \<Rightarrow> (bytes \<times> bytes) set" where
  "idxPairs a x = {(v, i). \<exists>d. aDocs a i = Some d \<and> (x, v) \<in> docEntries (aDefs a) (docJson d)}"

lemma idxPairs_valid:
  assumes "wfDB a" "(v, i) \<in> idxPairs a x"
  shows "validIndexValue v" "validID i" "validName x" "aDocs a i \<noteq> None"
proof -
  from assms(2) obtain d where d: "aDocs a i = Some d" "(x, v) \<in> docEntries (aDefs a) (docJson d)"
    by (auto simp: idxPairs_def)
  with assms(1) show "validID i" "aDocs a i \<noteq> None" by (auto simp: wfDB_def)
  from d(2) obtain vs where vs: "indexValues (docJson d) (aDefs a) = Inr vs" "(x, v) \<in> set vs"
    by (auto simp: docEntries_def split: sum.splits)
  with assms(1) show "validIndexValue v" "validName x" using indexValues_valid [OF vs(1) _ vs(2)]
    by (auto simp: wfDB_def)
qed

lemma finite_idxPairs:
  assumes "wfDB a"
  shows "finite (idxPairs a x)"
proof -
  let ?f = "\<lambda>i. (\<lambda>e. (snd e, i)) ` docEntries (aDefs a) (docJson (the (aDocs a i)))"
  have "finite (docEntries defs j)" for defs j by (auto simp: docEntries_def split: sum.splits)
  then have "finite (\<Union> (?f ` dom (aDocs a)))" using assms by (auto simp: wfDB_def)
  moreover have "idxPairs a x \<subseteq> \<Union> (?f ` dom (aDocs a))" by (force simp: idxPairs_def)
  ultimately show ?thesis by (rule finite_subset [rotated])
qed

section \<open>What a query returns\<close>

definition eqIDs :: "adb \<Rightarrow> bytes \<Rightarrow> bytes \<Rightarrow> bytes set" where
  "eqIDs a x v = {i. (v, i) \<in> idxPairs a x}"

text \<open>The page of a list that a limit gives, with the flag for more.\<close>

definition page :: "int \<Rightarrow> 'a list \<Rightarrow> 'a list \<times> bool" where
  "page limit xs = (take (nat limit) xs, limit < int (length xs))"

definition behind :: "bytes \<Rightarrow> bytes list \<Rightarrow> bytes list" where
  "behind cursor = filter (\<lambda>i. cursor = [] \<or> cursor < i)"

definition spec_queryDocs :: "bytes \<Rightarrow> bytes \<Rightarrow> bytes \<Rightarrow> int \<Rightarrow> bytes \<Rightarrow> astate \<Rightarrow> (bytes list \<times> bool) result" where
  "spec_queryDocs n x v limit cursor A =
     (case A n of None \<Rightarrow> Inl [ErrDBNotFound]
      | Some a \<Rightarrow>
        if findIndex (aDefs a) x = None then Inl [ErrIndexNotFound]
        else if \<not> validIndexValue v then Inl [ErrInvalidIndexValue]
        else Inr (page limit (behind cursor (sorted_list_of_set (eqIDs a x v)))))"

lemma finite_eqIDs: "wfDB a \<Longrightarrow> finite (eqIDs a x v)"
  by (rule finite_subset [of _ "snd ` idxPairs a x"]) (force simp: eqIDs_def, simp add: finite_idxPairs)

lemma value_entries:
  assumes "wfDB a" "validIndexValue v"
  shows "{e. \<exists>w i. e = w @ i \<and> (w, i) \<in> idxPairs a x \<and> prefix v e} = (\<lambda>i. v @ i) ` eqIDs a x v"
proof (intro set_eqI iffI)
  fix e
  assume "e \<in> {e. \<exists>w i. e = w @ i \<and> (w, i) \<in> idxPairs a x \<and> prefix v e}"
  then obtain w i r where e: "e = w @ i" "(w, i) \<in> idxPairs a x" "e = v @ r"
    unfolding prefix_def by blast
  with validIndexValue_prefix_free [OF assms(2) idxPairs_valid(1) [OF assms(1) e(2)], of r i]
  show "e \<in> (\<lambda>i. v @ i) ` eqIDs a x v" by (auto simp: eqIDs_def)
qed (auto simp: eqIDs_def, blast)

lemma after_behind: "filter (after (if c = [] then None else Some c)) = behind c"
  by (auto simp: fun_eq_iff behind_def after_def intro!: filter_cong)

lemma page_overrun:
  assumes "0 \<le> limit" "ids = take (nat (limit + 1)) xs"
  shows "(if int (length ids) > limit then (if limit < 0 then Inl e else Inr (take (nat limit) ids, True)) else Inr (ids, False)) =
    Inr (page limit xs)"
  using assms by (auto simp: page_def min_def split: if_splits)

context store_api
begin

text \<open>The keys of an index in the stored map.\<close>

lemma index_dom:
  assumes "rep E wk m A" "A n = Some a" "validName x"
  shows "{k \<in> dom m. prefix (indexValuePrefix n x v) k} =
    (\<lambda>e. indexValuePrefix n x e) ` {e. \<exists>w i. e = w @ i \<and> (w, i) \<in> idxPairs a x \<and> prefix v e}"
    "(w, i) \<in> idxPairs a x \<Longrightarrow> m (indexKey n x w i) = Some []"
proof -
  from assms have n: "validName n" and wf: "wfDB a" and r: "repDB E m n a"
    unfolding rep_def wfState_def by blast+
  have pairs: "m (indexKey n x w i) = (if (w, i) \<in> idxPairs a x then Some [] else None)" if "validID i" for w i
    using r assms(3) that by (simp add: repDB_def idxPairs_def)
  then show "(w, i) \<in> idxPairs a x \<Longrightarrow> m (indexKey n x w i) = Some []"
    using idxPairs_valid(2) [OF wf] by simp
  show "{k \<in> dom m. prefix (indexValuePrefix n x v) k} =
    (\<lambda>e. indexValuePrefix n x e) ` {e. \<exists>w i. e = w @ i \<and> (w, i) \<in> idxPairs a x \<and> prefix v e}"
  proof (intro set_eqI iffI; clarify)
    fix k y
    assume k: "m k = Some y" "prefix (indexValuePrefix n x v) k"
    from k(2) have pre: "prefix (indexDataPrefix n) k"
      by (auto simp: indexValuePrefix_def appendPart_append [of "indexDataPrefix _"] prefix_def)
    from k(1) assms(1) obtain n' where n': "validName n'" "k = dbKey n' \<or> ownKey n' k \<or> k = storeMetaKey"
      unfolding rep_def by (metis option.discI n)
    with pre other_prefix(2) [OF n, of n' k] have "n' = n" by blast
    with n' pre n obtain x' w i where x': "validName x'" "validID i" "k = indexKey n x' w i" by (auto simp: ownKey_def)
    with k(2) have "x' = x" "prefix v (w @ i)"
      using indexValuePrefix_split(2) [of n n x x' v "w @ i", OF validName_goLen validName_goLen validName_goLen validName_goLen]
        n assms(3) by (auto simp: indexKey_value)
    with x' k(1) pairs [of i w] show "k \<in> (\<lambda>e. indexValuePrefix n x e) `
        {e. \<exists>w i. e = w @ i \<and> (w, i) \<in> idxPairs a x \<and> prefix v e}"
      by (auto simp: indexKey_value split: if_splits)
  next
    fix w i
    assume "(w, i) \<in> idxPairs a x" "prefix v (w @ i)"
    then show "indexValuePrefix n x (w @ i) \<in> dom m \<and> prefix (indexValuePrefix n x v) (indexValuePrefix n x (w @ i))"
      using pairs idxPairs_valid(2) [OF wf] by (auto simp: indexKey_value indexValuePrefix_def)
  qed
qed

lemma snapshotHas_rep: "okOrFault F (snapshotHas E k db) (Inr (kv db k \<noteq> None))"
  by (cases rule: get_cases [of db k])
    (auto simp: snapshotHas_def intro: okOrFault_fault getClose_fault split: option.splits)

lemma doc_stored:
  assumes "rep E wk m A" "A n = Some a" "aDocs a i \<noteq> None"
  shows "m (docKey n i) \<noteq> None" "validID i"
proof -
  from assms have wf: "wfDB a" and r: "repDB E m n a" unfolding rep_def wfState_def by blast+
  with assms(3) show "validID i" by (auto simp: wfDB_def)
  with r assms(3) show "m (docKey n i) \<noteq> None" by (force simp: repDB_def)
qed


lemma present: "rep E wk (kv db) A \<Longrightarrow> A n = Some a \<Longrightarrow> okOrFault F (hasDB E wk n db) (Inr True)"
  using hasDB_rep [of db A n] unfolding rep_def wfState_def by fastforce

lemma entries_subset: "map f (sorted_list_of_set K) = es @ rest \<Longrightarrow> finite K \<Longrightarrow> set es \<subseteq> f ` K"
  by (metis Un_upper1 list.set_map set_append set_sorted_list_of_set)

lemma queryDocs_loop_rep:
  assumes "\<And>k. ctx k = None" "int (length ids) \<le> limit + 1"
    "\<forall>(k, v) \<in> set es. v = [] \<and> validID (drop (length pre) k) \<and> kv db (docKey n (drop (length pre) k)) \<noteq> None"
  shows "okOrFault F (queryDocs_loop E ctx n pre limit db ids es)
    (Inr (ids @ map (\<lambda>(k, _). drop (length pre) k) (take (nat (limit + 1) - length ids) es),
      drop (nat (limit + 1) - length ids) es))"
  using assms(2,3)
proof (induction es arbitrary: ids)
  case (Cons e es)
  obtain k v where e: "e = (k, v)" by fastforce
  let ?i = "drop (length pre) k"
  show ?case
  proof (cases "int (length ids) \<le> limit")
    case True
    define j where "j = nat limit - length ids"
    with True have j: "nat (limit + 1) - length ids = Suc j" "nat (limit + 1) - length (ids @ [?i]) = j" by auto
    have tail: "okOrFault F (queryDocs_loop E ctx n pre limit db (ids @ [?i]) es)
      (Inr ((ids @ [?i]) @ map (\<lambda>(k, _). drop (length pre) k) (take j es), drop j es))"
      using Cons.IH [of "ids @ [?i]"] Cons.prems True j(2) by simp
    have has: "okOrFault F (snapshotHas E (docKey n ?i) db) (Inr True)"
      using snapshotHas_rep [of "docKey n ?i" db] Cons.prems(2) e by simp
    have "queryDocs_loop E ctx n pre limit db ids (e # es) = bindE (snapshotHas E (docKey n ?i) db)
        (\<lambda>exists. if \<not> exists then Inl [ErrCorruptData] else queryDocs_loop E ctx n pre limit db (ids @ [?i]) es)"
      using e True Cons.prems(2) assms(1) by (simp add: Let_def)
    moreover have "okOrFault F (bindE (snapshotHas E (docKey n ?i) db)
        (\<lambda>exists. if \<not> exists then Inl [ErrCorruptData] else queryDocs_loop E ctx n pre limit db (ids @ [?i]) es))
      (Inr ((ids @ [?i]) @ map (\<lambda>(k, _). drop (length pre) k) (take j es), drop j es))"
      by (rule okOrFault_bind_Inr [OF has]) (use tail in simp)
    ultimately show ?thesis using e j(1) by simp
  qed (use e Cons.prems in simp)
qed simp

lemma queryDocsCtx_rep:
  assumes r: "rep E wk (kv db) A" and n: "validName n" and x: "validName x"
    and ctx: "\<And>k. ctx k = None" and limit: "0 \<le> limit"
  shows "okOrFault F (queryDocsCtx E wk ctx n x v limit cursor db) (spec_queryDocs n x v limit cursor A)"
proof (cases "A n")
  case None
  with hasDB_rep [OF r n] show ?thesis
    by (auto simp: queryDocsCtx_def spec_queryDocs_def okOrFault_def)
next
  case (Some a)
  have wf: "wfDB a" using r Some unfolding rep_def wfState_def by blast
  let ?pre = "indexValuePrefix n x v"
  let ?K = "eqIDs a x v"
  let ?c = "if cursor = [] then None else Some cursor"
  let ?h = "\<lambda>ids. if int (length ids) > limit then (if limit < 0 then Inl [GoPanic] else Inr (take (nat limit) ids, True))
                 else Inr (ids, False)"
  have page: "okOrFault F (joinClose (snapshotClose E db)
           (case dbNewIter E db (Some ?pre) (prefixEnd ?pre) of
              Inl e \<Rightarrow> Inl (wrapStore e)
            | Inr it \<Rightarrow> joinClose (iterClose it)
                (bindE (queryDocs_loop E ctx n ?pre limit db []
                          (seekAfter (if cursor = [] then None else Some (?pre @ cursor)) (entries it))) (\<lambda>(ids, rest).
                 bindE (iterErr it rest) (\<lambda>_. ?h ids)))))
       (Inr (page limit (behind cursor (sorted_list_of_set ?K))))"
    if v: "validIndexValue v"
  proof (rule okOrFault_joinClose [OF scan_page snapshotClose_fault])
    have "{e. \<exists>w i. e = w @ i \<and> (w, i) \<in> idxPairs a x \<and> prefix v e} = (\<lambda>i. v @ i) ` ?K"
      by (rule value_entries [OF wf v])
    then have K: "boundedKeys (kv db) (Some ?pre) (prefixEnd ?pre) = (\<lambda>i. ?pre @ i) ` ?K"
      unfolding boundedKeys_prefix index_dom(1) [OF r Some x] by (auto simp: indexValuePrefix_def)
    have val: "the (kv db (?pre @ i)) = []" if "i \<in> ?K" for i
      using index_dom(2) [OF r Some x] that by (simp add: eqIDs_def indexKey_def)
    have sorted: "sortedEntries (kv db) (Some ?pre) (prefixEnd ?pre) =
      map (\<lambda>i. (?pre @ i, [])) (sorted_list_of_set ?K)"
      unfolding sortedEntries_shift [OF K finite_eqIDs [OF wf]] using val finite_eqIDs [OF wf] by simp
    show "okOrFault F (queryDocs_loop E ctx n ?pre limit db [] (seekAfter (if cursor = [] then None else Some (?pre @ cursor)) es))
      (Inr (map (\<lambda>(k, _). drop (length ?pre) k) (take (nat (limit + 1)) (seekAfter (if cursor = [] then None else Some (?pre @ cursor)) es)),
        drop (nat (limit + 1)) (seekAfter (if cursor = [] then None else Some (?pre @ cursor)) es)))"
      if es: "sortedEntries (kv db) (Some ?pre) (prefixEnd ?pre) = es @ rest" for es rest
    proof -
      have sub: "set (seekAfter (if cursor = [] then None else Some (?pre @ cursor)) es) \<subseteq> (\<lambda>i. (?pre @ i, [])) ` ?K"
        by (rule order_trans [OF seekAfter_subset]) (rule entries_subset [OF es [unfolded sorted] finite_eqIDs [OF wf]])
      have "validID i \<and> kv db (docKey n i) \<noteq> None" if "i \<in> ?K" for i
        using that idxPairs_valid(2,4) [OF wf, of v i x] doc_stored(1) [OF r Some, of i] by (simp add: eqIDs_def)
      then have good: "\<forall>(k, y) \<in> set (seekAfter (if cursor = [] then None else Some (?pre @ cursor)) es).
          y = [] \<and> validID (drop (length ?pre) k) \<and> kv db (docKey n (drop (length ?pre) k)) \<noteq> None"
        using sub by fastforce
      show ?thesis using queryDocs_loop_rep [OF ctx _ good, of "[]" limit] limit by simp
    qed
    show "?h (map (\<lambda>(k, _). drop (length ?pre) k) (take (nat (limit + 1))
       (seekAfter (if cursor = [] then None else Some (?pre @ cursor)) (sortedEntries (kv db) (Some ?pre) (prefixEnd ?pre))))) =
      Inr (page limit (behind cursor (sorted_list_of_set ?K)))"
    proof (rule page_overrun [OF limit])
      have c: "(if cursor = [] then None else Some (?pre @ cursor)) = map_option (\<lambda>b. ?pre @ b) ?c" by simp
      show "map (\<lambda>(k, _). drop (length ?pre) k) (take (nat (limit + 1))
       (seekAfter (if cursor = [] then None else Some (?pre @ cursor)) (sortedEntries (kv db) (Some ?pre) (prefixEnd ?pre)))) =
         take (nat (limit + 1)) (behind cursor (sorted_list_of_set ?K))"
        unfolding sorted c using finite_eqIDs [OF wf]
        by (subst seekAfter_shift) (simp_all add: take_map comp_def after_behind [symmetric])
    qed
  qed
  show ?thesis
    unfolding queryDocsCtx_def spec_queryDocs_def
    by (rule okOrFault_bind_Inr [OF present [OF r Some]], simp only: Some not_True_eq_False if_False option.case,
        rule okOrFault_bind_Inr [OF indexes_rep [OF r Some]]) (use page in \<open>simp add: Let_def\<close>)
qed

end

end
