(* ===== verification/Range_Laws.thy ===== *)
theory Range_Laws
  imports Query_Laws
begin

text \<open>
  What a range query returns: the documents whose indexed value has the type of the boundary
  and satisfies the comparison, in the order of value and ID.
\<close>

section \<open>What a range query returns\<close>

definition cmpHolds :: "cmpOp \<Rightarrow> bytes \<Rightarrow> bytes \<Rightarrow> bool" where
  "cmpHolds op v e =
     (if op = cmpLT then v < e else if op = cmpLE then v \<le> e else if op = cmpGT then v > e else v \<ge> e)"

definition rangePairs :: "adb \<Rightarrow> bytes \<Rightarrow> cmpOp \<Rightarrow> bytes \<Rightarrow> (bytes \<times> bytes) set" where
  "rangePairs a x op e = {(v, i) \<in> idxPairs a x. v ! 0 = e ! 0 \<and> cmpHolds op v e}"

definition behindPair :: "bytes \<Rightarrow> bytes \<Rightarrow> (bytes \<times> bytes) list \<Rightarrow> (bytes \<times> bytes) list" where
  "behindPair afterValue afterID = filter (\<lambda>p. afterValue = [] \<or> (afterValue, afterID) < p)"

definition rangePage :: "int \<Rightarrow> (bytes \<times> bytes) list \<Rightarrow> indexPage" where
  "rangePage limit ps =
     (if limit < int (length ps)
      then \<lparr>pageIDs = take (nat limit) (map snd ps), lastValue = fst (ps ! nat (limit - 1)), pageMore = True\<rparr>
      else \<lparr>pageIDs = map snd ps, lastValue = [], pageMore = False\<rparr>)"

definition spec_queryRange ::
  "bytes \<Rightarrow> bytes \<Rightarrow> cmpOp \<Rightarrow> bytes \<Rightarrow> int \<Rightarrow> bytes \<Rightarrow> bytes \<Rightarrow> astate \<Rightarrow> indexPage result" where
  "spec_queryRange n x op e limit afterValue afterID A =
     (case A n of None \<Rightarrow> Inl [ErrDBNotFound]
      | Some a \<Rightarrow>
        if findIndex (aDefs a) x = None then Inl [ErrIndexNotFound]
        else if \<not> cmpValid op \<or> op = cmpEq \<or> \<not> validIndexValue e \<or> e ! 0 \<noteq> 0x03 \<and> e ! 0 \<noteq> 0x04
        then Inl [ErrInvalidIndexValue]
        else if afterValue \<noteq> [] \<and> (\<not> validIndexValue afterValue \<or> afterValue ! 0 \<noteq> e ! 0 \<or> \<not> validID afterID)
        then Inl [ErrInvalidQueryCursor]
        else Inr (rangePage limit (behindPair afterValue afterID (sorted_list_of_set (rangePairs a x op e)))))"

section \<open>Bounds\<close>

lemma le_less_prefixEnd: "p \<le> (k :: bytes) \<Longrightarrow> (\<And>h. prefixEnd p = Some h \<Longrightarrow> k < h) \<Longrightarrow> prefix p k"
  using prefixEnd_loop_spec [of "length p" p k] by (auto simp: prefixEnd_def split: option.splits)

lemma prefixEnd_iff:
  assumes "prefixEnd p = Some h"
  shows "k < h \<longleftrightarrow> k < p \<or> prefix p k" "h \<le> k \<longleftrightarrow> p \<le> k \<and> \<not> prefix p k"
proof -
  have p: "prefix p k \<longleftrightarrow> p \<le> k \<and> k < h" for k
    using prefixEnd_loop_spec [of "length p" p k] assms by (simp add: prefixEnd_def)
  have "p < h" using p [of p] by auto
  then show "k < h \<longleftrightarrow> k < p \<or> prefix p k" using p [of k] by (auto intro: less_trans)
  then show "h \<le> k \<longleftrightarrow> p \<le> k \<and> \<not> prefix p k" by (auto simp: not_less [symmetric])
qed

lemma cmpValid_cases: "cmpValid op \<longleftrightarrow> op = cmpEq \<or> op = cmpLT \<or> op = cmpLE \<or> op = cmpGT \<or> op = cmpGE"
  unfolding cmpValid_def cmp_defs by (rule byte_all) code_simp

text \<open>The bounds of the four comparisons, for a boundary that extends the type prefix.\<close>

lemma rangeBounds_keys:
  assumes "prefix t b" "t \<noteq> []" "hd t \<noteq> 0xff" "cmpValid op" "op \<noteq> cmpEq"
  shows "boundedKeys m (fst (rangeBounds op t b)) (snd (rangeBounds op t b)) =
    {k \<in> dom m. prefix t k \<and>
      (if op = cmpLT then k < b else if op = cmpLE then k < b \<or> prefix b k
       else if op = cmpGT then b \<le> k \<and> \<not> prefix b k else b \<le> k)}"
proof -
  have b: "b \<noteq> []" "hd b \<noteq> 0xff" using assms(1-3) by (auto simp: prefix_def)
  obtain te be where e: "prefixEnd t = Some te" "prefixEnd b = Some be"
    using prefixEnd_some [OF assms(2,3)] prefixEnd_some [OF b] by auto
  have tk: "prefix t k \<longleftrightarrow> t \<le> k \<and> k < te" for k
    using prefixEnd_iff(1) [OF e(1), of k] prefix_imp_le [of t k] by auto
  have tb: "t \<le> b" "b < te" using tk assms(1) by auto
  have pb: "prefix b k \<Longrightarrow> prefix t k" for k using assms(1) by (rule prefix_order.trans)
  have ops: "op = cmpLT \<or> op = cmpLE \<or> op = cmpGT \<or> op = cmpGE"
    using assms(4,5) cmpValid_cases [of op] by blast
  have lt: "t \<le> k \<and> k < b \<longleftrightarrow> prefix t k \<and> k < b" for k
    using tb tk [of k] by (auto intro: less_trans)
  have ge: "b \<le> k \<and> k < te \<longleftrightarrow> prefix t k \<and> b \<le> k" for k
    using tb tk [of k] by (auto intro: order_trans)
  have le: "t \<le> k \<and> k < be \<longleftrightarrow> prefix t k \<and> (k < b \<or> prefix b k)" for k
    using lt [of k] pb [of k] tk [of k] prefixEnd_iff(1) [OF e(2), of k] by blast
  have gt: "be \<le> k \<and> k < te \<longleftrightarrow> prefix t k \<and> b \<le> k \<and> \<not> prefix b k" for k
    using ge [of k] prefixEnd_iff(2) [OF e(2), of k] by blast
  show ?thesis
    using ops lt ge le gt by (elim disjE) (auto simp: rangeBounds_def boundedKeys_def cmp_defs Let_def e)
qed

lemma sorted_list_of_set_image:
  assumes "finite K" "\<And>x y. x \<in> K \<Longrightarrow> y \<in> K \<Longrightarrow> x < y \<Longrightarrow> f x < f y"
  shows "sorted_list_of_set (f ` K) = map f (sorted_list_of_set K)"
proof (rule sorted_distinct_set_unique)
  have inj: "inj_on f K" using assms(2) by (intro linorder_inj_onI) (auto dest: less_imp_neq)
  then show "distinct (map f (sorted_list_of_set K))" using assms(1) by (simp add: distinct_map)
  have "sorted_wrt (\<lambda>x y. f x \<le> f y) (sorted_list_of_set K)"
    using assms by (intro sorted_wrt_mono_rel [OF _ sorted_sorted_list_of_set])
      (auto simp: order.order_iff_strict)
  then show "sorted (map f (sorted_list_of_set K))" by (simp add: sorted_map)
qed (use assms(1) in auto)

lemma okOrFault_if:
  "b = b' \<Longrightarrow> (b \<Longrightarrow> okOrFault F r r') \<Longrightarrow> (\<not> b \<Longrightarrow> okOrFault F s s') \<Longrightarrow>
    okOrFault F (if b then r else s) (if b' then r' else s')"
  by simp

context store_api
begin

lemma rangePairs_keys:
  assumes r: "rep E wk m A" "A n = Some a" "validName x" and e: "validIndexValue e" "e ! 0 = 0x03 \<or> e ! 0 = 0x04"
    and op: "cmpValid op" "op \<noteq> cmpEq"
  defines "B \<equiv> rangeBounds op (indexTypePrefix n x (e ! 0)) (indexValuePrefix n x e)"
  shows "boundedKeys m (fst B) (snd B) = (\<lambda>(v, i). indexKey n x v i) ` rangePairs a x op e"
proof -
  have wf: "wfDB a" using r unfolding rep_def wfState_def by blast
  obtain t e' where t: "e = t # e'" using e(1) by (cases e) (auto simp: validIndexValue_def)
  have pre: "prefix (indexTypePrefix n x (e ! 0)) (indexValuePrefix n x e)" "indexTypePrefix n x (e ! 0) \<noteq> []"
    "hd (indexTypePrefix n x (e ! 0)) \<noteq> 0xff"
    using key_kinds(4) [of n x "[e ! 0]" "[]"] key_ne(4) [of n x "[e ! 0]" "[]"]
    by (simp_all add: t indexTypePrefix_value indexKey_def) (simp add: indexValuePrefix_def)
  let ?C = "\<lambda>k b. if op = cmpLT then k < b else if op = cmpLE then k < b \<or> prefix b k
      else if op = cmpGT then b \<le> k \<and> \<not> prefix b k else b \<le> k"
  have C: "?C (indexValuePrefix n x (v @ i)) (indexValuePrefix n x e) \<longleftrightarrow> cmpHolds op v e"
    if "validIndexValue v" for v i
  proof -
    have p: "prefix e (v @ i) \<longleftrightarrow> e = v"
      using validIndexValue_prefix_free [OF that e(1)] by (auto simp: prefix_def)
    have l: "v @ i < e \<longleftrightarrow> v < e"
    proof (cases "v = e")
      case False
      then show ?thesis using prefix_free_less [of v e i "[]"] that e(1) validIndexValue_not_prefix by simp
    qed (simp add: not_less prefix_imp_le)
    have "\<not> v < e \<longleftrightarrow> e \<le> v" "\<not> v @ i < e \<longleftrightarrow> e \<le> v @ i" by (simp_all add: not_less)
    with p l show ?thesis by (auto simp: cmpHolds_def indexValuePrefix_def)
  qed
  have T: "prefix [t] (v @ i) \<longleftrightarrow> v ! 0 = e ! 0" if "validIndexValue v" for v i
    using that by (cases v) (auto simp: t validIndexValue_def)
  have "boundedKeys m (fst B) (snd B) = {k \<in> {k \<in> dom m. prefix (indexValuePrefix n x [t]) k}. ?C k (indexValuePrefix n x e)}"
    unfolding B_def rangeBounds_keys [OF pre op] by (simp add: t indexTypePrefix_value)
  also have "\<dots> = (\<lambda>(v, i). indexKey n x v i) ` rangePairs a x op e"
    unfolding index_dom(1) [OF r]
  proof (intro set_eqI iffI)
    fix k
    assume "k \<in> {k \<in> (\<lambda>e. indexValuePrefix n x e) ` {e. \<exists>w i. e = w @ i \<and> (w, i) \<in> idxPairs a x \<and> prefix [t] e}.
      ?C k (indexValuePrefix n x e)}"
    then obtain w i where w: "k = indexValuePrefix n x (w @ i)" "(w, i) \<in> idxPairs a x" "prefix [t] (w @ i)"
      "?C k (indexValuePrefix n x e)" by blast
    with C T idxPairs_valid(1) [OF wf w(2)] show "k \<in> (\<lambda>(v, i). indexKey n x v i) ` rangePairs a x op e"
      unfolding rangePairs_def by (auto simp: indexKey_value simp del: append_eq_conv_conj intro!: image_eqI [of _ _ "(w, i)"])
  next
    fix k
    assume "k \<in> (\<lambda>(v, i). indexKey n x v i) ` rangePairs a x op e"
    then obtain w i where w: "k = indexValuePrefix n x (w @ i)" "(w, i) \<in> idxPairs a x" "w ! 0 = e ! 0" "cmpHolds op w e"
      by (auto simp: rangePairs_def indexKey_value)
    with C T idxPairs_valid(1) [OF wf w(2)]
    show "k \<in> {k \<in> (\<lambda>e. indexValuePrefix n x e) ` {e. \<exists>w i. e = w @ i \<and> (w, i) \<in> idxPairs a x \<and> prefix [t] e}.
      ?C k (indexValuePrefix n x e)}" by blast
  qed
  finally show ?thesis .
qed

lemma rangePairs_entries:
  assumes r: "rep E wk (kv db) A" "A n = Some a" "validName x" and e: "validIndexValue e" "e ! 0 = 0x03 \<or> e ! 0 = 0x04"
    and op: "cmpValid op" "op \<noteq> cmpEq"
  defines "B \<equiv> rangeBounds op (indexTypePrefix n x (e ! 0)) (indexValuePrefix n x e)"
  shows "sortedEntries (kv db) (fst B) (snd B) =
    map (\<lambda>(v, i). (indexKey n x v i, [])) (sorted_list_of_set (rangePairs a x op e))"
proof -
  have wf: "wfDB a" using r unfolding rep_def wfState_def by blast
  have f: "finite (rangePairs a x op e)"
    by (rule finite_subset [OF _ finite_idxPairs [OF wf, of x]]) (auto simp: rangePairs_def)
  have "sorted_list_of_set ((\<lambda>(v, i). indexKey n x v i) ` rangePairs a x op e) =
      map (\<lambda>(v, i). indexKey n x v i) (sorted_list_of_set (rangePairs a x op e))"
  proof (rule sorted_list_of_set_image [OF f]; clarify)
    fix v i w j
    assume "(v, i) \<in> rangePairs a x op e" "(w, j) \<in> rangePairs a x op e" "(v, i) < (w, j)"
    then show "indexKey n x v i < indexKey n x w j"
      using entry_less [of v w i j] idxPairs_valid(1) [OF wf] by (auto simp: rangePairs_def indexKey_value)
  qed
  moreover have "the (kv db (indexKey n x v i)) = []" if "(v, i) \<in> rangePairs a x op e" for v i
    using index_dom(2) [OF r, of v i] that by (auto simp: rangePairs_def)
  ultimately show ?thesis
    unfolding sortedEntries_def B_def rangePairs_keys [OF r e op] using f by (auto simp: comp_def)
qed

lemma split_key:
  assumes "validIndexValue v" "v ! 0 = t" "t = 0x03 \<or> t = 0x04"
  shows "splitIndexEntry (indexTypePrefix n x t) (indexKey n x v i) = Some (v, i)"
proof -
  obtain v' where v: "v = t # v'" using assms(1,2) by (cases v) (auto simp: validIndexValue_def)
  with splitIndexEntry_append [of t v' "appendPart (indexDataPrefix n) x" i] assms(1,3) show ?thesis
    by (simp add: indexTypePrefix_def indexKey_def indexValuePrefix_def)
qed

text \<open>The loop, once it is past the cursor.\<close>

lemma queryRange_loop_rep:
  assumes "\<And>k. ctx k = None" "int (length ids) \<le> limit + 1"
    "\<forall>(v, i) \<in> set qs. validIndexValue v \<and> v ! 0 = t \<and> validID i \<and> kv db (docKey n i) \<noteq> None"
    "t = 0x03 \<or> t = 0x04"
  shows "okOrFault F (queryRange_loop E ctx n (indexTypePrefix n x t) limit aid db j True ids vals
      (map (\<lambda>(v, i). (indexKey n x v i, [])) qs))
    (Inr ((ids @ map snd (take (nat (limit + 1) - length ids) qs), vals @ map fst (take (nat (limit + 1) - length ids) qs)),
      map (\<lambda>(v, i). (indexKey n x v i, [])) (drop (nat (limit + 1) - length ids) qs)))"
  using assms(2,3)
proof (induction qs arbitrary: ids vals j)
  case (Cons q qs)
  obtain v i where q: "q = (v, i)" by fastforce
  let ?es = "map (\<lambda>(v, i). (indexKey n x v i, [])) qs"
  show ?case
  proof (cases "int (length ids) \<le> limit")
    case True
    define h where "h = nat limit - length ids"
    with True have h: "nat (limit + 1) - length ids = Suc h" "nat (limit + 1) - length (ids @ [i]) = h" by auto
    from Cons.prems(2) q have v: "v ! 0 = t" "validIndexValue v" "validID i" "kv db (docKey n i) \<noteq> None" by auto
    note split = split_key [OF v(2,1) assms(4), of n x i]
    have tail: "okOrFault F (queryRange_loop E ctx n (indexTypePrefix n x t) limit aid db (j + 1) True (ids @ [i]) (vals @ [v]) ?es)
      (Inr (((ids @ [i]) @ map snd (take h qs), (vals @ [v]) @ map fst (take h qs)), map (\<lambda>(v, i). (indexKey n x v i, [])) (drop h qs)))"
      using Cons.IH [of "ids @ [i]" "j + 1" "vals @ [v]"] Cons.prems True unfolding h(2) by simp
    have has: "okOrFault F (snapshotHas E (docKey n i) db) (Inr True)"
      using snapshotHas_rep [of "docKey n i" db] v(4) by simp
    have "okOrFault F (bindE (snapshotHas E (docKey n i) db)
        (\<lambda>exists. if \<not> exists then Inl [ErrCorruptData]
          else queryRange_loop E ctx n (indexTypePrefix n x t) limit aid db (j + 1) True (ids @ [i]) (vals @ [v]) ?es))
      (Inr (((ids @ [i]) @ map snd (take h qs), (vals @ [v]) @ map fst (take h qs)), map (\<lambda>(v, i). (indexKey n x v i, [])) (drop h qs)))"
      by (rule okOrFault_bind_Inr [OF has]) (use tail in simp)
    then show ?thesis using q True assms(1) [of j] split v(3) by (simp add: h(1))
  qed (use q Cons.prems in simp)
qed simp

lemma range_overrun:
  assumes "1 \<le> limit" "qs = take (nat (limit + 1)) ps"
  shows "(if int (length (map snd qs)) > limit
      then (if limit < 1 then Inl e
            else Inr \<lparr>pageIDs = take (nat limit) (map snd qs), lastValue = map fst qs ! nat (limit - 1), pageMore = True\<rparr>)
      else Inr \<lparr>pageIDs = map snd qs, lastValue = [], pageMore = False\<rparr>) = Inr (rangePage limit ps)"
  using assms by (auto simp: rangePage_def min_def take_map split: if_splits)


lemma seekAfter_pairs:
  assumes "\<And>v i. (v, i) \<in> set qs \<Longrightarrow> validIndexValue v" "sorted qs" "distinct qs"
    and c: "afterValue \<noteq> [] \<Longrightarrow> validIndexValue afterValue"
  shows "seekAfter (if length afterValue > 0 then Some (indexKey n x afterValue afterID) else None)
      (map (\<lambda>(v, i). (indexKey n x v i, [])) qs) =
    map (\<lambda>(v, i). (indexKey n x v i, [])) (behindPair afterValue afterID qs)"
proof -
  let ?f = "\<lambda>(v, i). (indexKey n x v i, [])"
  have less: "fst (?f p) < fst (?f q) \<longleftrightarrow> p < q" if "p \<in> set qs" "q \<in> set qs" for p q
    using entry_less [of "fst p" "fst q" "snd p" "snd q"] assms(1) [of "fst p" "snd p"] assms(1) [of "fst q" "snd q"] that
    by (auto simp: indexKey_value split_beta)
  have "sorted_wrt (<) qs" using assms(2,3) by (simp add: strict_sorted_iff)
  then have "sorted_wrt (\<lambda>p q. fst (?f p) < fst (?f q)) qs"
    by (rule sorted_wrt_mono_rel [rotated]) (use less in blast)
  then have "sorted_wrt (<) (map fst (map ?f qs))" by (simp add: sorted_wrt_map comp_def)
  then have s: "sorted (map fst (map ?f qs))" "distinct (map fst (map ?f qs))" by (auto simp only: strict_sorted_iff)
  have "after (if length afterValue > 0 then Some (indexKey n x afterValue afterID) else None) (indexKey n x v i) \<longleftrightarrow>
      afterValue = [] \<or> (afterValue, afterID) < (v, i)" if "(v, i) \<in> set qs" for v i
    using entry_less [OF c assms(1) [OF that], of afterID i] by (auto simp: after_def indexKey_value)
  then show ?thesis unfolding seekAfter_filter [OF s] behindPair_def filter_map
    by (intro map_cong filter_cong) (auto simp: comp_def)
qed

lemma queryRangePage_rep:
  assumes r: "rep E wk (kv db) A" and n: "validName n" and x: "validName x"
    and ctx: "\<And>k. ctx k = None" and limit: "1 \<le> limit" and start: "afterValue = [] \<Longrightarrow> afterID = []"
  shows "okOrFault F (queryRangePage E wk ctx n x op e limit afterValue afterID db)
    (spec_queryRange n x op e limit afterValue afterID A)"
proof (cases "A n")
  case None
  with hasDB_rep [OF r n] show ?thesis
    by (auto simp: queryRangePage_def spec_queryRange_def okOrFault_def)
next
  case (Some a)
  have wf: "wfDB a" using r Some unfolding rep_def wfState_def by blast
  let ?t = "indexTypePrefix n x (e ! 0)"
  let ?lo = "fst (rangeBounds op ?t (indexValuePrefix n x e))"
  let ?hi = "snd (rangeBounds op ?t (indexValuePrefix n x e))"
  let ?K = "rangePairs a x op e"
  let ?c = "if length afterValue > 0 then Some (indexKey n x afterValue afterID) else None"
  let ?f = "\<lambda>(v, i). (indexKey n x v i, [])"
  let ?h = "\<lambda>(ids, vals). if int (length ids) > limit
      then (if limit < 1 then Inl [GoPanic]
            else Inr \<lparr>pageIDs = take (nat limit) ids, lastValue = vals ! nat (limit - 1), pageMore = True\<rparr>)
      else Inr \<lparr>pageIDs = ids, lastValue = [], pageMore = False\<rparr>"
  let ?g = "\<lambda>es. (map (\<lambda>(k, _). snd (the (splitIndexEntry ?t k))) es, map (\<lambda>(k, _). fst (the (splitIndexEntry ?t k))) es)"
  have page: "okOrFault F (joinClose (snapshotClose E db)
           (case dbNewIter E db ?lo ?hi of
              Inl e \<Rightarrow> Inl (wrapStore e)
            | Inr it \<Rightarrow> joinClose (iterClose it)
                (bindE (queryRange_loop E ctx n ?t limit afterID db 0 True [] [] (seekAfter ?c (entries it)))
                   (\<lambda>(y, rest). bindE (iterErr it rest) (\<lambda>_. ?h y)))))
       (Inr (rangePage limit (behindPair afterValue afterID (sorted_list_of_set ?K))))"
    if e: "validIndexValue e" "e ! 0 = 0x03 \<or> e ! 0 = 0x04" and op: "cmpValid op" "op \<noteq> cmpEq"
      and c: "afterValue \<noteq> [] \<Longrightarrow> validIndexValue afterValue"
  proof (rule okOrFault_joinClose [OF scan_page snapshotClose_fault])
    have f: "finite ?K" by (rule finite_subset [OF _ finite_idxPairs [OF wf, of x]]) (auto simp: rangePairs_def)
    have good: "validIndexValue v \<and> v ! 0 = e ! 0 \<and> validID i \<and> kv db (docKey n i) \<noteq> None" if "(v, i) \<in> ?K" for v i
      using that idxPairs_valid [OF wf, of v i x] doc_stored(1) [OF r Some, of i] by (auto simp: rangePairs_def)
    have split: "?g (map ?f qs) = (map snd qs, map fst qs)" if "set qs \<subseteq> ?K" for qs
      using that good split_key [OF _ _ e(2)] by (induction qs) auto
    have entries: "sortedEntries (kv db) ?lo ?hi = map ?f (sorted_list_of_set ?K)"
      by (rule rangePairs_entries [OF r Some x e op])
    show "okOrFault F (queryRange_loop E ctx n ?t limit afterID db 0 True [] [] (seekAfter ?c es))
      (Inr (?g (take (nat (limit + 1)) (seekAfter ?c es)), drop (nat (limit + 1)) (seekAfter ?c es)))"
      if es: "sortedEntries (kv db) ?lo ?hi = es @ rest" for es rest
    proof -
      obtain us vs where us: "sorted_list_of_set ?K = us @ vs" "es = map ?f us"
        using es unfolding entries by (auto simp: map_eq_append_conv)
      have u: "sorted us" "distinct us" "set us \<subseteq> ?K"
        using us(1) f by (metis sorted_append sorted_sorted_list_of_set, metis distinct_append distinct_sorted_list_of_set,
          metis Un_upper1 set_append set_sorted_list_of_set)
      let ?qs = "behindPair afterValue afterID us"
      have q: "set ?qs \<subseteq> ?K" "set (take k ?qs) \<subseteq> ?K" for k
        using u(3) by (auto simp: behindPair_def dest!: in_set_takeD)
      have "seekAfter ?c es = map ?f ?qs"
        unfolding us(2) using u good by (intro seekAfter_pairs c) auto
      moreover have "\<forall>(v, i) \<in> set ?qs. validIndexValue v \<and> v ! 0 = e ! 0 \<and> validID i \<and> kv db (docKey n i) \<noteq> None"
        using q(1) good by blast
      ultimately show ?thesis
        using queryRange_loop_rep [where ids = "[]" and vals = "[]" and qs = ?qs and j = 0 and x = x and aid = afterID and ctx = ctx, OF ctx _ _ e(2)] limit
        by (simp only: take_map drop_map split [OF q(2)]) simp
    qed
    show "?h (?g (take (nat (limit + 1)) (seekAfter ?c (sortedEntries (kv db) ?lo ?hi)))) =
      Inr (rangePage limit (behindPair afterValue afterID (sorted_list_of_set ?K)))"
    proof -
      let ?qs = "behindPair afterValue afterID (sorted_list_of_set ?K)"
      have q: "set (take k ?qs) \<subseteq> ?K" for k
        using f by (auto simp: behindPair_def dest!: in_set_takeD)
      have "seekAfter ?c (sortedEntries (kv db) ?lo ?hi) = map ?f ?qs"
        unfolding entries using f good by (intro seekAfter_pairs c) auto
      then have g: "?g (take (nat (limit + 1)) (seekAfter ?c (sortedEntries (kv db) ?lo ?hi))) =
          (map snd (take (nat (limit + 1)) ?qs), map fst (take (nat (limit + 1)) ?qs))"
        by (simp only: take_map split [OF q])
      show ?thesis unfolding g prod.case by (rule range_overrun [OF limit refl])
    qed
  qed
  have past: "(length afterValue > 0 \<or> afterID = []) = True" using start by auto
  show ?thesis
    unfolding queryRangePage_def spec_queryRange_def
  proof (rule okOrFault_bind_Inr [OF present [OF r Some]], simp only: Some not_True_eq_False if_False option.case,
      rule okOrFault_bind_Inr [OF indexes_rep [OF r Some]], intro okOrFault_if, goal_cases)
    case 7
    then show ?case using page [unfolded split_beta']
      by (simp only: Let_def split_beta' past) (blast dest: length_greater_0_conv [THEN iffD2])
  qed (simp_all add: isOk_iff)
qed

end

end
