(* ===== verification/List_Laws.thy ===== *)
theory List_Laws
  imports Query_Laws
begin

text \<open>
  What lists and exports return: a page of the names or IDs behind the cursor in byte order, and
  the documents of a database in the order of their IDs.
\<close>

section \<open>What lists return\<close>

definition spec_listDocs :: "bytes \<Rightarrow> int \<Rightarrow> bytes \<Rightarrow> astate \<Rightarrow> (bytes list \<times> bool) result" where
  "spec_listDocs n limit cursor A =
     (case A n of None \<Rightarrow> Inl [ErrDBNotFound]
      | Some a \<Rightarrow> Inr (page limit (behind cursor (sorted_list_of_set (dom (aDocs a))))))"

definition spec_listDBs :: "int \<Rightarrow> bytes \<Rightarrow> astate \<Rightarrow> bytes list" where
  "spec_listDBs limit cursor A = take (nat limit) (behind cursor (sorted_list_of_set (dom A)))"

text \<open>The documents of a database in the order of their IDs, and a callback run over them.\<close>

definition docsInOrder :: "adb \<Rightarrow> bytes list" where
  "docsInOrder a = map (\<lambda>i. docJson (the (aDocs a i))) (sorted_list_of_set (dom (aDocs a)))"

fun yieldAll :: "(bytes \<Rightarrow> 'y \<Rightarrow> unit result \<times> 'y) \<Rightarrow> bytes list \<Rightarrow> 'y \<Rightarrow> unit result \<times> 'y" where
  "yieldAll yield [] y = (Inr (), y)"
| "yieldAll yield (j # js) y =
     (case yield j y of (Inl e, y') \<Rightarrow> (Inl e, y') | (Inr _, y') \<Rightarrow> yieldAll yield js y')"

section \<open>Loops\<close>

text \<open>A loop that collects \<open>g\<close> of the entries while fewer than a limit are there.\<close>

lemma listDocs_loop_take:
  assumes "\<forall>(k, v) \<in> set es. isOk (parseDocRecord v)" "int (length ids) \<le> limit + 1"
  shows "listDocs_loop pre limit ids es =
    Inr (ids @ map (\<lambda>(k, _). drop (length pre) k) (take (nat (limit + 1) - length ids) es),
      drop (nat (limit + 1) - length ids) es)"
  using assms
proof (induction es arbitrary: ids)
  case (Cons e es)
  obtain k v where e: "e = (k, v)" by fastforce
  show ?case
  proof (cases "int (length ids) \<le> limit")
    case True
    define j where "j = nat limit - length ids"
    with True have "nat (limit + 1) - length ids = Suc j" "nat (limit + 1) - Suc (length ids) = j" by auto
    with Cons.IH [of "ids @ [drop (length pre) k]"] Cons.prems True e show ?thesis
      by (auto simp: isOk_iff split: sum.splits)
  qed (use e Cons.prems in simp)
qed simp

lemma listDBs_loop_take:
  assumes "\<forall>(k, v) \<in> set es. isOk (authDBRecord E wk k v)" "int (length ids) \<le> limit \<or> ids = []"
  shows "listDBs_loop E wk limit ids es =
    Inr (ids @ map (\<lambda>(k, _). drop (length dbPrefix) k) (take (nat limit - length ids) es),
      drop (nat limit - length ids) es)"
  using assms
proof (induction es arbitrary: ids)
  case (Cons e es)
  obtain k v where e: "e = (k, v)" by fastforce
  show ?case
  proof (cases "int (length ids) < limit")
    case True
    define j where "j = nat limit - length ids - 1"
    with True have "nat limit - length ids = Suc j" "nat limit - Suc (length ids) = j" by auto
    with Cons.IH [of "ids @ [drop (length dbPrefix) k]"] Cons.prems True e show ?thesis
      by (auto simp: isOk_iff split: sum.splits)
  qed (use e Cons.prems in auto)
qed simp

lemma finite_dbs:
  assumes "rep E wk m A" "finite (dom m)"
  shows "finite (dom A)"
proof -
  have "dbKey ` dom A \<subseteq> dom m" using assms(1) unfolding rep_def by fastforce
  then have "finite (dbKey ` dom A)" using assms(2) by (rule finite_subset)
  then show ?thesis by (rule finite_imageD) (auto simp: inj_on_def)
qed

context store_api
begin

lemma docs_dom:
  assumes "rep E wk m A" "A n = Some a"
  shows "boundedKeys m (Some (docsPrefix n)) (prefixEnd (docsPrefix n)) = (\<lambda>i. docsPrefix n @ i) ` dom (aDocs a)"
    "aDocs a i = Some d \<Longrightarrow> \<exists>v. m (docsPrefix n @ i) = Some v \<and> openDoc E (docKey n i) (aKey a) i v = Inr d"
proof -
  from assms have n: "validName n" and wf: "wfDB a" and r: "repDB E m n a"
    unfolding rep_def wfState_def by blast+
  show stored: "\<exists>v. m (docsPrefix n @ i) = Some v \<and> openDoc E (docKey n i) (aKey a) i v = Inr d" if "aDocs a i = Some d" for i d
    using wf r that by (force simp: wfDB_def repDB_def docKey_def)
  have "aDocs a i \<noteq> None" if "m (docKey n i) \<noteq> None" for i
  proof -
    from that assms(1) obtain n' where "validName n'" "docKey n i = dbKey n' \<or> ownKey n' (docKey n i) \<or> docKey n i = storeMetaKey"
      unfolding rep_def by (metis n)
    with n have "validID i" by (auto simp: ownKey_def)
    with r that show ?thesis by (cases "aDocs a i") (auto simp: repDB_def)
  qed
  then show "boundedKeys m (Some (docsPrefix n)) (prefixEnd (docsPrefix n)) = (\<lambda>i. docsPrefix n @ i) ` dom (aDocs a)"
    unfolding boundedKeys_prefix prefix_docsPrefix_iff
    by (intro set_eqI iffI; clarsimp simp: docKey_def) (force, use stored in blast)
qed

lemma dbs_dom:
  assumes "rep E wk m A"
  shows "boundedKeys m (Some dbPrefix) (prefixEnd dbPrefix) = (\<lambda>n. dbPrefix @ n) ` dom A"
    "A n = Some a \<Longrightarrow> \<exists>v. m (dbPrefix @ n) = Some v \<and> isOk (authDBRecord E wk (dbPrefix @ n) v)"
proof -
  have k: "dbKey n = dbPrefix @ n" for n by (simp add: dbKey_def appendKey_def)
  show stored: "\<exists>v. m (dbPrefix @ n) = Some v \<and> isOk (authDBRecord E wk (dbPrefix @ n) v)" if "A n = Some a" for n a
  proof -
    from assms that obtain v where "m (dbKey n) = Some v" "unwrapDBKey E wk (dbKey n) v = Inr (aKey a)"
      unfolding rep_def by blast
    then show ?thesis by (simp add: k authDBRecord_def isOk_iff)
  qed
  have "A n \<noteq> None" if "m (dbKey n) \<noteq> None" for n
    using that assms unfolding rep_def by (fastforce simp: ownKey_def)
  then show "boundedKeys m (Some dbPrefix) (prefixEnd dbPrefix) = (\<lambda>n. dbPrefix @ n) ` dom A"
    unfolding boundedKeys_prefix prefix_dbPrefix
    by (intro set_eqI iffI; clarsimp simp: k) (force, use stored in blast)
qed

lemma openDoc_parse: "openDoc E k dk i v = Inr d \<Longrightarrow> isOk (parseDocRecord v)"
  by (auto simp: openDoc_def isOk_iff result_simps)

section \<open>Lists\<close>

lemma listDocs_rep:
  assumes r: "rep E wk (kv db) A" and n: "validName n" and limit: "0 \<le> limit"
  shows "okOrFault F (listDocs E wk n limit cursor db) (spec_listDocs n limit cursor A)"
proof (cases "A n")
  case None
  with hasDB_rep [OF r n] show ?thesis by (auto simp: listDocs_def spec_listDocs_def okOrFault_def)
next
  case (Some a)
  have f: "finite (dom (aDocs a))" using r Some unfolding rep_def wfState_def wfDB_def by blast
  let ?p = "docsPrefix n"
  let ?c = "if cursor = [] then None else Some (docKey n cursor)"
  let ?h = "\<lambda>ids. if int (length ids) > limit then (if limit < 0 then Inl [GoPanic] else Inr (take (nat limit) ids, True))
                 else Inr (ids, False)"
  note sorted = sortedEntries_shift [OF docs_dom(1) [OF r Some] f]
  have good: "isOk (parseDocRecord v)" if "(k, v) \<in> set (sortedEntries (kv db) (Some ?p) (prefixEnd ?p))" for k v
    using that f docs_dom(2) [OF r Some] unfolding sorted by (fastforce dest: openDoc_parse)
  have page: "okOrFault F (case dbNewIter E db (Some ?p) (prefixEnd ?p) of
         Inl e \<Rightarrow> Inl (wrapStore e)
       | Inr it \<Rightarrow> joinClose (iterClose it)
           (bindE (listDocs_loop ?p limit [] (seekAfter ?c (entries it))) (\<lambda>(ids, rest).
            bindE (iterErr it rest) (\<lambda>_. ?h ids))))
     (Inr (page limit (behind cursor (sorted_list_of_set (dom (aDocs a))))))"
  proof (rule scan_page)
    fix es rest
    assume "sortedEntries (kv db) (Some ?p) (prefixEnd ?p) = es @ rest"
    then have "\<forall>(k, v) \<in> set (seekAfter ?c es). isOk (parseDocRecord v)"
      using good seekAfter_subset [of ?c es] by fastforce
    from listDocs_loop_take [OF this, of "[]" limit ?p] limit
    show "okOrFault F (listDocs_loop ?p limit [] (seekAfter ?c es))
      (Inr (map (\<lambda>(k, _). drop (length ?p) k) (take (nat (limit + 1)) (seekAfter ?c es)), drop (nat (limit + 1)) (seekAfter ?c es)))"
      by simp
  next
    have c: "?c = map_option (\<lambda>b. ?p @ b) (if cursor = [] then None else Some cursor)" by (simp add: docKey_def)
    show "?h (map (\<lambda>(k, _). drop (length ?p) k) (take (nat (limit + 1)) (seekAfter ?c (sortedEntries (kv db) (Some ?p) (prefixEnd ?p))))) =
      Inr (page limit (behind cursor (sorted_list_of_set (dom (aDocs a)))))"
      by (rule page_overrun [OF limit], unfold sorted c, subst seekAfter_shift)
        (use f in \<open>simp_all add: take_map comp_def after_behind [symmetric]\<close>)
  qed
  show ?thesis unfolding listDocs_def spec_listDocs_def
    by (rule okOrFault_bind_Inr [OF present [OF r Some]]) (use page Some in \<open>simp add: Let_def\<close>)
qed

lemma listDBs_rep:
  assumes r: "rep E wk (kv db) A"
  shows "okOrFault F (listDBs E wk limit cursor db) (Inr (spec_listDBs limit cursor A))"
proof -
  have f: "finite (dom A)" using finite_dbs [OF r kv_finite] .
  let ?c = "if cursor = [] then None else Some (dbKey cursor)"
  note sorted = sortedEntries_shift [OF dbs_dom(1) [OF r] f]
  have good: "isOk (authDBRecord E wk k v)" if "(k, v) \<in> set (sortedEntries (kv db) (Some dbPrefix) (prefixEnd dbPrefix))" for k v
    using that f dbs_dom(2) [OF r] unfolding sorted by fastforce
  show ?thesis unfolding listDBs_def
  proof (rule scan_page)
    fix es rest
    assume "sortedEntries (kv db) (Some dbPrefix) (prefixEnd dbPrefix) = es @ rest"
    then have "\<forall>(k, v) \<in> set (seekAfter ?c es). isOk (authDBRecord E wk k v)"
      using good seekAfter_subset [of ?c es] by fastforce
    from listDBs_loop_take [OF this, of "[]" limit]
    show "okOrFault F (listDBs_loop E wk limit [] (seekAfter ?c es))
      (Inr (map (\<lambda>(k, _). drop (length dbPrefix) k) (take (nat limit) (seekAfter ?c es)), drop (nat limit) (seekAfter ?c es)))"
      by simp
  next
    have c: "?c = map_option (\<lambda>b. dbPrefix @ b) (if cursor = [] then None else Some cursor)"
      by (simp add: dbKey_def appendKey_def)
    show "Inr (map (\<lambda>(k, _). drop (length dbPrefix) k) (take (nat limit) (seekAfter ?c (sortedEntries (kv db) (Some dbPrefix) (prefixEnd dbPrefix))))) =
      Inr (spec_listDBs limit cursor A)"
      unfolding sorted c spec_listDBs_def
      by (subst seekAfter_shift) (use f in \<open>simp_all add: take_map comp_def after_behind [symmetric]\<close>)
  qed
qed

section \<open>Export\<close>

lemma exportDocs_loop_yields:
  assumes "\<And>k. ctx k = None"
    "\<forall>i \<in> set is. validID i \<and> openDoc E (pre @ i) dk i (v i) = Inr (d i)"
  shows "exportDocs_loop E pre dk ctx j yield (map (\<lambda>i. (pre @ i, v i)) is) y = yieldAll yield (map (\<lambda>i. docJson (d i)) is) y"
  using assms(2)
proof (induction "is" arbitrary: j y)
  case (Cons i "is")
  then show ?case using assms(1) [of j] by (auto simp: Let_def split: prod.splits sum.splits)
qed simp

text \<open>
  An export runs the callback over the documents in the order of their IDs; it succeeds only
  when the callback saw all of them.
\<close>

lemma exportDocs_rep:
  assumes r: "rep E wk (kv db) A" and a: "A n = Some a" and ctx: "\<And>k. ctx k = None"
    and run: "exportDocs E wk ctx n yield db y = (res, y')"
  shows "\<exists>js. prefix js (docsInOrder a) \<and> y' = snd (yieldAll yield js y) \<and>
    (res = Inr () \<longrightarrow> js = docsInOrder a \<and> fst (yieldAll yield js y) = Inr ())"
    and "(\<And>p. \<not> F p) \<Longrightarrow> (res, y') = yieldAll yield (docsInOrder a) y"
proof -
  have wf: "wfDB a" and n: "validName n" using r a unfolding rep_def wfState_def by blast+
  then have f: "finite (dom (aDocs a))" by (simp add: wfDB_def)
  let ?p = "docsPrefix n"
  let ?v = "\<lambda>i. the (kv db (?p @ i))"
  let ?is = "sorted_list_of_set (dom (aDocs a))"
  note sorted = sortedEntries_shift [OF docs_dom(1) [OF r a] f]
  have good: "validID i \<and> openDoc E (?p @ i) (aKey a) i (?v i) = Inr (the (aDocs a i))" if "i \<in> dom (aDocs a)" for i
    using docs_dom(2) [OF r a, of i] wf that by (auto simp: wfDB_def docKey_def)
  have key: "okOrFault F (databaseKey E wk n db) (Inr (aKey a))" using databaseKey_rep [OF r n] a by simp
  have "(\<exists>js. prefix js (docsInOrder a) \<and> y' = snd (yieldAll yield js y) \<and>
      (res = Inr () \<longrightarrow> js = docsInOrder a \<and> fst (yieldAll yield js y) = Inr ())) \<and>
    ((\<forall>p. \<not> F p) \<longrightarrow> (res, y') = yieldAll yield (docsInOrder a) y)"
  proof (cases "\<exists>e. databaseKey E wk n db = Inl e \<and> faulty F False e")
    case True
    then obtain e p where e: "databaseKey E wk n db = Inl e" "F p" by (force simp: faulty_def)
    with run have "res = Inl e" "y' = y" by (auto simp: exportDocs_def)
    with e(2) show ?thesis by (auto intro: exI [of _ "[]"])
  next
    case False
    with key have k: "databaseKey E wk n db = Inr (aKey a)" by (auto simp: okOrFault_def)
    show ?thesis using dbNewIter_kv [of db "Some ?p" "prefixEnd ?p"]
    proof (elim disjE exE conjE)
      fix p
      assume "F p" "dbNewIter E db (Some ?p) (prefixEnd ?p) = Inl p"
      with run k have "\<exists>e. res = Inl e" "y' = y"
        by (auto simp: exportDocs_def joinClose_def Let_def split: option.splits)
      with \<open>F p\<close> show ?thesis by (auto intro: exI [of _ "[]"])
    next
      fix it rest
      assume it: "dbNewIter E db (Some ?p) (prefixEnd ?p) = Inr it"
        "entries it @ rest = sortedEntries (kv db) (Some ?p) (prefixEnd ?p)"
        and close: "\<forall>p. iterClose it = Some p \<longrightarrow> F p"
      obtain us vs where us: "?is = us @ vs" "entries it = map (\<lambda>i. (?p @ i, ?v i)) us" "rest = map (\<lambda>i. (?p @ i, ?v i)) vs"
        using it(2) unfolding sorted by (auto simp: append_eq_map_conv)
      let ?j = "\<lambda>i. docJson (the (aDocs a i))"
      have "\<forall>i \<in> set us. i \<in> dom (aDocs a)" using us(1) f by (metis Un_iff set_append set_sorted_list_of_set)
      then have loop: "exportDocs_loop E ?p (aKey a) ctx 0 yield (entries it) y = yieldAll yield (map ?j us) y"
        unfolding us(2) using good by (intro exportDocs_loop_yields [OF ctx]) blast
      have pre: "prefix (map ?j us) (docsInOrder a)" by (simp add: docsInOrder_def us(1))
      have res: "y' = snd (yieldAll yield (map ?j us) y)"
        "res = joinClose (snapshotClose E db) (joinClose (iterClose it) (bindE (fst (yieldAll yield (map ?j us) y)) (\<lambda>_. iterErr it [])))"
        using run by (auto simp: exportDocs_def k it(1) loop Let_def split: prod.splits)
      show ?thesis if "rest = []" "iterError it = None"
      proof -
        have all: "docsInOrder a = map ?j us" using us that(1) by (simp add: docsInOrder_def)
        have "res = Inr () \<Longrightarrow> fst (yieldAll yield (map ?j us) y) = Inr ()" using res(2) by (auto simp: result_simps)
        moreover have "(res, y') = yieldAll yield (map ?j us) y" if "\<forall>p. \<not> F p"
        proof -
          from that close snapshotClose_fault [of db] have "iterClose it = None" "snapshotClose E db = None"
            by (metis option.exhaust)+
          with res \<open>iterError it = None\<close> show ?thesis
            by (cases "fst (yieldAll yield (map ?j us) y)") (auto simp: iterErr_def prod_eq_iff)
        qed
        ultimately show ?thesis using res(1) all by auto
      qed
      show ?thesis if "F p" "iterError it = Some p" for p
      proof -
        have "res \<noteq> Inr ()" using res(2) that(2) by (auto simp: iterErr_def result_simps)
        with that(1) pre res(1) show ?thesis by auto
      qed
    qed
  qed
  then show "\<exists>js. prefix js (docsInOrder a) \<and> y' = snd (yieldAll yield js y) \<and>
    (res = Inr () \<longrightarrow> js = docsInOrder a \<and> fst (yieldAll yield js y) = Inr ())"
    "(\<And>p. \<not> F p) \<Longrightarrow> (res, y') = yieldAll yield (docsInOrder a) y" by blast+
qed

end

end
