(* ===== verification/Path_Match.thy ===== *)
theory Path_Match
  imports Path_Pointer Range_Laws List_Laws
begin

text \<open>
  Which documents a path query matches, and that the plan on an index finds the same ones: the
  check of the size of a document, the comparison of the selected values, and the entries of
  the index whose pointer is the path.
\<close>

section \<open>The number of values in a document\<close>

function nodes :: "json \<Rightarrow> nat" where
  "nodes v = Suc (\<Sum>x \<leftarrow> children v. nodes x)"
  by pat_completeness auto

termination
proof (relation "measure size", goal_cases)
  case (2 v x)
  then have "Suc (size x) \<le> (\<Sum>x \<leftarrow> children v. Suc (size x))" by (intro member_le_sum_list) auto
  with children_size [of v] show ?case by simp
qed simp

declare nodes.simps [simp del]

lemma nodes_pos: "0 < nodes v"
  by (simp add: nodes.simps)

lemma checkQueryNodes_loop_count:
  "(\<And>k. ctx k = None) \<Longrightarrow> checkQueryNodes_loop ctx i limit work stack =
    (if stack = [] \<or> work + int (\<Sum>x \<leftarrow> stack. nodes x) \<le> limit then Inr (i + (\<Sum>x \<leftarrow> stack. nodes x)) else Inl [ErrQueryLimit])"
proof (induction ctx i limit work stack rule: checkQueryNodes_loop.induct)
  case (2 ctx i limit work v stack)
  let ?c = "\<Sum>x \<leftarrow> children v. nodes x" and ?s = "\<Sum>x \<leftarrow> stack. nodes x"
  have s: "(\<Sum>x \<leftarrow> rev (children v) @ stack. nodes x) = ?c + ?s" by (simp add: rev_map [symmetric] sum_list_rev)
  have z: "rev (children v) @ stack = [] \<Longrightarrow> ?c + ?s = 0" by simp
  show ?case
  proof (cases "work \<ge> limit")
    case False
    with "2.prems" have "checkQueryNodes_loop ctx i limit work (v # stack) =
      checkQueryNodes_loop ctx (i + 1) limit (work + 1) (rev (children v) @ stack)" by simp
    also have "\<dots> = (if rev (children v) @ stack = [] \<or> work + 1 + int (?c + ?s) \<le> limit then Inr (i + 1 + (?c + ?s)) else Inl [ErrQueryLimit])"
      unfolding s [symmetric] using False "2.prems" by (intro "2.IH") auto
    finally show ?thesis using False z by (auto simp: nodes.simps [of v])
  qed (use "2.prems" in \<open>simp add: nodes.simps [of v]\<close>)
qed simp

lemma checkQueryNodes_count:
  "(\<And>k. ctx k = None) \<Longrightarrow>
     checkQueryNodes ctx i v limit = (if int (nodes v) \<le> limit then Inr (i + nodes v) else Inl [ErrQueryLimit])"
  unfolding checkQueryNodes_def by (subst checkQueryNodes_loop_count) simp_all

section \<open>Matching documents\<close>

text \<open>The values of a document that a path selects, and the documents in which one of them matches.\<close>

definition docMatches :: "'p pathEngine \<Rightarrow> 'p \<Rightarrow> cmpOp \<Rightarrow> bytes \<Rightarrow> storedDoc \<Rightarrow> bool" where
  "docMatches J p op e d =
     (case jsonDecode (docJson d) of None \<Rightarrow> False | Some (v, _) \<Rightarrow> list_ex (matchesValue op e) (jpSelect J p v))"

definition matchIDs :: "'p pathEngine \<Rightarrow> 'p \<Rightarrow> cmpOp \<Rightarrow> bytes \<Rightarrow> adb \<Rightarrow> bytes set" where
  "matchIDs J p op e a = {i. \<exists>d. aDocs a i = Some d \<and> docMatches J p op e d}"

lemma matchIDs_dom: "i \<in> matchIDs J p op e a \<Longrightarrow> i \<in> dom (aDocs a)"
  by (auto simp: matchIDs_def)

lemma finite_matchIDs: "wfDB a \<Longrightarrow> finite (matchIDs J p op e a)"
  by (rule finite_subset [of _ "dom (aDocs a)"]) (auto simp: matchIDs_def wfDB_def)

lemma indexValues_root:
  assumes "indexValues json defs = Inr vs"
  obtains v rest r where "jsonDecode json = Some (v, rest)" "v = r \<or> v = JNull \<and> r = JObj []" "indexValues_loop r defs = Inr vs"
proof -
  from assms obtain r rest where r: "decodeRoot json = Inr (r, rest)" "indexValues_loop r defs = Inr vs"
    unfolding indexValues_def by (auto simp: bindE_Inr_iff)
  from r(1) obtain v where "jsonDecode json = Some (v, rest)" "v = r \<or> v = JNull \<and> r = JObj []"
    unfolding decodeRoot_def by (auto split: option.splits json.splits)
  with r(2) that show ?thesis by blast
qed

definition valueMatches :: "cmpOp \<Rightarrow> bytes \<Rightarrow> bytes \<Rightarrow> bool" where
  "valueMatches op e b \<longleftrightarrow> b ! 0 = e ! 0 \<and> (if op = cmpEq then b = e else cmpHolds op b e)"

lemma matchesValue_iff:
  assumes "cmpValid op"
  shows "matchesValue op e v \<longleftrightarrow> (\<exists>b. encodeIndexValue v = Inr b \<and> valueMatches op e b)"
  using assms unfolding valueMatches_def cmpValid_cases matchesValue_def cmpHolds_def Let_def
  by (elim disjE; cases "encodeIndexValue v"; simp add: cmp_defs)

context path_api
begin

lemma docMatches_index:
  assumes "jsonPathPointer (jpSegments J p) = Some (idxPath def)" "def \<in> set defs" "validDefs defs" "cmpValid op"
    "indexValues (docJson d) defs = Inr vs"
  shows "docMatches J p op e d \<longleftrightarrow>
    (\<exists>b. (idxName def, b) \<in> set vs \<and> valueMatches op e b)"
proof -
  obtain v rest r where v: "jsonDecode (docJson d) = Some (v, rest)" "v = r \<or> v = JNull \<and> r = JObj []" "indexValues_loop r defs = Inr vs"
    by (rule indexValues_root [OF assms(5)])
  have "pointerValue v (idxPath def) = pointerValue r (idxPath def)" using v(2) pointer_ne [OF assms(1)] by auto
  then have sel: "jpSelect J p v = (case pointerValue r (idxPath def) of None \<Rightarrow> [] | Some x \<Rightarrow> [x])"
    using select_pointer [OF assms(1)] by simp
  have u: "def' = def" if "def' \<in> set defs" "idxName def' = idxName def" for def'
    using findIndex_iff [OF assms(3), of "idxName def"] assms(2) that by (metis option.inject)
  have "(idxName def, b) \<in> set vs \<longleftrightarrow> (\<exists>j. pointerValue r (idxPath def) = Some j \<and> encodeIndexValue j = Inr b)" for b
  proof
    assume "(idxName def, b) \<in> set vs"
    then obtain def' j where "def' \<in> set defs" "idxName def' = idxName def" "pointerValue r (idxPath def') = Some j" "encodeIndexValue j = Inr b"
      unfolding indexValues_loop_spec(1) [OF v(3)] by auto
    with u show "\<exists>j. pointerValue r (idxPath def) = Some j \<and> encodeIndexValue j = Inr b" by blast
  qed (use assms(2) in \<open>unfold indexValues_loop_spec(1) [OF v(3)], blast\<close>)
  with sel show ?thesis unfolding docMatches_def v(1)
    by (cases "pointerValue r (idxPath def)") (auto simp: matchesValue_iff [OF assms(4)])
qed

text \<open>The index whose pointer is the path gives the matching documents.\<close>

lemma docEntries_iff:
  "wfDB a \<Longrightarrow> aDocs a i = Some d \<Longrightarrow> \<exists>vs. indexValues (docJson d) (aDefs a) = Inr vs \<and> docEntries (aDefs a) (docJson d) = set vs"
proof -
  assume "wfDB a" "aDocs a i = Some d"
  then obtain vs where "indexValues (docJson d) (aDefs a) = Inr vs" unfolding wfDB_def isOk_iff by blast
  then show ?thesis by (simp add: docEntries_def)
qed

lemma matchIDs_index:
  assumes "wfDB a" "jsonPathPointer (jpSegments J p) = Some (idxPath def)" "def \<in> set (aDefs a)" "cmpValid op"
  shows "matchIDs J p op e a =
    {i. \<exists>b. (b, i) \<in> idxPairs a (idxName def) \<and> valueMatches op e b}"
proof -
  have vd: "validDefs (aDefs a)" using assms(1) by (simp add: wfDB_def)
  have "docMatches J p op e d \<longleftrightarrow> (\<exists>b. (idxName def, b) \<in> docEntries (aDefs a) (docJson d) \<and> valueMatches op e b)" if "aDocs a i = Some d" for i d
    using docEntries_iff [OF assms(1) that] docMatches_index [OF assms(2,3) vd assms(4), of d] by auto
  then show ?thesis unfolding matchIDs_def idxPairs_def by auto
qed

lemma matchIDs_eq:
  assumes "wfDB a" "jsonPathPointer (jpSegments J p) = Some (idxPath def)" "def \<in> set (aDefs a)"
  shows "matchIDs J p cmpEq e a = eqIDs a (idxName def) e"
  using matchIDs_index [OF assms, of cmpEq e] by (auto simp: eqIDs_def cmpValid_cases valueMatches_def)

lemma matchIDs_range:
  assumes "wfDB a" "jsonPathPointer (jpSegments J p) = Some (idxPath def)" "def \<in> set (aDefs a)" "cmpValid op" "op \<noteq> cmpEq"
  shows "matchIDs J p op e a = snd ` rangePairs a (idxName def) op e" "inj_on snd (rangePairs a (idxName def) op e)"
proof -
  show "matchIDs J p op e a = snd ` rangePairs a (idxName def) op e"
    unfolding matchIDs_index [OF assms(1-4)] rangePairs_def valueMatches_def using assms(5) by force
  have "b = b'" if "(b, i) \<in> idxPairs a x" "(b', i) \<in> idxPairs a x" for b b' i x
  proof -
    from that obtain d where d: "aDocs a i = Some d" "(x, b) \<in> docEntries (aDefs a) (docJson d)" "(x, b') \<in> docEntries (aDefs a) (docJson d)"
      by (auto simp: idxPairs_def)
    obtain vs where vs: "indexValues (docJson d) (aDefs a) = Inr vs" "docEntries (aDefs a) (docJson d) = set vs"
      using docEntries_iff [OF assms(1) d(1)] by blast
    have "distinct (map fst vs)"
      by (rule indexValues_root [OF vs(1)], rule indexValues_loop_spec(2)) (use assms(1) in \<open>auto simp: wfDB_def validDefs_def\<close>)
    with d vs(2) show ?thesis by (metis eq_key_imp_eq_value)
  qed
  then show "inj_on snd (rangePairs a (idxName def) op e)" by (auto simp: inj_on_def rangePairs_def)
qed

end

end
