(* ===== verification/Path_Scan.thy ===== *)
theory Path_Scan
  imports Path_Match
begin

text \<open>
  What the scan of a path query returns: it looks at the documents behind its start in the order
  of their IDs, at most as many as it may, and stops early when it has found one match more than
  the page holds.
\<close>

section \<open>Scans that stop by themselves\<close>

text \<open>
  A loop over entries that returns what is left.  When something is left, more entries behind
  would not change its result; then a page of what the iterator delivered is a page of what is
  stored, unless the iterator failed.
\<close>

lemma stable_scan:
  assumes full: "sorted (map fst full)" "distinct (map fst full)" "full = entries it @ rest"
    "rest = [] \<and> iterError it = None \<or> (\<exists>p. F p \<and> iterError it = Some p)"
    and loop: "\<And>es r. full = es @ r \<Longrightarrow> loop (seekAfter c es) = Inr (ref (seekAfter c es))"
    and stable: "\<And>es ys. snd (ref es) \<noteq> [] \<Longrightarrow> fst (ref (es @ ys)) = fst (ref es)"
  shows "okOrFault F (bindE (loop (seekAfter c (entries it))) (\<lambda>(x, r). bindE (iterErr it r) (\<lambda>_. Inr x)))
    (Inr (fst (ref (seekAfter c full))))"
proof -
  let ?es = "seekAfter c (entries it)"
  obtain x r where x: "ref ?es = (x, r)" by fastforce
  have l: "loop ?es = Inr (x, r)" using loop [OF full(3)] x by simp
  show ?thesis
  proof (cases "iterError it")
    case None
    with full l x show ?thesis by (auto simp: iterErr_def okOrFault_def split: list.splits)
  next
    case (Some p)
    with full(4) have F: "F p" by auto
    show ?thesis
    proof (cases r)
      case Nil
      with l Some F show ?thesis by (auto simp: iterErr_def okOrFault_def intro: faulty_wrapStore)
    next
      case (Cons e es)
      then have "fst (ref (seekAfter c full)) = x"
        unfolding seekAfter_prefix [OF full(1-3)] using stable [of ?es] x by simp
      with l Some Cons show ?thesis by (simp add: iterErr_def)
    qed
  qed
qed

context pebble_api
begin

lemma scan_stable:
  assumes loop: "\<And>es r. sortedEntries (kv db) lo hi = es @ r \<Longrightarrow> loop (seekAfter c es) = Inr (ref (seekAfter c es))"
    and stable: "\<And>es ys. snd (ref es) \<noteq> [] \<Longrightarrow> fst (ref (es @ ys)) = fst (ref es)"
  shows "okOrFault F (case dbNewIter E db lo hi of Inl e \<Rightarrow> Inl (wrapStore e)
    | Inr it \<Rightarrow> joinClose (iterClose it)
        (bindE (loop (seekAfter c (entries it))) (\<lambda>(x, r). bindE (iterErr it r) (\<lambda>_. Inr x))))
    (Inr (fst (ref (seekAfter c (sortedEntries (kv db) lo hi)))))"
  using dbNewIter_kv [of db lo hi]
proof (elim disjE exE conjE)
  fix it rest
  assume it: "dbNewIter E db lo hi = Inr it" "entries it @ rest = sortedEntries (kv db) lo hi"
    and close: "\<forall>p. iterClose it = Some p \<longrightarrow> F p"
  note s = sortedEntries_props(2,3) [OF kv_finite, of db lo hi]
  have page: "rest = [] \<and> iterError it = None \<or> (\<exists>p. F p \<and> iterError it = Some p) \<Longrightarrow>
    okOrFault F (bindE (loop (seekAfter c (entries it))) (\<lambda>(x, r). bindE (iterErr it r) (\<lambda>_. Inr x)))
      (Inr (fst (ref (seekAfter c (sortedEntries (kv db) lo hi)))))"
    by (rule stable_scan [OF s it(2) [symmetric]]) (use loop stable in auto)
  show ?thesis if "rest = []" "iterError it = None"
    using it(1) page that close by (auto intro!: okOrFault_joinClose)
  show ?thesis if "F p" "iterError it = Some p" for p
    using it(1) page that close by (auto intro!: okOrFault_joinClose)
qed (simp add: okOrFault_fault)

end

section \<open>The scan on IDs\<close>

fun scanIDs :: "(bytes \<Rightarrow> bool) \<Rightarrow> int \<Rightarrow> int \<Rightarrow> int \<Rightarrow> pathPage \<Rightarrow> bytes list \<Rightarrow> pathPage \<times> bytes list" where
  "scanIDs P limit maxWork work pg [] = (pg, [])"
| "scanIDs P limit maxWork work pg (i # is) =
     (if work \<ge> maxWork then (pg\<lparr>ppMore := True\<rparr>, i # is)
      else
        let ids = (if P i then ppIDs pg @ [i] else ppIDs pg) in
        if int (length ids) > limit
        then (\<lparr>ppIDs = take (nat limit) ids, ppLastID = last (take (nat limit) ids), ppMore = True\<rparr>, i # is)
        else scanIDs P limit maxWork (work + 1) (pg\<lparr>ppIDs := ids, ppLastID := i\<rparr>) is)"

lemma scanIDs_stable: "snd (scanIDs P limit mx work pg xs) \<noteq> [] \<Longrightarrow>
    fst (scanIDs P limit mx work pg (xs @ ys)) = fst (scanIDs P limit mx work pg xs)"
  by (induction P limit mx work pg xs rule: scanIDs.induct) (auto simp: Let_def)

definition scanPage :: "(bytes \<Rightarrow> bool) \<Rightarrow> int \<Rightarrow> int \<Rightarrow> bytes list \<Rightarrow> pathPage" where
  "scanPage P limit mx L =
     (let W = take (nat mx) L; M = filter P W in
      if limit < int (length M)
      then \<lparr>ppIDs = take (nat limit) M, ppLastID = last (take (nat limit) M), ppMore = True\<rparr>
      else \<lparr>ppIDs = M, ppLastID = (if W = [] then [] else last W), ppMore = mx < int (length L)\<rparr>)"

lemma scanIDs_closed:
  assumes "int (length (ppIDs pg)) \<le> limit" "\<not> ppMore pg" "work \<le> mx" "0 \<le> limit"
  shows "fst (scanIDs P limit mx work pg L) =
     (let W = take (nat (mx - work)) L; M = ppIDs pg @ filter P W in
      if limit < int (length M)
      then \<lparr>ppIDs = take (nat limit) M, ppLastID = last (take (nat limit) M), ppMore = True\<rparr>
      else \<lparr>ppIDs = M, ppLastID = (if W = [] then ppLastID pg else last W), ppMore = mx - work < int (length L)\<rparr>)"
  using assms
proof (induction L arbitrary: work pg)
  case Nil
  then show ?case by (cases pg) (simp add: Let_def)
next
  case (Cons i L)
  show ?case
  proof (cases "work \<ge> mx")
    case True
    with Cons.prems show ?thesis by (cases pg) (simp add: Let_def)
  next
    case False
    let ?ids = "if P i then ppIDs pg @ [i] else ppIDs pg"
    let ?pg = "pg\<lparr>ppIDs := ?ids, ppLastID := i\<rparr>"
    have W: "take (nat (mx - work)) (i # L) = i # take (nat (mx - (work + 1))) L"
    proof -
      have "nat (mx - work) = Suc (nat (mx - (work + 1)))" using False by simp
      then show ?thesis by (simp only: take_Suc_Cons)
    qed
    show ?thesis
    proof (cases "int (length ?ids) > limit")
      case True
      with Cons.prems(1) have "P i" "length (ppIDs pg) = nat limit" by (auto split: if_splits)
      with True False W show ?thesis by (simp add: Let_def)
    next
      case l: False
      have "fst (scanIDs P limit mx work pg (i # L)) = fst (scanIDs P limit mx (work + 1) ?pg L)"
        using False l by (simp add: Let_def)
      also have "\<dots> = (let W = take (nat (mx - (work + 1))) L; M = ppIDs ?pg @ filter P W in
        if limit < int (length M)
        then \<lparr>ppIDs = take (nat limit) M, ppLastID = last (take (nat limit) M), ppMore = True\<rparr>
        else \<lparr>ppIDs = M, ppLastID = (if W = [] then ppLastID ?pg else last W), ppMore = mx - (work + 1) < int (length L)\<rparr>)"
        using False l Cons.prems by (intro Cons.IH) auto
      finally have step: "fst (scanIDs P limit mx work pg (i # L)) = \<dots>" .
      let ?W = "take (nat (mx - (work + 1))) L"
      have "ppIDs ?pg @ filter P ?W = ppIDs pg @ filter P (i # ?W)" by simp
      moreover have "(if ?W = [] then ppLastID ?pg else last ?W) = (if i # ?W = [] then ppLastID pg else last (i # ?W))" by simp
      moreover have "(mx - (work + 1) < int (length L)) = (mx - work < int (length (i # L)))" by auto
      ultimately show ?thesis unfolding step W Let_def by presburger
    qed
  qed
qed

lemma scanIDs_page:
  assumes "0 \<le> limit" "0 \<le> mx"
  shows "fst (scanIDs P limit mx 0 \<lparr>ppIDs = [], ppLastID = [], ppMore = False\<rparr> L) = scanPage P limit mx L"
  using assms by (subst scanIDs_closed) (simp_all add: scanPage_def Let_def)

section \<open>The scan of a represented database\<close>

text \<open>Documents small enough to be evaluated.\<close>

definition evaluable :: "adb \<Rightarrow> bool" where
  "evaluable a \<longleftrightarrow> (\<forall>i d v rest. aDocs a i = Some d \<longrightarrow> jsonDecode (docJson d) = Some (v, rest) \<longrightarrow> int (nodes v) \<le> maxQueryNodes)"

lemma pathMatches_silent:
  assumes "\<And>k. ctx k = None" "int (nodes v) \<le> mx"
  shows "pathMatches J ctx i p v op e mx = Inr (list_ex (matchesValue op e) (jpSelect J p v), i + nodes v + 1)"
  unfolding pathMatches_def checkQueryNodes_count [OF assms(1)] using assms by simp

lemma queryPathDocs_loop_scan:
  assumes "\<And>k. ctx k = None" "1 \<le> limit"
    "\<forall>i \<in> set is. validID i \<and> (\<exists>d. openDoc E (pre @ i) dk i (v i) = Inr d \<and> P i = docMatches J p op e d \<and>
       (\<exists>x rest. jsonDecode (docJson d) = Some (x, rest) \<and> int (nodes x) \<le> maxQueryNodes))"
  shows "queryPathDocs_loop E J ctx pre dk p op e limit mx j work pg (map (\<lambda>i. (pre @ i, v i)) is) =
    Inr (fst (scanIDs P limit mx work pg is), map (\<lambda>i. (pre @ i, v i)) (snd (scanIDs P limit mx work pg is)))"
  using assms(3)
proof (induction "is" arbitrary: j work pg)
  case (Cons i "is")
  then obtain d x rest where d: "validID i" "openDoc E (pre @ i) dk i (v i) = Inr d" "P i = docMatches J p op e d"
    "jsonDecode (docJson d) = Some (x, rest)" "int (nodes x) \<le> maxQueryNodes" by auto
  then have m: "list_ex (matchesValue op e) (jpSelect J p x) = P i" by (simp add: docMatches_def)
  have IH: "queryPathDocs_loop E J ctx pre dk p op e limit mx j work pg (map (\<lambda>i. (pre @ i, v i)) is) =
    Inr (fst (scanIDs P limit mx work pg is), map (\<lambda>i. (pre @ i, v i)) (snd (scanIDs P limit mx work pg is)))" for j work pg
    using Cons.prems by (intro Cons.IH) simp
  have c: "ctx = (\<lambda>_. None)" using assms(1) by (simp add: fun_eq_iff)
  note pm = pathMatches_silent [of "\<lambda>_. None", OF refl d(5)]
  show ?case using d(1,2,4) assms(2) by (simp add: Let_def m IH [unfolded c] c pm)
qed simp

definition spec_queryPath :: "'p pathEngine \<Rightarrow> bytes \<Rightarrow> 'p \<Rightarrow> cmpOp \<Rightarrow> bytes \<Rightarrow> int \<Rightarrow> int \<Rightarrow> bytes \<Rightarrow> adb \<Rightarrow> pathPage" where
  "spec_queryPath J n p op e limit mx afterID a =
     scanPage (\<lambda>i. i \<in> matchIDs J p op e a) limit mx (behind afterID (sorted_list_of_set (dom (aDocs a))))"

lemma list_image: "set xs \<subseteq> f ` K \<Longrightarrow> (\<And>is. xs = map f is \<Longrightarrow> set is \<subseteq> K \<Longrightarrow> thesis) \<Longrightarrow> thesis"
proof (induction xs arbitrary: thesis)
  case (Cons x xs)
  from Cons.prems(1) obtain i where i: "x = f i" "i \<in> K" by auto
  from Cons.prems(1) have "set xs \<subseteq> f ` K" by simp
  from Cons.IH [OF this] obtain js where "xs = map f js" "set js \<subseteq> K" by metis
  with i show ?case using Cons.prems(2) [of "i # js"] by simp
qed simp

context store_api
begin

lemma queryPathDocs_rep:
  assumes r: "rep E wk (kv db) A" and a: "A n = Some a" and ev: "evaluable a" and ctx: "\<And>k. ctx k = None"
    and limit: "1 \<le> limit" and mx: "0 \<le> mx" and e: "encodeIndexValue v = Inr e"
  shows "okOrFault F (queryPathDocs E J wk ctx n p op v limit mx afterID db) (Inr (spec_queryPath J n p op e limit mx afterID a))"
proof -
  have wf: "wfDB a" and n: "validName n" using r a unfolding rep_def wfState_def by blast+
  then have f: "finite (dom (aDocs a))" by (simp add: wfDB_def)
  let ?p = "docsPrefix n" and ?P = "\<lambda>i. i \<in> matchIDs J p op e a" and ?v = "\<lambda>i. the (kv db (docsPrefix n @ i))"
  let ?c = "if afterID = [] then None else Some (docKey n afterID)"
  let ?pg = "\<lparr>ppIDs = [], ppLastID = [], ppMore = False\<rparr>"
  let ?ref = "\<lambda>es. map_prod (\<lambda>x. x) (map (\<lambda>i. (?p @ i, ?v i))) (scanIDs ?P limit mx 0 ?pg (map (\<lambda>(k, _). drop (length ?p) k) es))"
  note sorted = sortedEntries_shift [OF docs_dom(1) [OF r a] f]
  have good: "validID i \<and> (\<exists>d. openDoc E (?p @ i) (aKey a) i (?v i) = Inr d \<and> ?P i = docMatches J p op e d \<and>
       (\<exists>x rest. jsonDecode (docJson d) = Some (x, rest) \<and> int (nodes x) \<le> maxQueryNodes))" if "i \<in> dom (aDocs a)" for i
  proof -
    from that obtain d where d: "aDocs a i = Some d" by auto
    with wf have v: "validID i" "isOk (indexValues (docJson d) (aDefs a))" by (auto simp: wfDB_def)
    from v(2) obtain vs where "indexValues (docJson d) (aDefs a) = Inr vs" by (auto simp: isOk_iff)
    then obtain x rest where x: "jsonDecode (docJson d) = Some (x, rest)" by (rule indexValues_root) blast
    have "openDoc E (?p @ i) (aKey a) i (?v i) = Inr d" using docs_dom(2) [OF r a d] by (auto simp: docKey_def)
    with d v(1) x ev show ?thesis by (fastforce simp: matchIDs_def evaluable_def)
  qed
  have loop: "queryPathDocs_loop E J ctx ?p (aKey a) p op e limit mx 0 0 ?pg (seekAfter ?c es) = Inr (?ref (seekAfter ?c es))"
    if es: "sortedEntries (kv db) (Some ?p) (prefixEnd ?p) = es @ rest" for es rest
  proof -
    have sub: "set (seekAfter ?c es) \<subseteq> (\<lambda>i. (?p @ i, ?v i)) ` dom (aDocs a)"
      by (rule order_trans [OF seekAfter_subset]) (rule entries_subset [OF es [unfolded sorted] f])
    then obtain "is" where i: "seekAfter ?c es = map (\<lambda>i. (?p @ i, ?v i)) is" "set is \<subseteq> dom (aDocs a)"
      by (rule list_image)
    have "queryPathDocs_loop E J ctx ?p (aKey a) p op e limit mx 0 0 ?pg (map (\<lambda>i. (?p @ i, ?v i)) is) =
      Inr (fst (scanIDs ?P limit mx 0 ?pg is), map (\<lambda>i. (?p @ i, ?v i)) (snd (scanIDs ?P limit mx 0 ?pg is)))"
      by (rule queryPathDocs_loop_scan [OF ctx limit]) (use good i(2) in blast)
    then show ?thesis unfolding i(1) by (simp add: map_prod_def case_prod_beta comp_def)
  qed
  have stable: "snd (?ref es) \<noteq> [] \<Longrightarrow> fst (?ref (es @ ys)) = fst (?ref es)" for es ys
    using scanIDs_stable [of ?P limit mx 0 ?pg] by (simp add: map_prod_def case_prod_beta)
  have c: "?c = map_option (\<lambda>b. ?p @ b) (if afterID = [] then None else Some afterID)" by (simp add: docKey_def)
  have full: "fst (?ref (seekAfter ?c (sortedEntries (kv db) (Some ?p) (prefixEnd ?p)))) = spec_queryPath J n p op e limit mx afterID a"
    unfolding sorted c spec_queryPath_def using limit mx f
    by (subst seekAfter_shift) (simp_all add: map_prod_def case_prod_beta comp_def after_behind [symmetric] scanIDs_page)
  have page: "okOrFault F (case dbNewIter E db (Some ?p) (prefixEnd ?p) of Inl e \<Rightarrow> Inl (wrapStore e)
    | Inr it \<Rightarrow> joinClose (iterClose it) (bindE (queryPathDocs_loop E J ctx ?p (aKey a) p op e limit mx 0 0 ?pg (seekAfter ?c (entries it)))
        (\<lambda>(x, r). bindE (iterErr it r) (\<lambda>_. Inr x)))) (Inr (spec_queryPath J n p op e limit mx afterID a))"
    unfolding full [symmetric] by (rule scan_stable) (use loop stable in blast)+
  have dk: "okOrFault F (databaseKey E wk n db) (Inr (aKey a))" using databaseKey_rep [OF r n] a by simp
  show ?thesis unfolding queryPathDocs_def Let_def
    by (rule okOrFault_bind_Inr [OF dk], rule okOrFault_bind_Inr [of F _ e], simp add: e,
        rule okOrFault_joinClose [OF page snapshotClose_fault])
qed

end

end
