(* ===== verification/Reference_Services.thy ===== *)
theory Reference_Services
  imports Store_Databases Json_Laws
begin

text \<open>
  A reference implementation of the services: a key-value map held in memory as an association
  list, a keyed checksum in the place of the authentication tag, and identity compression.  It
  satisfies every law the development assumes of the services, without faults, and all of it
  can be evaluated.
\<close>

section \<open>The store in memory\<close>

type_synonym memdb = "(bytes \<times> bytes) list"

definition memSorted :: "memdb \<Rightarrow> memdb" where
  "memSorted db = foldr (\<lambda>(k, v). mapPut k v) db []"

fun memApply :: "bop \<Rightarrow> memdb \<Rightarrow> memdb" where
  "memApply (BSet k v) db = (k, v) # db"
| "memApply (BDelete k) db = filter (\<lambda>(a, _). a \<noteq> k) db"
| "memApply (BDeleteRange lo None) db = db"
| "memApply (BDeleteRange lo (Some hi)) db = filter (\<lambda>(a, _). \<not> (lo \<le> a \<and> a < hi)) db"

definition memTag :: "bytes \<Rightarrow> bytes \<Rightarrow> bytes" where
  "memTag key ad = sum_list ad # take 15 key"

definition memServices :: "memdb services" where
  "memServices = \<lparr>
     dbGet = (\<lambda>db k. Inr (map_of db k)),
     getClose = (\<lambda>_ _. None),
     dbNewIter = (\<lambda>db lo hi. Inr \<lparr>entries = filter (\<lambda>(k, _). inBounds lo hi k) (memSorted db),
       iterError = None, iterClose = None\<rparr>),
     snapshotClose = (\<lambda>_. None),
     dbSet = (\<lambda>db k v. ((k, v) # db, None)),
     batchQueue = (\<lambda>_ _. None),
     batchLen = (\<lambda>ops. int (length ops)),
     batchCommit = (\<lambda>db ops. (fold memApply ops db, None)),
     batchClose = (\<lambda>_. None),
     dbClose = (\<lambda>_. None),
     hkdf = (\<lambda>secret salt info. Inr (replicate 32 (sum_list (secret @ salt @ info)))),
     sha256 = (\<lambda>b. replicate 32 (sum_list b)),
     gcmSeal = (\<lambda>key nonce plain ad. plain @ memTag key ad),
     gcmOpen = (\<lambda>key nonce c ad.
       if 16 \<le> length c \<and> drop (length c - 16) c = memTag key ad then Some (take (length c - 16) c) else None),
     zstdEncoder = Inr (\<lambda>b. b),
     zstdDecoder = Inr (\<lambda>b cap. if length b \<le> cap then Inr b else Inl [])\<rparr>"

section \<open>Laws\<close>

lemma mapPut_props:
  "sorted (map fst m) \<Longrightarrow> distinct (map fst m) \<Longrightarrow>
    map_of (mapPut k v m) = (map_of m)(k \<mapsto> v) \<and> sorted (map fst (mapPut k v m)) \<and> distinct (map fst (mapPut k v m))"
proof (induction k v m rule: mapPut.induct)
  case (2 k v a b m)
  then have s: "sorted (map fst m)" "distinct (map fst m)" "\<forall>x \<in> set (map fst m). a < x"
    by (auto simp: less_le)
  show ?case
  proof (cases rule: linorder_cases [of k a])
    case less
    with "2.prems" s show ?thesis by (auto simp: less_imp_le dest: less_trans)
  next
    case equal
    with "2.prems" s show ?thesis by auto
  next
    case greater
    with 2 s have "map_of (mapPut k v m) = (map_of m)(k \<mapsto> v)" "sorted (map fst (mapPut k v m))" "distinct (map fst (mapPut k v m))"
      by (auto dest: less_asym)
    with greater s mapPut_keys [of k v m] show ?thesis by (auto simp: fun_upd_twist less_imp_le dest: less_asym simp del: set_map)
  qed
qed auto

lemma memSorted_props:
  "map_of (memSorted db) = map_of db" "sorted (map fst (memSorted db))" "distinct (map fst (memSorted db))"
proof -
  have "map_of (memSorted db) = map_of db \<and> sorted (map fst (memSorted db)) \<and> distinct (map fst (memSorted db))"
    unfolding memSorted_def by (induction db) (auto simp: mapPut_props simp del: set_map)
  then show "map_of (memSorted db) = map_of db" "sorted (map fst (memSorted db))" "distinct (map fst (memSorted db))"
    by auto
qed

lemma mem_entries:
  "filter (\<lambda>(k, _). inBounds lo hi k) (memSorted db) = sortedEntries (map_of db) lo hi" (is "?l = ?r")
proof -
  have fin: "finite (dom (map_of db))" by (rule finite_dom_map_of)
  have b: "boundedKeys m lo hi = {k \<in> dom m. inBounds lo hi k}" for m :: "bytes \<rightharpoonup> bytes"
    by (auto simp: boundedKeys_def inBounds_def split: option.splits)
  have dl: "distinct (map fst ?l)" and sl: "sorted (map fst ?l)"
    using memSorted_props [of db] by (auto simp: distinct_map_filter sorted_filter)
  have "set ?l = {(k, v). map_of db k = Some v \<and> inBounds lo hi k}"
    using memSorted_props(1,3) [of db] by (auto simp: map_of_eq_Some_iff [symmetric])
  also have "\<dots> = set ?r" unfolding sortedEntries_props(1) [OF fin] b by auto
  finally have "set ?l = set ?r" .
  moreover have "inj_on fst (set ?l \<union> set ?r)"
    using dl calculation by (simp add: distinct_map)
  ultimately show ?thesis
    using dl sl sortedEntries_props(2,3) [OF fin, of lo hi] by (intro map_sorted_distinct_set_unique [of fst]) auto
qed

lemma mem_apply: "map_of (memApply q db) = applyOp q (map_of db)"
proof -
  have f: "map_of (filter (\<lambda>(a, _). P a) db) k = (if P k then map_of db k else None)" for P k
    by (induction db) auto
  show ?thesis 
  proof (cases q)
    case (BDeleteRange lo hi)
    then show ?thesis by (cases hi) (auto simp: f fun_eq_iff)
  qed (auto simp: f fun_eq_iff)
qed

lemma mem_commit: "map_of (fold memApply ops db) = applyBatch ops (map_of db)"
  by (induction ops arbitrary: db) (simp_all add: mem_apply)

interpretation mem_pebble: pebble_api memServices map_of "\<lambda>_. False"
  by unfold_locales
    (auto simp: memServices_def mem_entries mem_commit finite_dom_map_of)

lemma memTag_length: "length key = 32 \<Longrightarrow> length (memTag key ad) = 16"
  by (simp add: memTag_def)

interpretation mem_crypto: crypto_api memServices
proof
  fix k n c ad p :: bytes
  assume k: "length k = 32"
  show "gcmOpen memServices k n c ad = Some p \<longleftrightarrow> c = gcmSeal memServices k n p ad"
    using memTag_length [OF k, of ad] by (auto simp: memServices_def) (metis append_take_drop_id)
  show "length (gcmSeal memServices k n p ad) = length p + 16"
    using memTag_length [OF k, of ad] by (simp add: memServices_def)
qed (auto simp: memServices_def)

interpretation mem_zstd: zstd_api memServices
  by unfold_locales (auto simp: memServices_def isOk_def)

interpretation mem_record: record_api memServices ..

definition memKey :: bytes where
  "memKey = replicate 32 7"

interpretation mem_store: store_api memServices map_of "\<lambda>_. False" memKey
  by unfold_locales (simp add: memKey_def)

section \<open>A sample state\<close>

definition sampleWorld :: world where
  "sampleWorld = \<lparr>entropy = map of_nat [0..<200], clock = [0x0195C3D2E1F0]\<rparr>"

definition emptySys :: "memdb sys" where
  "emptySys = \<lparr>pdb = [], wld = sampleWorld\<rparr>"

lemma rep_empty: "rep E wk Map.empty Map.empty"
  by (simp add: rep_def wfState_def)

lemma enoughRandom_sample: "enoughRandom sampleWorld"
  by code_simp

end
