(* ===== verification/Cursor_Laws.thy ===== *)
theory Cursor_Laws
  imports Cursors Crypto_Laws Reference_Services
begin

text \<open>
  Cursors are authentic: a token opens only to what was sealed under the key of the database,
  and a token made for a valid cursor decodes to that cursor.  The two kinds of cursors share
  one interface, a codec of plain data.
\<close>

section \<open>Codecs\<close>

locale token_codec =
  fixes plain :: "'c \<Rightarrow> bytes" and parse :: "bytes \<Rightarrow> 'c result" and valid :: "'c \<Rightarrow> bool"
    and maxSize :: nat and version :: byte
  assumes parse_plain: "valid c \<Longrightarrow> parse (plain c) = Inr c"
    and plain_size: "valid c \<Longrightarrow> length (plain c) \<le> maxSize"
    and plain_version: "plain c \<noteq> [] \<and> plain c ! 0 = version"
    and parse_valid: "parse d = Inr c \<Longrightarrow> valid c"
begin

lemma open_sealed:
  assumes "crypto_api E" "length box = 32" "length nonce = 12" "valid c"
  shows "bindE (openToken E box (b64Encode (nonce @ gcmSeal E box nonce (plain c) [])) (maxSize + 12 + 16) maxSize version) parse = Inr c"
proof -
  let ?s = "nonce @ gcmSeal E box nonce (plain c) []"
  have len: "length ?s = length (plain c) + 28"
    using assms(3) crypto_api.length_gcmSeal [OF assms(1-3)] by simp
  then have "b64Encode ?s \<noteq> []" "length (b64Encode ?s) \<le> b64Len (maxSize + 12 + 16)"
    using plain_size [OF assms(4)] b64Len_mono [of "length ?s" "maxSize + 12 + 16"]
    by (simp_all only: length_b64Encode length_0_conv [symmetric]) (auto simp: b64Len_def)
  moreover have "gcmOpen E box nonce (gcmSeal E box nonce (plain c) []) [] = Some (plain c)"
    using crypto_api.gcmOpen_iff [OF assms(1-3)] by blast
  ultimately show ?thesis
    using len assms(3) plain_size [OF assms(4)] plain_version [of c] parse_plain [OF assms(4)]
    by (simp add: openToken_def gcmNonceLen_def gcmTagLen_def not_less)
qed

end

lemma openToken_authentic:
  assumes "crypto_api E" "length box = 32" "openToken E box token maxSealed maxSize version = Inr data"
  shows "\<exists>nonce. length nonce = 12 \<and> token = b64Encode (nonce @ gcmSeal E box nonce data [])"
proof -
  from assms(3) obtain sealed where s: "b64Encode sealed = token" "28 \<le> length sealed"
    "gcmOpen E box (take 12 sealed) (drop 12 sealed) [] = Some data"
    by (auto simp: openToken_def gcmNonceLen_def gcmTagLen_def split: if_splits option.splits)
  have "length (take 12 sealed) = 12" using s(2) by simp
  with s crypto_api.gcmOpen_iff [OF assms(1,2) this] show ?thesis by (metis append_take_drop_id)
qed

section \<open>Sizes\<close>

lemma length_appendUvarint: "x < 128 ^ Suc k \<Longrightarrow> length (appendUvarint key x) \<le> length key + Suc k"
proof (induction k arbitrary: key x)
  case (Suc k)
  show ?case
  proof (cases "x < 128")
    case False
    have "x div 128 < 128 ^ Suc k" using Suc.prems by (simp add: less_mult_imp_div_less mult.commute)
    from Suc.IH [OF this, of "key @ [of_nat x OR 0x80]"] False show ?thesis
      by (subst appendUvarint.simps) simp
  qed (subst appendUvarint.simps, simp)
qed (subst appendUvarint.simps, simp)

lemma length_appendPart: "length p \<le> 16000 \<Longrightarrow> length (appendPart key p) \<le> length key + 3 + length p"
  using length_appendUvarint [of "length p" 2 key] by (simp add: appendPart_def)

lemma validIndexValue_size: "validIndexValue v \<Longrightarrow> length v \<le> 8193"
  by (auto simp: validIndexValue_def maxEncodedIndexValue_def maxIndexValue_def split: if_splits)

lemma partE_append [simp]: "length p \<le> 16000 \<Longrightarrow> partE (appendPart [] p @ rest) = Inr (p, rest)"
  by (simp add: partE_def)

lemma partE_whole [simp]: "length p \<le> 16000 \<Longrightarrow> partE (appendPart [] p) = Inr (p, [])"
  using partE_append [of p "[]"] by simp

section \<open>Both kinds of cursors\<close>

lemma queryCursor_sizes:
  assumes "isOk (validateQueryCursor c)"
  shows "length (qcDatabase c) \<le> 63" "length (qcIndex c) \<le> 63" "length (qcValue c) \<le> 8193"
    "length (qcLastValue c) \<le> 8193" "length (qcID c) = 36"
  using assms validIndexValue_size [of "qcValue c"] validIndexValue_size [of "qcLastValue c"]
    validName_length [of "qcDatabase c"] validName_length [of "qcIndex c"] validID_length [of "qcID c"]
  by (auto simp: validateQueryCursor_def isOk_iff split: if_splits)

lemmas append_parts = appendPart_append [of "_ @ _"] appendPart_append [of "_ # _"] appendPart_append [of "appendPart _ _"]

lemma queryCursorData_parts:
  "queryCursorData c = queryCursorVersion # appendPart [] (qcDatabase c) @ appendPart [] (qcIndex c) @ qcOp c #
     appendPart [] (qcValue c) @ appendPart [] (qcLastValue c) @ appendPart [] (qcID c)"
  by (simp add: queryCursorData_def Let_def append_parts)

interpretation query_token: token_codec queryCursorData parseQueryCursor "\<lambda>c. isOk (validateQueryCursor c)"
  maxQueryCursorSize queryCursorVersion
proof
  fix c :: queryCursor
  assume v: "isOk (validateQueryCursor c)"
  note s = queryCursor_sizes [OF v]
  show "parseQueryCursor (queryCursorData c) = Inr c"
    using s v by (cases c) (simp add: queryCursorData_parts parseQueryCursor_def isOk_iff Let_def)
  show "length (queryCursorData c) \<le> maxQueryCursorSize"
    using s length_appendPart [of "qcDatabase c" "[]"] length_appendPart [of "qcIndex c" "[]"]
      length_appendPart [of "qcValue c" "[]"] length_appendPart [of "qcLastValue c" "[]"] length_appendPart [of "qcID c" "[]"]
    by (simp add: queryCursorData_parts maxQueryCursorSize_def maxEncodedIndexValue_def maxIndexValue_def)
next
  fix c
  show "queryCursorData c \<noteq> [] \<and> queryCursorData c ! 0 = queryCursorVersion" by (simp add: queryCursorData_parts)
next
  fix d c
  assume "parseQueryCursor d = Inr c"
  then show "isOk (validateQueryCursor c)" by (auto simp: parseQueryCursor_def result_simps isOk_iff Let_def)
qed

lemma pathCursor_sizes:
  assumes "isOk (validatePathCursor c)"
  shows "length (pcMethod c) = 5" "length (pcDatabase c) \<le> 63" "length (pcIndex c) \<le> 63" "length (pcValue c) \<le> 8193"
    "length (pcLastValue c) \<le> 8193" "length (pcID c) = 36"
  using assms validIndexValue_size [of "pcValue c"] validIndexValue_size [of "pcLastValue c"]
    validName_length [of "pcDatabase c"] validName_length [of "pcIndex c"] validID_length [of "pcID c"]
  by (auto simp: validatePathCursor_def isOk_iff queryMethod_def split: if_splits)

lemma pathCursorData_parts:
  "pathCursorData c = pathCursorVersion # appendPart [] (pcMethod c) @ pcDialect c # pcOrder c #
     appendPart [] (pcDatabase c) @ appendPart [] (pcPathHash c) @ appendPart [] (pcIndex c) @ pcOp c #
     appendPart [] (pcValue c) @ appendPart [] (pcLastValue c) @ appendPart [] (pcID c)"
  by (simp add: pathCursorData_def Let_def append_parts)

interpretation path_token: token_codec pathCursorData parsePathCursor
  "\<lambda>c. isOk (validatePathCursor c) \<and> length (pcPathHash c) = 32" maxPathCursorSize pathCursorVersion
proof
  fix c :: pathCursor
  assume v: "isOk (validatePathCursor c) \<and> length (pcPathHash c) = 32"
  note s = pathCursor_sizes [OF v [THEN conjunct1]]
  show "parsePathCursor (pathCursorData c) = Inr c"
    using s v by (cases c) (simp add: pathCursorData_parts parsePathCursor_def isOk_iff Let_def)
  show "length (pathCursorData c) \<le> maxPathCursorSize"
    using s v length_appendPart [of "pcMethod c" "[]"] length_appendPart [of "pcDatabase c" "[]"] length_appendPart [of "pcPathHash c" "[]"]
      length_appendPart [of "pcIndex c" "[]"]
      length_appendPart [of "pcValue c" "[]"] length_appendPart [of "pcLastValue c" "[]"] length_appendPart [of "pcID c" "[]"]
    by (simp add: pathCursorData_parts maxPathCursorSize_def maxEncodedIndexValue_def maxIndexValue_def queryMethod_def)
next
  fix c
  show "pathCursorData c \<noteq> [] \<and> pathCursorData c ! 0 = pathCursorVersion" by (simp add: pathCursorData_parts)
next
  fix d c
  assume "parsePathCursor d = Inr c"
  then show "isOk (validatePathCursor c) \<and> length (pcPathHash c) = 32"
    by (auto simp: parsePathCursor_def result_simps isOk_iff Let_def)
qed

section \<open>Properties\<close>

text \<open>
  C30: a query cursor survives the round trip through its token: what \<open>encodeQueryCursor\<close> writes,
  \<open>decodeQueryCursor\<close> reads back under the same key, within the size limits it enforces.
\<close>

theorem queryCursor_roundtrip:
  assumes "crypto_api E" "length box = 32" "encodeQueryCursor E box c w = Inr (token, w')"
  shows "decodeQueryCursor E box token = Inr c"
proof -
  from assms(3) have "isOk (validateQueryCursor c)" "length (take 12 (entropy w)) = 12"
    "token = b64Encode (take 12 (entropy w) @ gcmSeal E box (take 12 (entropy w)) (queryCursorData c) [])"
    by (auto simp: encodeQueryCursor_def result_simps gcmNonceLen_def randRead_def split: if_splits)
  then show ?thesis
    unfolding decodeQueryCursor_def maxEncryptedQueryCursorSize_def
    using query_token.open_sealed [OF assms(1,2)] by blast
qed

definition sampleCursor :: queryCursor where
  "sampleCursor = \<lparr>qcDatabase = str ''notes'', qcIndex = str ''n'', qcOp = cmpGE, qcValue = 0x03 # encodeSortableNumber 1,
     qcLastValue = 0x03 # encodeSortableNumber 2, qcID = str ''0195c3d2-e1f0-7fff-bfff-ffffffffffff''\<rparr>"

theorem queryCursor_roundtrip_witness:
  "\<exists>token w'. encodeQueryCursor memServices memKey sampleCursor sampleWorld = Inr (token, w') \<and>
     decodeQueryCursor memServices memKey token = Inr sampleCursor"
proof -
  have "isOk (validateQueryCursor sampleCursor)" by code_simp
  then obtain token w' where e: "encodeQueryCursor memServices memKey sampleCursor sampleWorld = Inr (token, w')"
    by (auto simp: encodeQueryCursor_def randRead_def sampleWorld_def gcmNonceLen_def)
  have "length memKey = 32" by (simp add: memKey_def)
  from queryCursor_roundtrip [OF mem_crypto.crypto_api_axioms this e] e show ?thesis by blast
qed

text \<open>
  C31: path cursors survive the round trip through their tokens.
\<close>

theorem pathCursor_roundtrip:
  assumes "crypto_api E" "length box = 32" "length (pcPathHash c) = 32" "encodePathCursor E box c w = Inr (token, w')"
  shows "decodePathCursor E box token = Inr c"
proof -
  from assms(4) have "isOk (validatePathCursor c)" "length (take 12 (entropy w)) = 12"
    "token = b64Encode (take 12 (entropy w) @ gcmSeal E box (take 12 (entropy w)) (pathCursorData c) [])"
    by (auto simp: encodePathCursor_def result_simps gcmNonceLen_def randRead_def split: if_splits)
  then show ?thesis
    unfolding decodePathCursor_def maxEncryptedPathCursorSize_def
    using path_token.open_sealed [OF assms(1,2), of "take 12 (entropy w)" c] assms(3) by simp
qed

definition samplePathCursor :: pathCursor where
  "samplePathCursor = \<lparr>pcMethod = queryMethod, pcDialect = dialectJSONPath, pcOrder = orderDocument, pcDatabase = str ''notes'',
     pcPathHash = replicate 32 1, pcIndex = [], pcOp = cmpEq, pcValue = [2], pcLastValue = [],
     pcID = str ''0195c3d2-e1f0-7fff-bfff-ffffffffffff''\<rparr>"

theorem pathCursor_roundtrip_witness:
  "\<exists>token w'. encodePathCursor memServices memKey samplePathCursor sampleWorld = Inr (token, w') \<and>
     decodePathCursor memServices memKey token = Inr samplePathCursor"
proof -
  have "isOk (validatePathCursor samplePathCursor)" by code_simp
  then obtain token w' where e: "encodePathCursor memServices memKey samplePathCursor sampleWorld = Inr (token, w')"
    by (auto simp: encodePathCursor_def randRead_def sampleWorld_def gcmNonceLen_def)
  have "length memKey = 32" "length (pcPathHash samplePathCursor) = 32" by (simp_all add: memKey_def samplePathCursor_def)
  from pathCursor_roundtrip [OF mem_crypto.crypto_api_axioms this e] e show ?thesis by blast
qed

text \<open>
  C28: cursors are authentic.  A token that \<open>decodeQueryCursor\<close> or \<open>decodePathCursor\<close> accepts is the
  base64 text of something sealed under the key of the database, byte for byte, and holds
  a valid cursor; a client cannot make one up or alter one.
\<close>

theorem cursor_authentic:
  assumes "crypto_api E" "length box = 32"
  shows "(decodeQueryCursor E box token = Inr c \<longrightarrow> validateQueryCursor c = Inr () \<and>
      (\<exists>nonce data. length nonce = 12 \<and> token = b64Encode (nonce @ gcmSeal E box nonce data []) \<and> parseQueryCursor data = Inr c)) \<and>
    (decodePathCursor E box token = Inr p \<longrightarrow> validatePathCursor p = Inr () \<and>
      (\<exists>nonce data. length nonce = 12 \<and> token = b64Encode (nonce @ gcmSeal E box nonce data []) \<and> parsePathCursor data = Inr p))"
proof (intro conjI impI)
  assume "decodeQueryCursor E box token = Inr c"
  then obtain d where d: "openToken E box token maxEncryptedQueryCursorSize maxQueryCursorSize queryCursorVersion = Inr d"
    "parseQueryCursor d = Inr c" by (auto simp: decodeQueryCursor_def result_simps)
  then show "validateQueryCursor c = Inr ()" using query_token.parse_valid by (auto simp: isOk_iff)
  show "\<exists>nonce data. length nonce = 12 \<and> token = b64Encode (nonce @ gcmSeal E box nonce data []) \<and> parseQueryCursor data = Inr c"
    using openToken_authentic [OF assms d(1)] d(2) by blast
next
  assume "decodePathCursor E box token = Inr p"
  then obtain d where d: "openToken E box token maxEncryptedPathCursorSize maxPathCursorSize pathCursorVersion = Inr d"
    "parsePathCursor d = Inr p" by (auto simp: decodePathCursor_def result_simps)
  then show "validatePathCursor p = Inr ()" using path_token.parse_valid by (auto simp: isOk_iff)
  show "\<exists>nonce data. length nonce = 12 \<and> token = b64Encode (nonce @ gcmSeal E box nonce data []) \<and> parsePathCursor data = Inr p"
    using openToken_authentic [OF assms d(1)] d(2) by blast
qed

theorem cursor_authentic_witness:
  "\<exists>token nonce data. decodeQueryCursor memServices memKey token = Inr sampleCursor \<and> length nonce = 12 \<and>
     token = b64Encode (nonce @ gcmSeal memServices memKey nonce data [])"
proof -
  have "isOk (validateQueryCursor sampleCursor)" by code_simp
  moreover have k: "length memKey = 32" and n: "length (replicate 12 0 :: bytes) = 12" by (simp_all add: memKey_def)
  ultimately have "decodeQueryCursor memServices memKey
      (b64Encode (replicate 12 0 @ gcmSeal memServices memKey (replicate 12 0) (queryCursorData sampleCursor) [])) = Inr sampleCursor"
    unfolding decodeQueryCursor_def maxEncryptedQueryCursorSize_def
    by (intro query_token.open_sealed [OF mem_crypto.crypto_api_axioms])
  with cursor_authentic [OF mem_crypto.crypto_api_axioms k] show ?thesis by blast
qed

end
