(* ===== verification/Store_Properties.thy ===== *)
theory Store_Properties
  imports Store_Create Reference_Services
begin

text \<open>
  The properties of the store operations, each for every implementation of the services that
  satisfies the documented laws, with and without faults, and its witness on the reference
  implementation.
\<close>

section \<open>A database to work on\<close>

definition sampleDB :: bytes where "sampleDB = str ''notes''"

definition sampleDefs :: "indexDef list" where
  "sampleDefs = [\<lparr>idxName = str ''n'', idxPath = str ''/n''\<rparr>]"

definition sampleSys :: "memdb sys" where
  "sampleSys = (snd (createDB memServices memKey sampleDB sampleDefs emptySys))\<lparr>wld := sampleWorld\<rparr>"

definition sampleID :: bytes where
  "sampleID = str ''0195c3d2-e1f0-7fff-bfff-ffffffffffff''"

lemma sample_valid: "validName sampleDB" "validDefs sampleDefs" "validID sampleID"
proof -
  show "validName sampleDB" by code_simp
  have "validateIndexes sampleDefs = Inr ()"
    by (simp add: validateIndexes_def sampleDefs_def maxIndexes_def validatePointer_def maxIndexPath_def
        validateName_def validNameChar_def str_def isOk_def runeLen.simps)
  then show "validDefs sampleDefs" by (simp add: validateIndexes_iff)
  show "validID sampleID" by code_simp
qed

lemma sample_rep:
  "\<exists>k. rep memServices memKey (map_of (pdb sampleSys))
     [sampleDB \<mapsto> \<lparr>aKey = k, aDefs = sampleDefs, aDocs = Map.empty\<rparr>]"
proof -
  have r: "rep memServices memKey (map_of (pdb emptySys)) Map.empty" by (simp add: emptySys_def rep_empty)
  have X: "False \<or> enoughRandom (wld emptySys)" by (simp add: emptySys_def enoughRandom_sample)
  from mem_store.createDB_outcome [OF r sample_valid(1) X, of sampleDefs]
  obtain res A' where "rep memServices memKey (map_of (pdb sampleSys)) A'" "spec_createDB sampleDB sampleDefs Map.empty res A'"
    unfolding wp_def outcome_def sampleSys_def by (auto simp: faulty_none split: prod.splits)
  with sample_valid(2) show ?thesis by (auto simp: spec_createDB_def sampleDefs_def)
qed

lemma sample_random: "False \<or> enoughRandom (wld sampleSys)"
  by (simp add: sampleSys_def enoughRandom_sample)

definition sampleJson :: bytes where "sampleJson = str ''{\"n\":1}''"

definition docSys :: "memdb sys" where
  "docSys = (snd (createDocWithID memServices memKey sampleDB sampleID sampleJson sampleSys))\<lparr>wld := sampleWorld\<rparr>"

lemma sample_indexed: "isOk (indexValues sampleJson sampleDefs)" "\<not> maxStoredDocBytes < length sampleJson"
  by code_simp (simp add: sampleJson_def maxStoredDocBytes_def)

lemma sample_doc:
  "\<exists>k rv. rep memServices memKey (map_of (pdb docSys))
     [sampleDB \<mapsto> \<lparr>aKey = k, aDefs = sampleDefs, aDocs = [sampleID \<mapsto> \<lparr>docJson = sampleJson, docRev = rv\<rparr>]\<rparr>]"
proof -
  obtain k where r: "rep memServices memKey (map_of (pdb sampleSys))
     [sampleDB \<mapsto> \<lparr>aKey = k, aDefs = sampleDefs, aDocs = Map.empty\<rparr>]" using sample_rep by blast
  from mem_store.createDocWithID_outcome [OF r sample_valid(1,3) sample_random, of sampleJson]
  obtain res A' where "rep memServices memKey (map_of (pdb docSys)) A'"
    "spec_createDocWithID sampleDB sampleID sampleJson [sampleDB \<mapsto> \<lparr>aKey = k, aDefs = sampleDefs, aDocs = Map.empty\<rparr>] res A'"
    unfolding wp_def outcome_def docSys_def by (auto simp: faulty_none split: prod.splits)
  with sample_indexed show ?thesis by (fastforce simp: spec_createDocWithID_def putDoc_def isOk_iff)
qed

lemma doc_random: "False \<or> enoughRandom (wld docSys)"
  by (simp add: docSys_def enoughRandom_sample)

section \<open>Properties\<close>

text \<open>
  C11: creating a database implements its specification: with invalid index definitions or an
  existing name nothing changes and the error says so; otherwise the database exists, empty,
  with its definitions sorted by name, and no other database changes.  When Pebble or the
  source of randomness fails, the store still represents either the old or the new state.
\<close>

theorem createDB_refines:
  assumes "store_api E kv F wk" "rep E wk (kv (pdb s)) A" "validateName n = Inr ()"
    "X \<or> enoughRandom (wld s)" "createDB E wk n defs s = (r, s')"
  shows "outcome E kv F wk X (spec_createDB n defs) A r s'"
  using wpD [OF store_api.createDB_outcome [OF assms(1-4)] assms(5)] .

theorem createDB_refines_witness:
  "outcome memServices map_of (\<lambda>_. False) memKey False (spec_createDB sampleDB sampleDefs) Map.empty
     (fst (createDB memServices memKey sampleDB sampleDefs emptySys))
     (snd (createDB memServices memKey sampleDB sampleDefs emptySys))"
proof -
  have r: "rep memServices memKey (map_of (pdb emptySys)) Map.empty" by (simp add: emptySys_def rep_empty)
  have X: "False \<or> enoughRandom (wld emptySys)" by (simp add: emptySys_def enoughRandom_sample)
  show ?thesis
    using createDB_refines [OF mem_store.store_api_axioms r sample_valid(1) X] by (simp add: prod_eq_iff)
qed

text \<open>
  C10: deleting a database removes its record, its documents, its index definitions and its
  index entries in one batch and leaves every other database as it is; when Pebble fails the
  store represents either the old or the new state.
\<close>

theorem deleteDB_refines:
  assumes "store_api E kv F wk" "rep E wk (kv (pdb s)) A" "validateName n = Inr ()"
    "deleteDB E wk n s = (r, s')"
  shows "outcome E kv F wk X (spec_deleteDB n) A r s'"
  using wpD [OF store_api.deleteDB_outcome [OF assms(1-3)] assms(4)] .

theorem deleteDB_refines_witness:
  "\<exists>A. sampleDB \<in> dom A \<and> outcome memServices map_of (\<lambda>_. False) memKey False (spec_deleteDB sampleDB) A
     (fst (deleteDB memServices memKey sampleDB docSys)) (snd (deleteDB memServices memKey sampleDB docSys))"
proof -
  obtain k rv where r: "rep memServices memKey (map_of (pdb docSys))
     [sampleDB \<mapsto> \<lparr>aKey = k, aDefs = sampleDefs, aDocs = [sampleID \<mapsto> \<lparr>docJson = sampleJson, docRev = rv\<rparr>]\<rparr>]"
    (is "rep _ _ _ ?A") using sample_doc by blast
  have "sampleDB \<in> dom ?A" by simp
  with deleteDB_refines [OF mem_store.store_api_axioms r sample_valid(1)] show ?thesis
    by (metis prod.collapse)
qed

text \<open>
  C3: creating a document stores it with exactly its index entries under the first ID drawn that
  is free: the IDs drawn before it all belong to stored documents, and its revision is made of the 16
  random bytes that come after that ID.  An unknown database, a value that cannot be indexed and a
  document beyond the storage limit are reported without any change.  When Pebble or the source
  of randomness fails, the store represents either the old or the new state.
\<close>

theorem createDoc_refines:
  assumes "store_api E kv F wk" "rep E wk (kv (pdb s)) A" "validateName n = Inr ()"
    "X \<or> freshID n A (wld s)" "createDoc E wk n json s = (r, s')"
  shows "outcome E kv F wk X (spec_createDoc n json) A r s' \<and>
    (\<forall>i rv. r = Inr (i, rv) \<longrightarrow> (\<exists>k. drawn n A (wld s) k i rv))"
  using store_api.createDoc_outcome [OF assms] store_api.createDoc_drawn [OF assms(1-3), of json] assms(5) by blast

theorem createDoc_refines_witness:
  "\<exists>A i rv k. fst (createDoc memServices memKey sampleDB sampleJson sampleSys) = Inr (i, rv) \<and> sampleDB \<in> dom A \<and>
     drawn sampleDB A sampleWorld k i rv \<and>
     outcome memServices map_of (\<lambda>_. False) memKey False (spec_createDoc sampleDB sampleJson) A
       (fst (createDoc memServices memKey sampleDB sampleJson sampleSys))
       (snd (createDoc memServices memKey sampleDB sampleJson sampleSys))"
proof -
  obtain k where r: "rep memServices memKey (map_of (pdb sampleSys))
     [sampleDB \<mapsto> \<lparr>aKey = k, aDefs = sampleDefs, aDocs = Map.empty\<rparr>]" (is "rep _ _ _ ?A") using sample_rep by blast
  have "case makeID sampleWorld of Inl _ \<Rightarrow> False | Inr (i, w) \<Rightarrow> enoughRandom w" by code_simp
  then have fresh: "False \<or> freshID sampleDB ?A (wld sampleSys)"
    by (auto simp: freshID_def sampleSys_def split: sum.splits prod.splits)
  have w: "wld sampleSys = sampleWorld" by (simp add: sampleSys_def)
  note c = createDoc_refines [OF mem_store.store_api_axioms r sample_valid(1) fresh prod.collapse [symmetric],
      of sampleJson, unfolded w]
  then obtain A' where "spec_createDoc sampleDB sampleJson ?A (fst (createDoc memServices memKey sampleDB sampleJson sampleSys)) A'"
    by (auto simp: outcome_def faulty_none)
  then obtain i rv where "fst (createDoc memServices memKey sampleDB sampleJson sampleSys) = Inr (i, rv)"
    using sample_indexed by (auto simp: spec_createDoc_def isOk_iff)
  moreover have "sampleDB \<in> dom ?A" by simp
  ultimately show ?thesis using c by blast
qed

text \<open>
  C12: reading a document returns exactly the stored document and revision, or that there is
  none (also when there is no such database), unless Pebble reports a fault.
\<close>

theorem getDoc_refines:
  assumes "store_api E kv F wk" "rep E wk (kv db) A" "validateName n = Inr ()" "validateID i = Inr ()"
  shows "getDoc E wk n i db = spec_getDoc n i A \<or> (\<exists>e. getDoc E wk n i db = Inl e \<and> faulty F False e)"
  using store_api.getDoc_rep [OF assms] by (simp add: okOrFault_def)

theorem getDoc_refines_witness:
  "\<exists>rv. getDoc memServices memKey sampleDB sampleID (pdb docSys) = Inr \<lparr>docJson = sampleJson, docRev = rv\<rparr>"
proof -
  obtain k rv where r: "rep memServices memKey (map_of (pdb docSys))
     [sampleDB \<mapsto> \<lparr>aKey = k, aDefs = sampleDefs, aDocs = [sampleID \<mapsto> \<lparr>docJson = sampleJson, docRev = rv\<rparr>]\<rparr>]"
    using sample_doc by blast
  from getDoc_refines [OF mem_store.store_api_axioms r sample_valid(1,3)] show ?thesis
    by (simp add: faulty_none spec_getDoc_def docAt_def)
qed

text \<open>
  C2: replacing a document checks the If-Match condition against the current revision, changes
  nothing when it fails, and otherwise writes the new version under a revision different from
  the old one, together with the changed index entries, in one batch: the entries of the new
  version are exactly the stored ones.
\<close>

theorem replaceDoc_refines:
  assumes "store_api E kv F wk" "rep E wk (kv (pdb s)) A" "validateName n = Inr ()" "validateID i = Inr ()"
    "X \<or> enoughRandom (wld s)" "replaceDoc E wk n i json match s = (r, s')"
  shows "outcome E kv F wk X (spec_replaceDoc n i json match) A r s'"
  using wpD [OF store_api.replaceDoc_outcome [OF assms(1-5)] assms(6)] .

theorem replaceDoc_refines_witness:
  "\<exists>A. docAt A sampleDB sampleID \<noteq> None \<and>
     outcome memServices map_of (\<lambda>_. False) memKey False (spec_replaceDoc sampleDB sampleID (str ''{}'') noMatch) A
       (fst (replaceDoc memServices memKey sampleDB sampleID (str ''{}'') noMatch docSys))
       (snd (replaceDoc memServices memKey sampleDB sampleID (str ''{}'') noMatch docSys))"
proof -
  obtain k rv where r: "rep memServices memKey (map_of (pdb docSys))
     [sampleDB \<mapsto> \<lparr>aKey = k, aDefs = sampleDefs, aDocs = [sampleID \<mapsto> \<lparr>docJson = sampleJson, docRev = rv\<rparr>]\<rparr>]"
    (is "rep _ _ _ ?A") using sample_doc by blast
  have "docAt ?A sampleDB sampleID \<noteq> None" by (simp add: docAt_def)
  with replaceDoc_refines [OF mem_store.store_api_axioms r sample_valid(1,3) doc_random] show ?thesis
    by (metis prod.collapse)
qed

text \<open>
  C5: patching a document applies the patch function to the stored bytes of the current
  version, under the same conditions and with the same effects as a replacement by the result;
  an error of the patch function changes nothing.
\<close>

theorem patchDoc_refines:
  assumes "store_api E kv F wk" "rep E wk (kv (pdb s)) A" "validateName n = Inr ()" "validateID i = Inr ()"
    "X \<or> enoughRandom (wld s)" "patchDoc E wk n i match apply s = (r, s')"
  shows "outcome E kv F wk X (spec_patchDoc n i match apply) A r s'"
  using wpD [OF store_api.patchDoc_outcome [OF assms(1-5)] assms(6)] .

theorem patchDoc_refines_witness:
  "\<exists>A. docAt A sampleDB sampleID \<noteq> None \<and>
     outcome memServices map_of (\<lambda>_. False) memKey False (spec_patchDoc sampleDB sampleID noMatch Inr) A
       (fst (patchDoc memServices memKey sampleDB sampleID noMatch Inr docSys))
       (snd (patchDoc memServices memKey sampleDB sampleID noMatch Inr docSys))"
proof -
  obtain k rv where r: "rep memServices memKey (map_of (pdb docSys))
     [sampleDB \<mapsto> \<lparr>aKey = k, aDefs = sampleDefs, aDocs = [sampleID \<mapsto> \<lparr>docJson = sampleJson, docRev = rv\<rparr>]\<rparr>]"
    (is "rep _ _ _ ?A") using sample_doc by blast
  have "docAt ?A sampleDB sampleID \<noteq> None" by (simp add: docAt_def)
  with patchDoc_refines [OF mem_store.store_api_axioms r sample_valid(1,3) doc_random] show ?thesis
    by (metis prod.collapse)
qed

text \<open>
  C9: deleting a document checks the If-Match condition, and removes the record and all its
  index entries in one batch; every other document and database stays as it is.
\<close>

theorem deleteDoc_refines:
  assumes "store_api E kv F wk" "rep E wk (kv (pdb s)) A" "validateName n = Inr ()" "validateID i = Inr ()"
    "deleteDoc E wk n i match s = (r, s')"
  shows "outcome E kv F wk X (spec_deleteDoc n i match) A r s'"
  using wpD [OF store_api.deleteDoc_outcome [OF assms(1-4)] assms(5)] .

theorem deleteDoc_refines_witness:
  "\<exists>A. docAt A sampleDB sampleID \<noteq> None \<and>
     outcome memServices map_of (\<lambda>_. False) memKey False (spec_deleteDoc sampleDB sampleID noMatch) A
       (fst (deleteDoc memServices memKey sampleDB sampleID noMatch docSys))
       (snd (deleteDoc memServices memKey sampleDB sampleID noMatch docSys))"
proof -
  obtain k rv where r: "rep memServices memKey (map_of (pdb docSys))
     [sampleDB \<mapsto> \<lparr>aKey = k, aDefs = sampleDefs, aDocs = [sampleID \<mapsto> \<lparr>docJson = sampleJson, docRev = rv\<rparr>]\<rparr>]"
    (is "rep _ _ _ ?A") using sample_doc by blast
  have "docAt ?A sampleDB sampleID \<noteq> None" by (simp add: docAt_def)
  with deleteDoc_refines [OF mem_store.store_api_axioms r sample_valid(1,3)] show ?thesis
    by (metis prod.collapse)
qed

end
