(* ===== verification/Query_Properties.thy ===== *)
theory Query_Properties
  imports Range_Laws List_Laws Store_Properties
begin

text \<open>
  The properties of queries, lists and exports, for every implementation of the services, and
  their witnesses on the reference implementation.
\<close>

section \<open>Walking through the pages\<close>

text \<open>A client that asks for one page after the other, with the last ID of a page as the cursor.\<close>

fun walk :: "nat \<Rightarrow> (bytes \<Rightarrow> (bytes list \<times> bool) result) \<Rightarrow> bytes \<Rightarrow> bytes list result" where
  "walk 0 fetch cursor = Inl []"
| "walk (Suc fuel) fetch cursor =
     bindE (fetch cursor) (\<lambda>(ids, more).
     if more then bindE (walk fuel fetch (last ids)) (\<lambda>rest. Inr (ids @ rest)) else Inr ids)"

lemma filter_drop:
  assumes "sorted_wrt (<) xs" "0 < k" "k \<le> length xs"
  shows "filter (\<lambda>x. xs ! (k - 1) < x) xs = drop k (xs :: 'a :: linorder list)"
proof -
  have lt: "i < j \<Longrightarrow> j < length xs \<Longrightarrow> xs ! i < xs ! j" for i j using assms(1) by (rule sorted_wrt_nth_less)
  have "\<not> xs ! (k - 1) < x" if "x \<in> set (take k xs)" for x
  proof -
    from that obtain i where i: "i < k" "i < length xs" "x = xs ! i" by (auto simp: in_set_conv_nth)
    show ?thesis
    proof (cases "i = k - 1")
      case False
      with i assms(2,3) have "x < xs ! (k - 1)" using lt [of i "k - 1"] by simp
      then show ?thesis by (rule less_not_sym)
    qed (simp add: i)
  qed
  moreover have "xs ! (k - 1) < x" if "x \<in> set (drop k xs)" for x
    using that lt [of "k - 1"] assms(2) by (auto simp: in_set_conv_nth)
  ultimately have "filter (\<lambda>x. xs ! (k - 1) < x) (take k xs @ drop k xs) = drop k xs"
    unfolding filter_append by simp
  then show ?thesis by simp
qed

lemma behind_next:
  assumes "sorted L" "distinct L" "[] \<notin> set L" "1 \<le> limit" "limit < int (length (behind c L))"
  shows "behind (last (take (nat limit) (behind c L))) L = drop (nat limit) (behind c L)"
proof -
  let ?X = "behind c L"
  have s: "sorted_wrt (<) ?X" using assms(1,2) by (simp add: behind_def strict_sorted_iff sorted_wrt_filter)
  have last: "last (take (nat limit) ?X) = ?X ! (nat limit - 1)"
    using assms(4,5) by (subst last_conv_nth) (auto simp: min_def)
  have mem: "?X ! (nat limit - 1) \<in> set ?X" using assms(4,5) by (intro nth_mem) auto
  then have ne: "?X ! (nat limit - 1) \<noteq> []" using assms(3) by (auto simp: behind_def)
  have "behind (?X ! (nat limit - 1)) L = filter (\<lambda>x. ?X ! (nat limit - 1) < x) ?X"
    using mem ne by (auto simp: behind_def intro!: filter_cong)
  also have "\<dots> = drop (nat limit) ?X" using filter_drop [OF s, of "nat limit"] assms(4,5) by simp
  finally show ?thesis by (simp add: last)
qed

lemma walk_complete:
  assumes "\<And>c. fetch c = Inr (page limit (behind c L))" "sorted L" "distinct L" "[] \<notin> set L" "1 \<le> limit"
    "length (behind c L) < fuel"
  shows "walk fuel fetch c = Inr (behind c L)"
  using assms(6)
proof (induction fuel arbitrary: c)
  case (Suc fuel)
  show ?case
  proof (cases "limit < int (length (behind c L))")
    case True
    let ?c = "last (take (nat limit) (behind c L))"
    have n: "behind ?c L = drop (nat limit) (behind c L)" by (rule behind_next [OF assms(2-5) True])
    then have "walk fuel fetch ?c = Inr (behind ?c L)" using Suc True assms(5) by (intro Suc.IH) simp
    with n True assms(1) [of c] show ?thesis by (simp add: page_def)
  qed (simp add: assms(1) page_def)
qed simp

lemma behind_Nil [simp]: "behind [] L = L"
  by (simp add: behind_def)

section \<open>Properties\<close>

text \<open>
  C13: an equality query on an index returns the IDs of exactly the documents that have the value at
  the indexed path, in byte order behind the cursor, cut at the limit, and reports correctly
  whether there are more; an unknown database or index and an invalid value are reported.  The
  context is not cancelled; when Pebble reports a fault, the query fails with it.
\<close>

theorem queryDocs_returns:
  assumes "store_api E kv F wk" "rep E wk (kv db) A" "validateName n = Inr ()" "validateName x = Inr ()"
    "\<And>k. ctx k = None" "0 \<le> limit"
  shows "queryDocsCtx E wk ctx n x v limit cursor db = spec_queryDocs n x v limit cursor A \<or>
    (\<exists>e. queryDocsCtx E wk ctx n x v limit cursor db = Inl e \<and> faulty F False e)"
  using store_api.queryDocsCtx_rep [OF assms] by (simp add: okOrFault_def)

definition sampleValue :: bytes where
  "sampleValue = 0x03 # encodeSortableNumber 1"

lemma sample_pairs:
  "idxPairs \<lparr>aKey = k, aDefs = sampleDefs, aDocs = [sampleID \<mapsto> \<lparr>docJson = sampleJson, docRev = rv\<rparr>]\<rparr> (str ''n'') =
    {(sampleValue, sampleID)}"
proof -
  have "indexValues sampleJson sampleDefs = Inr [(str ''n'', sampleValue)]" by code_simp
  then show ?thesis by (auto simp: idxPairs_def docEntries_def)
qed

lemma sample_query: "validName (str ''n'')" "validIndexValue sampleValue" "sampleValue ! 0 = 0x03"
  "findIndex sampleDefs (str ''n'') \<noteq> None"
  by code_simp+

theorem queryDocs_returns_witness:
  "queryDocsCtx memServices memKey background sampleDB (str ''n'') sampleValue 10 [] (pdb docSys) = Inr ([sampleID], False)"
proof -
  obtain k rv where r: "rep memServices memKey (map_of (pdb docSys))
     [sampleDB \<mapsto> \<lparr>aKey = k, aDefs = sampleDefs, aDocs = [sampleID \<mapsto> \<lparr>docJson = sampleJson, docRev = rv\<rparr>]\<rparr>]"
    using sample_doc by blast
  have "background j = None" for j by (simp add: background_def)
  from queryDocs_returns [OF mem_store.store_api_axioms r sample_valid(1) sample_query(1), of background 10 sampleValue "[]", OF this]
  show ?thesis using sample_query(2,4)
    by (simp add: faulty_none spec_queryDocs_def eqIDs_def sample_pairs page_def)
qed

text \<open>
  C14: a range query on an index returns the documents whose indexed value is of the type of the
  boundary and satisfies the comparison, in the order of value and then ID, behind the cursor,
  cut at the limit, together with the value at which the next page starts.  The context is not
  cancelled; when Pebble reports a fault, the query fails with it.
\<close>

theorem queryRange_returns:
  assumes "store_api E kv F wk" "rep E wk (kv db) A" "validateName n = Inr ()" "validateName x = Inr ()"
    "\<And>k. ctx k = None" "1 \<le> limit" "afterValue = [] \<Longrightarrow> afterID = []"
  shows "queryRangePage E wk ctx n x op e limit afterValue afterID db = spec_queryRange n x op e limit afterValue afterID A \<or>
    (\<exists>err. queryRangePage E wk ctx n x op e limit afterValue afterID db = Inl err \<and> faulty F False err)"
  using store_api.queryRangePage_rep [OF assms] by (simp add: okOrFault_def)

theorem queryRange_returns_witness:
  "queryRangePage memServices memKey background sampleDB (str ''n'') cmpGE sampleValue 10 [] [] (pdb docSys) =
     Inr \<lparr>pageIDs = [sampleID], lastValue = [], pageMore = False\<rparr>"
proof -
  obtain k rv where r: "rep memServices memKey (map_of (pdb docSys))
     [sampleDB \<mapsto> \<lparr>aKey = k, aDefs = sampleDefs, aDocs = [sampleID \<mapsto> \<lparr>docJson = sampleJson, docRev = rv\<rparr>]\<rparr>]"
    using sample_doc by blast
  have b: "background j = None" for j by (simp add: background_def)
  have ge: "cmpValid cmpGE" "cmpGE \<noteq> cmpEq" "cmpHolds cmpGE sampleValue sampleValue" by code_simp+
  have p: "rangePairs \<lparr>aKey = k, aDefs = sampleDefs, aDocs = [sampleID \<mapsto> \<lparr>docJson = sampleJson, docRev = rv\<rparr>]\<rparr> (str ''n'') cmpGE sampleValue =
    {(sampleValue, sampleID)}" unfolding rangePairs_def sample_pairs using ge(3) by auto
  from queryRange_returns [OF mem_store.store_api_axioms r sample_valid(1) sample_query(1), where ctx = background and limit = 10 and
      afterValue = "[]" and afterID = "[]" and op = cmpGE and e = sampleValue, OF b]
  show ?thesis using sample_query ge(1,2)
    by (simp add: faulty_none spec_queryRange_def p behindPair_def rangePage_def)
qed

text \<open>
  C23: listing documents returns the page of the stored IDs in byte order behind the cursor, and
  whether there are more.
\<close>

theorem listDocs_returns:
  assumes "store_api E kv F wk" "rep E wk (kv db) A" "validateName n = Inr ()" "0 \<le> limit"
  shows "listDocs E wk n limit cursor db = spec_listDocs n limit cursor A \<or>
    (\<exists>e. listDocs E wk n limit cursor db = Inl e \<and> faulty F False e)"
  using store_api.listDocs_rep [OF assms] by (simp add: okOrFault_def)

theorem listDocs_returns_witness:
  "listDocs memServices memKey sampleDB 10 [] (pdb docSys) = Inr ([sampleID], False)"
proof -
  obtain k rv where r: "rep memServices memKey (map_of (pdb docSys))
     [sampleDB \<mapsto> \<lparr>aKey = k, aDefs = sampleDefs, aDocs = [sampleID \<mapsto> \<lparr>docJson = sampleJson, docRev = rv\<rparr>]\<rparr>]"
    using sample_doc by blast
  from listDocs_returns [OF mem_store.store_api_axioms r sample_valid(1), of 10 "[]"]
  show ?thesis by (simp add: faulty_none spec_listDocs_def page_def)
qed

text \<open>
  C16: paging through an equality query is complete.  A client that follows the pages with the
  last ID of each page as the cursor, at any page size, gets every matching document exactly
  once, in order, and stops.  Pebble reports no faults.
\<close>

theorem queryDocs_pages_complete:
  assumes "store_api E kv (\<lambda>_. False) wk" "rep E wk (kv db) A" "A n = Some a" "findIndex (aDefs a) x \<noteq> None"
    "validateName x = Inr ()" "validIndexValue v" "1 \<le> limit" "card (eqIDs a x v) < fuel"
  shows "walk fuel (\<lambda>cursor. queryDocs E wk n x v limit cursor db) [] = Inr (sorted_list_of_set (eqIDs a x v))"
proof -
  have wf: "wfDB a" and n: "validName n" using assms(2,3) unfolding rep_def wfState_def by blast+
  have f: "finite (eqIDs a x v)" by (rule finite_eqIDs [OF wf])
  have "[] \<notin> eqIDs a x v" using idxPairs_valid(2) [OF wf, of v "[]" x] validID_ne [of "[]"] by (auto simp: eqIDs_def)
  moreover have "queryDocs E wk n x v limit c db = Inr (page limit (behind c (sorted_list_of_set (eqIDs a x v))))" for c
    using store_api.queryDocsCtx_rep [OF assms(1,2) n assms(5), of background limit v c] assms(3,4,6,7)
    by (simp add: okOrFault_none spec_queryDocs_def queryDocs_def background_def)
  ultimately have "walk fuel (\<lambda>cursor. queryDocs E wk n x v limit cursor db) [] = Inr (behind [] (sorted_list_of_set (eqIDs a x v)))"
    using f assms(7,8) by (intro walk_complete) auto
  then show ?thesis by simp
qed

theorem queryDocs_pages_complete_witness:
  "walk 2 (\<lambda>cursor. queryDocs memServices memKey sampleDB (str ''n'') sampleValue 1 cursor (pdb docSys)) [] = Inr [sampleID]"
proof -
  obtain k rv where r: "rep memServices memKey (map_of (pdb docSys))
     [sampleDB \<mapsto> \<lparr>aKey = k, aDefs = sampleDefs, aDocs = [sampleID \<mapsto> \<lparr>docJson = sampleJson, docRev = rv\<rparr>]\<rparr>]"
    using sample_doc by blast
  have "eqIDs \<lparr>aKey = k, aDefs = sampleDefs, aDocs = [sampleID \<mapsto> \<lparr>docJson = sampleJson, docRev = rv\<rparr>]\<rparr> (str ''n'') sampleValue = {sampleID}"
    by (simp add: eqIDs_def sample_pairs)
  with queryDocs_pages_complete [OF mem_store.store_api_axioms r, of sampleDB _ "str ''n''" sampleValue 1 2] sample_query
  show ?thesis by simp
qed

text \<open>
  C22: an export hands the documents to its callback in the order of their IDs, a prefix of them
  when something fails, and reports success only when the callback has accepted all of them;
  when Pebble does not fail it does exactly what the callback run over all documents does.
\<close>

theorem exportDocs_complete:
  assumes "store_api E kv F wk" "rep E wk (kv db) A" "A n = Some a" "\<And>k. ctx k = None"
    "exportDocs E wk ctx n yield db y = (r, y')"
  shows "(\<exists>js. prefix js (docsInOrder a) \<and> y' = snd (yieldAll yield js y) \<and>
      (r = Inr () \<longrightarrow> js = docsInOrder a \<and> fst (yieldAll yield js y) = Inr ())) \<and>
    ((\<forall>p. \<not> F p) \<longrightarrow> (r, y') = yieldAll yield (docsInOrder a) y)"
  using store_api.exportDocs_rep [OF assms] by simp

theorem exportDocs_complete_witness:
  "exportDocs memServices memKey background sampleDB (\<lambda>j y. (Inr (), y @ [j])) (pdb docSys) [] = (Inr (), [sampleJson])"
proof -
  obtain k rv where r: "rep memServices memKey (map_of (pdb docSys))
     [sampleDB \<mapsto> \<lparr>aKey = k, aDefs = sampleDefs, aDocs = [sampleID \<mapsto> \<lparr>docJson = sampleJson, docRev = rv\<rparr>]\<rparr>]"
    using sample_doc by blast
  have b: "background j = None" for j by (simp add: background_def)
  obtain res y' where run:
    "exportDocs memServices memKey background sampleDB (\<lambda>j y. (Inr (), y @ [j])) (pdb docSys) [] = (res, y')"
    by fastforce
  have "(res, y') = yieldAll (\<lambda>j y. (Inr (), y @ [j])) (docsInOrder (the ([sampleDB \<mapsto>
      \<lparr>aKey = k, aDefs = sampleDefs, aDocs = [sampleID \<mapsto> \<lparr>docJson = sampleJson, docRev = rv\<rparr>]\<rparr>] sampleDB))) []"
    using exportDocs_complete [OF mem_store.store_api_axioms r _ b run] by simp
  then show ?thesis by (simp add: run docsInOrder_def)
qed

end
