(* ===== verification/Path_Pages.thy ===== *)
theory Path_Pages
  imports Path_Scan Cursor_Laws Query_Properties
begin

text \<open>
  Paging through a path query.  Whatever the plan is, a scan or an index, a client that follows
  the cursors gets the matching documents, each exactly once.
\<close>

section \<open>Following cursors\<close>

text \<open>A client that asks for one page after the other with the cursor of the page before.\<close>

fun pathWalk :: "nat \<Rightarrow> (bytes \<Rightarrow> ('db, bytes list \<times> bytes) op) \<Rightarrow> bytes \<Rightarrow> ('db, bytes list) op" where
  "pathWalk 0 fetch cursor = failM []"
| "pathWalk (Suc fuel) fetch cursor =
     bindM (fetch cursor) (\<lambda>(ids, token).
     if token = [] then returnM ids
     else bindM (pathWalk fuel fetch token) (\<lambda>rest. returnM (ids @ rest)))"

text \<open>
  \<open>pos\<close> relates a cursor to the items that lie behind it, \<open>out\<close> is what the client is to see of them;
  a page takes at most twelve bytes of randomness.
\<close>

lemma pathWalk_complete:
  assumes page: "\<And>c L s. pos c L \<Longrightarrow> pdb s = db \<Longrightarrow> 12 \<le> length (entropy (wld s)) \<Longrightarrow>
      \<exists>ids token s'. fetch c s = (Inr (ids, token), s') \<and> pdb s' = db \<and> length (entropy (wld s)) \<le> length (entropy (wld s')) + 12 \<and>
        (if token = [] then ids = out L else \<exists>L'. pos token L' \<and> length L' < length L \<and> out L = ids @ out L')"
    and "pos c L" "pdb s = db" "length L < fuel" "12 * fuel \<le> length (entropy (wld s))"
  shows "fst (pathWalk fuel fetch c s) = Inr (out L)"
  using assms(2-5)
proof (induction fuel arbitrary: c L s)
  case (Suc fuel)
  have "12 \<le> length (entropy (wld s))" using Suc.prems(4) by simp
  from page [OF Suc.prems(1,2) this] obtain ids token s' where
    f: "fetch c s = (Inr (ids, token), s')" "pdb s' = db" "length (entropy (wld s)) \<le> length (entropy (wld s')) + 12"
    "if token = [] then ids = out L else \<exists>L'. pos token L' \<and> length L' < length L \<and> out L = ids @ out L'" by blast
  show ?case
  proof (cases "token = []")
    case False
    with f(4) obtain L' where L': "pos token L'" "length L' < length L" "out L = ids @ out L'" by auto
    have "fst (pathWalk fuel fetch token s') = Inr (out L')"
      using Suc.prems f(2,3) L' by (intro Suc.IH) auto
    then obtain s2 where "pathWalk fuel fetch token s' = (Inr (out L'), s2)" by (metis prod.collapse)
    with f(1) False L'(3) show ?thesis by (simp add: bindM_def returnM_def)
  qed (use f in \<open>simp add: bindM_def returnM_def\<close>)
qed simp

section \<open>Pages of a scan\<close>

lemma behind_mem:
  assumes "m \<in> set (behind c D)" "m \<noteq> []"
  shows "behind m D = filter (\<lambda>x. m < x) (behind c D)"
  using assms by (auto simp: behind_def intro!: filter_cong)

lemma scanPage_last: "\<not> ppMore (scanPage P limit mx L) \<Longrightarrow> ppIDs (scanPage P limit mx L) = filter P L"
  by (auto simp: scanPage_def Let_def split: if_splits)

lemma scanPage_more:
  assumes "ppMore (scanPage P limit mx L)" "sorted_wrt (<) L" "1 \<le> limit" "1 \<le> mx"
  defines "m \<equiv> ppLastID (scanPage P limit mx L)"
  shows "m \<in> set L" "length (filter (\<lambda>x. m < x) L) < length L"
    "filter P L = ppIDs (scanPage P limit mx L) @ filter P (filter (\<lambda>x. m < x) L)"
proof -
  let ?W = "take (nat mx) L" and ?X = "filter P L"
  let ?M = "filter P ?W"
  have X: "?X = ?M @ filter P (drop (nat mx) L)" by (metis append_take_drop_id filter_append)
  have "m \<in> set L \<and> ?X = ppIDs (scanPage P limit mx L) @ filter P (filter (\<lambda>x. m < x) L)"
  proof (cases "limit < int (length ?M)")
    case True
    let ?k = "nat limit"
    have k: "0 < ?k" "?k < length ?M" "?k \<le> length ?X" using True assms(3) X by auto
    have pg: "scanPage P limit mx L = \<lparr>ppIDs = take ?k ?M, ppLastID = last (take ?k ?M), ppMore = True\<rparr>"
      using True by (simp add: scanPage_def Let_def)
    have "m = ?M ! (?k - 1)" using k unfolding m_def pg pathPage.simps by (subst last_conv_nth) (auto simp: min_def)
    also have "\<dots> = ?X ! (?k - 1)" unfolding X nth_append using less_imp_diff_less [OF k(2), of 1] by simp
    finally have m: "m = ?X ! (?k - 1)" .
    have s: "sorted_wrt (<) ?X" using assms(2) by (rule sorted_wrt_filter)
    have "m \<in> set ?X" unfolding m using k by (intro nth_mem) simp
    moreover have "filter P (filter (\<lambda>x. m < x) L) = drop ?k ?X"
      using filter_drop [OF s k(1,3)] unfolding m by (simp add: conj_commute)
    moreover have "take ?k ?M = take ?k ?X" using k by (subst X) simp
    ultimately show ?thesis unfolding pg by simp
  next
    case False
    with assms(1,4) have k: "nat mx < length L" by (simp add: scanPage_def Let_def nat_less_iff)
    with assms(4) have W: "?W \<noteq> []" "0 < nat mx" "nat mx \<le> length L" by auto
    have pg: "scanPage P limit mx L = \<lparr>ppIDs = ?M, ppLastID = last ?W, ppMore = True\<rparr>"
      using False assms(1) W by (auto simp: scanPage_def Let_def)
    have m: "m = L ! (nat mx - 1)" using W k unfolding m_def pg by (simp add: last_conv_nth)
    have "m \<in> set L" unfolding m using k by (intro nth_mem) simp
    moreover have "filter (\<lambda>x. m < x) L = drop (nat mx) L" using filter_drop [OF assms(2) W(2,3)] unfolding m by simp
    ultimately show ?thesis unfolding pg using X by simp
  qed
  then show mem: "m \<in> set L" and "?X = ppIDs (scanPage P limit mx L) @ filter P (filter (\<lambda>x. m < x) L)" by blast+
  from mem show "length (filter (\<lambda>x. m < x) L) < length L" by (intro length_filter_less [of m]) auto
qed

section \<open>One page\<close>

definition nextCursor :: "'db services \<Rightarrow> bytes \<Rightarrow> 'p pathPlan \<Rightarrow> pathQuery \<Rightarrow> bytes \<Rightarrow> bytes \<Rightarrow> bytes \<Rightarrow> pathCursor" where
  "nextCursor E n plan q e lv i =
     \<lparr>pcMethod = queryMethod, pcDialect = dialectJSONPath, pcOrder = planOrder plan, pcDatabase = n,
      pcPathHash = pathHash E (plText plan), pcIndex = plIndex plan, pcOp = pqOp q, pcValue = e, pcLastValue = lv, pcID = i\<rparr>"

lemma pathStart_begin: "pathStart E box n plan (q\<lparr>pqCursor := []\<rparr>) e = Inr ([], [])"
  by (simp add: pathStart_def)

text \<open>
  A page of the items \<open>L\<close>: all of them when it is the last one, otherwise the first of them, and
  the position at its end, which a cursor can hold, has the others behind it.
\<close>

definition pageOf ::
  "(bytes \<Rightarrow> bytes \<Rightarrow> 'i list \<Rightarrow> bool) \<Rightarrow> ('i list \<Rightarrow> bytes list) \<Rightarrow> (bytes \<Rightarrow> bytes \<Rightarrow> bool) \<Rightarrow> bytes \<Rightarrow> 'i list \<Rightarrow>
   (bytes list \<times> bytes \<times> bytes \<times> bool) result \<Rightarrow> bool" where
  "pageOf start out valid index L run \<longleftrightarrow>
     (case run of Inl _ \<Rightarrow> False
      | Inr (ids, aft, lv, hasMore) \<Rightarrow>
        if \<not> hasMore then ids = out L
        else (index \<noteq> [] \<longrightarrow> ids \<noteq> []) \<and> valid lv (if index \<noteq> [] then last ids else aft) \<and>
          (\<exists>L'. start (if index \<noteq> [] then last ids else aft) lv L' \<and> length L' < length L \<and> out L = ids @ out L'))"

locale path_store = store_api E kv "\<lambda>_. False" wk + path_api J
  for E :: "'db services" and kv wk and J :: "'p pathEngine"
begin

lemma cursorKey_rep:
  assumes "rep E wk (kv db) A" "A n = Some a"
  obtains box where "cursorKey E wk n db = Inr box" "length box = 32"
proof -
  have n: "validName n" and k: "length (aKey a) = 32" using assms unfolding rep_def wfState_def wfDB_def by blast+
  then have "databaseKey E wk n db = Inr (aKey a)" using databaseKey_rep [OF assms(1) n] assms(2) by (simp add: okOrFault_none)
  with deriveKey_ok [of "aKey a" cursorInfo] k that show ?thesis
    by (auto simp: cursorKey_def deriveCursorKey_def keySize_def)
qed

lemma execute_last:
  assumes "cursorKey E wk n (pdb s) = Inr box" "length box = 32" "encodeIndexValue (pqValue q) = Inr e"
    "pathStart E box n plan q e = Inr (aft, lv)" "pathRun E J wk ctx n plan q e aft lv (pdb s) = Inr (ids, aft', lv', False)"
  shows "executePathQuery E J wk ctx n plan q s = (Inr (ids, []), s)"
  using assms by (simp add: executePathQuery_def bindM_def readM_def newQueryCipher_def newGCM_def returnM_def)

lemma execute_more:
  assumes "cursorKey E wk n (pdb s) = Inr box" "length box = 32" "encodeIndexValue (pqValue q) = Inr e"
    "pathStart E box n plan q e = Inr (aft, lv)" "pathRun E J wk ctx n plan q e aft lv (pdb s) = Inr (ids, aft', lv', True)"
    "plIndex plan \<noteq> [] \<Longrightarrow> ids \<noteq> []" "i = (if plIndex plan \<noteq> [] then last ids else aft')"
    "isOk (validatePathCursor (nextCursor E n plan q e lv' i))" "12 \<le> length (entropy (wld s))"
  shows "\<exists>token. token \<noteq> [] \<and>
    executePathQuery E J wk ctx n plan q s = (Inr (ids, token), s\<lparr>wld := (wld s)\<lparr>entropy := drop 12 (entropy (wld s))\<rparr>\<rparr>) \<and>
    pathStart E box n plan (q\<lparr>pqCursor := token\<rparr>) e = Inr (i, lv')"
proof -
  let ?c = "nextCursor E n plan q e lv' i" and ?nonce = "take 12 (entropy (wld s))"
  let ?token = "b64Encode (?nonce @ gcmSeal E box ?nonce (pathCursorData ?c) [])"
  have "length ?nonce = 12" "length (pcPathHash ?c) = 32"
    using assms(9) length_sha256 by (simp_all add: nextCursor_def pathHash_def)
  then have dec: "decodePathCursor E box ?token = Inr ?c"
    unfolding decodePathCursor_def maxEncryptedPathCursorSize_def
    using path_token.open_sealed [OF crypto_api_axioms assms(2), of ?nonce ?c] assms(8) by simp
  have ne: "(plIndex plan \<noteq> [] \<and> ids = []) = False" using assms(6) by blast
  from dec have "?token \<noteq> []" by (auto simp: decodePathCursor_def openToken_def)
  moreover have "executePathQuery E J wk ctx n plan q s = (Inr (ids, ?token), s\<lparr>wld := (wld s)\<lparr>entropy := drop 12 (entropy (wld s))\<rparr>\<rparr>)"
    using assms(1-5,7-9) ne by (auto simp: executePathQuery_def bindM_def readM_def newQueryCipher_def newGCM_def returnM_def worldM_def Let_def
        encodePathCursor_def randRead_def gcmNonceLen_def nextCursor_def)
  moreover have "matchPathCursor E ?c n plan (q\<lparr>pqCursor := ?token\<rparr>) e = Inr ()"
    by (simp add: matchPathCursor_def nextCursor_def)
  ultimately show ?thesis using dec
    by (intro exI [of _ ?token]) (simp add: pathStart_def isOk_def nextCursor_def)
qed

lemma cursor_irrelevant [simp]:
  "pathRun E J wk ctx n plan (q\<lparr>pqCursor := c\<rparr>) e = pathRun E J wk ctx n plan q e"
  "nextCursor E n plan (q\<lparr>pqCursor := c\<rparr>) e = nextCursor E n plan q e"
  by (simp_all add: pathRun_def nextCursor_def fun_eq_iff)

text \<open>
  \<open>start\<close> relates a position to the items behind it; a page delivers the first of them, and its
  end is the position of the others.
\<close>

lemma plan_walk:
  assumes r: "rep E wk (kv (pdb s)) A" and a: "A n = Some a" and e: "encodeIndexValue (pqValue q) = Inr e"
    and page: "\<And>aft lv L. start aft lv L \<Longrightarrow> pageOf start out (\<lambda>lv i. isOk (validatePathCursor (nextCursor E n plan q e lv i)))
      (plIndex plan) L (pathRun E J wk ctx n plan q e aft lv (pdb s))"
    and init: "start [] [] L" "length L < fuel" "12 * fuel \<le> length (entropy (wld s))"
  shows "fst (pathWalk fuel (\<lambda>c. executePathQuery E J wk ctx n plan (q\<lparr>pqCursor := c\<rparr>)) [] s) = Inr (out L)"
proof -
  obtain box where box: "cursorKey E wk n (pdb s) = Inr box" "length box = 32" by (rule cursorKey_rep [OF r a])
  let ?pos = "\<lambda>c L. \<exists>aft lv. pathStart E box n plan (q\<lparr>pqCursor := c\<rparr>) e = Inr (aft, lv) \<and> start aft lv L"
  show ?thesis
  proof (rule pathWalk_complete [where pos = ?pos and db = "pdb s" and out = out and L = L])
    fix c L and s1 :: "'db sys"
    assume pos: "?pos c L" and s1: "pdb s1 = pdb s" and w: "12 \<le> length (entropy (wld s1))"
    from pos obtain aft lv where aft: "pathStart E box n plan (q\<lparr>pqCursor := c\<rparr>) e = Inr (aft, lv)" "start aft lv L" by blast
    note st = box(1) [folded s1] box(2)
    from page [OF aft(2)] obtain ids aft' lv' more where run: "pathRun E J wk ctx n plan q e aft lv (pdb s) = Inr (ids, aft', lv', more)"
      and res: "if \<not> more then ids = out L
       else (plIndex plan \<noteq> [] \<longrightarrow> ids \<noteq> []) \<and>
         (\<exists>i L'. i = (if plIndex plan \<noteq> [] then last ids else aft') \<and> isOk (validatePathCursor (nextCursor E n plan q e lv' i)) \<and>
           start i lv' L' \<and> length L' < length L \<and> out L = ids @ out L')"
      unfolding pageOf_def by (auto split: sum.splits prod.splits)
    show "\<exists>ids token s'. executePathQuery E J wk ctx n plan (q\<lparr>pqCursor := c\<rparr>) s1 = (Inr (ids, token), s') \<and> pdb s' = pdb s \<and>
        length (entropy (wld s1)) \<le> length (entropy (wld s')) + 12 \<and>
        (if token = [] then ids = out L else \<exists>L'. ?pos token L' \<and> length L' < length L \<and> out L = ids @ out L')"
    proof (cases more)
      case False
      then have "executePathQuery E J wk ctx n plan (q\<lparr>pqCursor := c\<rparr>) s1 = (Inr (ids, []), s1)"
        using run s1 by (intro execute_last [OF st _ aft(1)]) (simp_all add: e)
      then show ?thesis using s1 res False by auto
    next
      case True
      with res obtain i L' where i: "i = (if plIndex plan \<noteq> [] then last ids else aft')"
        "isOk (validatePathCursor (nextCursor E n plan (q\<lparr>pqCursor := c\<rparr>) e lv' i))"
        "start i lv' L'" "length L' < length L" "out L = ids @ out L'" "plIndex plan \<noteq> [] \<Longrightarrow> ids \<noteq> []" by auto
      from execute_more [OF st _ aft(1) _ i(6,1,2) w, of ctx] run True s1 e obtain token where t: "token \<noteq> []"
        "executePathQuery E J wk ctx n plan (q\<lparr>pqCursor := c\<rparr>) s1 =
          (Inr (ids, token), s1\<lparr>wld := (wld s1)\<lparr>entropy := drop 12 (entropy (wld s1))\<rparr>\<rparr>)"
        "pathStart E box n plan (q\<lparr>pqCursor := token\<rparr>) e = Inr (i, lv')" by auto
      with i(3-5) s1 show ?thesis by (intro exI [of _ ids] exI [of _ token] exI) auto
    qed
  qed (use init in \<open>auto simp: pathStart_begin\<close>)
qed

text \<open>The three kinds of plans.\<close>

lemma scan_walk:
  assumes r: "rep E wk (kv (pdb s)) A" and a: "A n = Some a" and ev: "evaluable a" and ctx: "\<And>k. ctx k = None"
    and limit: "1 \<le> pqLimit q" and op: "cmpValid (pqOp q)" and e: "encodeIndexValue (pqValue q) = Inr e"
    and plan: "plIndex plan = []" and fuel: "card (dom (aDocs a)) < fuel" "12 * fuel \<le> length (entropy (wld s))"
  shows "fst (pathWalk fuel (\<lambda>c. executePathQuery E J wk ctx n plan (q\<lparr>pqCursor := c\<rparr>)) [] s) =
    Inr (sorted_list_of_set (matchIDs J (plPath plan) (pqOp q) e a))"
proof -
  have wf: "wfDB a" and n: "validName n" using r a unfolding rep_def wfState_def by blast+
  then have f: "finite (dom (aDocs a))" by (simp add: wfDB_def)
  let ?D = "sorted_list_of_set (dom (aDocs a))" and ?P = "\<lambda>i. i \<in> matchIDs J (plPath plan) (pqOp q) e a"
  have "fst (pathWalk fuel (\<lambda>c. executePathQuery E J wk ctx n plan (q\<lparr>pqCursor := c\<rparr>)) [] s) = Inr (filter ?P ?D)"
  proof (rule plan_walk [OF r a e, where start = "\<lambda>aft lv L. lv = [] \<and> L = behind aft ?D" and out = "filter ?P"])
    fix aft lv :: bytes and L
    assume "lv = [] \<and> L = behind aft ?D"
    then have st: "lv = []" "L = behind aft ?D" by blast+
    let ?pg = "scanPage ?P (pqLimit q) maxScanDocs L" and ?m = "ppLastID (scanPage ?P (pqLimit q) maxScanDocs L)"
    have L: "sorted_wrt (<) L" "set L \<subseteq> dom (aDocs a)" using f unfolding st(2) behind_def
      by (auto simp: strict_sorted_iff sorted_wrt_filter)
    have run: "pathRun E J wk ctx n plan q e aft lv (pdb s) = Inr (ppIDs ?pg, ppLastID ?pg, [], ppMore ?pg)"
      using queryPathDocs_rep [OF r a ev ctx limit _ e, where mx = maxScanDocs and J = J and p = "plPath plan" and op = "pqOp q" and afterID = aft]
        plan st by (simp add: pathRun_def okOrFault_none spec_queryPath_def maxScanDocs_def)
    have "if \<not> ppMore ?pg then ppIDs ?pg = filter ?P L
      else isOk (validatePathCursor (nextCursor E n plan q e [] ?m)) \<and> length (behind ?m ?D) < length L \<and>
        filter ?P L = ppIDs ?pg @ filter ?P (behind ?m ?D)"
    proof (cases "ppMore ?pg")
      case True
      have "1 \<le> maxScanDocs" by (simp add: maxScanDocs_def)
      note m = scanPage_more [OF True L(1) limit this]
      have id: "validID ?m" using m(1) L(2) wf by (auto simp: wfDB_def)
      have "isOk (validatePathCursor (nextCursor E n plan q e [] ?m))"
        using n op plan id encodeIndexValue_valid [OF e]
        by (simp add: validatePathCursor_def nextCursor_def planOrder_def orderDocument_def orderIndex_def isOk_def)
      moreover have "behind ?m ?D = filter (\<lambda>x. ?m < x) L"
        using behind_mem [of ?m aft ?D] m(1) validID_ne [OF id] st(2) by simp
      ultimately show ?thesis using m True by simp
    qed (simp add: scanPage_last)
    then show "pageOf (\<lambda>aft lv L. lv = [] \<and> L = behind aft ?D) (filter ?P)
      (\<lambda>lv i. isOk (validatePathCursor (nextCursor E n plan q e lv i))) (plIndex plan) L (pathRun E J wk ctx n plan q e aft lv (pdb s))"
      unfolding pageOf_def run plan sum.case prod.case by (simp only: simp_thms if_False)
  qed (use fuel f in auto)
  also have "filter ?P ?D = sorted_list_of_set (matchIDs J (plPath plan) (pqOp q) e a)"
    using f finite_matchIDs [OF wf, of J "plPath plan" "pqOp q" e] matchIDs_dom [of _ J "plPath plan" "pqOp q" e a]
    by (intro sorted_distinct_set_unique) (auto simp: sorted_wrt_filter)
  finally show ?thesis .
qed

lemma eq_walk:
  assumes r: "rep E wk (kv (pdb s)) A" and a: "A n = Some a" and ctx: "\<And>k. ctx k = None"
    and limit: "1 \<le> pqLimit q" and op: "pqOp q = cmpEq" and e: "encodeIndexValue (pqValue q) = Inr e"
    and plan: "plIndex plan = x" "findIndex (aDefs a) x \<noteq> None" "validName x"
    and fuel: "card (eqIDs a x e) < fuel" "12 * fuel \<le> length (entropy (wld s))"
  shows "fst (pathWalk fuel (\<lambda>c. executePathQuery E J wk ctx n plan (q\<lparr>pqCursor := c\<rparr>)) [] s) = Inr (sorted_list_of_set (eqIDs a x e))"
proof -
  have wf: "wfDB a" and n: "validName n" using r a unfolding rep_def wfState_def by blast+
  have f: "finite (eqIDs a x e)" by (rule finite_eqIDs [OF wf])
  have ids: "validID i" if "i \<in> eqIDs a x e" for i using that idxPairs_valid(2) [OF wf] by (auto simp: eqIDs_def)
  have x: "x \<noteq> []" using plan(3) by (auto simp: validateName_def split: if_splits)
  let ?D = "sorted_list_of_set (eqIDs a x e)"
  have D: "sorted ?D" "distinct ?D" "[] \<notin> set ?D" using f ids [of "[]"] validID_ne [of "[]"] by auto
  show ?thesis
  proof (rule plan_walk [OF r a e, where start = "\<lambda>aft lv L. lv = [] \<and> L = behind aft ?D" and out = "\<lambda>L. L"])
    fix aft lv :: bytes and L
    assume "lv = [] \<and> L = behind aft ?D"
    then have st: "lv = []" "L = behind aft ?D" by blast+
    let ?ids = "take (nat (pqLimit q)) L" and ?m = "last (take (nat (pqLimit q)) L)"
    have run: "pathRun E J wk ctx n plan q e aft lv (pdb s) = Inr (?ids, aft, [], pqLimit q < int (length L))"
      using queryDocsCtx_rep [OF r n plan(3) ctx, where limit = "pqLimit q" and v = e and cursor = aft] limit op plan x st a encodeIndexValue_valid [OF e]
      by (simp add: pathRun_def okOrFault_none spec_queryDocs_def page_def)
    have "if \<not> pqLimit q < int (length L) then ?ids = L
      else ?ids \<noteq> [] \<and> isOk (validatePathCursor (nextCursor E n plan q e [] ?m)) \<and> length (behind ?m ?D) < length L \<and> L = ?ids @ behind ?m ?D"
    proof (cases "pqLimit q < int (length L)")
      case True
      have ne: "?ids \<noteq> []" using True limit by auto
      then have "?m \<in> set L" by (meson in_set_takeD last_in_set)
      then have id: "validID ?m" using ids f st(2) by (auto simp: behind_def)
      have "isOk (validatePathCursor (nextCursor E n plan q e [] ?m))"
        using n op plan x id encodeIndexValue_valid [OF e] cmpValid_cases [of cmpEq]
        by (simp add: validatePathCursor_def nextCursor_def planOrder_def orderDocument_def orderIndex_def isOk_def)
      moreover have "behind ?m ?D = drop (nat (pqLimit q)) L" using behind_next [OF D limit, of aft] True st(2) by simp
      ultimately show ?thesis using True ne limit by simp
    qed simp
    with plan(1) x limit show "pageOf (\<lambda>aft lv L. lv = [] \<and> L = behind aft ?D) (\<lambda>L. L)
      (\<lambda>lv i. isOk (validatePathCursor (nextCursor E n plan q e lv i))) (plIndex plan) L (pathRun E J wk ctx n plan q e aft lv (pdb s))"
      unfolding pageOf_def run by auto
  qed (use fuel f in auto)
qed

lemma range_walk:
  assumes r: "rep E wk (kv (pdb s)) A" and a: "A n = Some a" and ctx: "\<And>k. ctx k = None"
    and limit: "1 \<le> pqLimit q" and op: "cmpValid (pqOp q)" "pqOp q \<noteq> cmpEq"
    and e: "encodeIndexValue (pqValue q) = Inr e" "e ! 0 = 0x03 \<or> e ! 0 = 0x04"
    and plan: "plIndex plan = x" "findIndex (aDefs a) x \<noteq> None" "validName x"
    and fuel: "card (rangePairs a x (pqOp q) e) < fuel" "12 * fuel \<le> length (entropy (wld s))"
  shows "fst (pathWalk fuel (\<lambda>c. executePathQuery E J wk ctx n plan (q\<lparr>pqCursor := c\<rparr>)) [] s) =
    Inr (map snd (sorted_list_of_set (rangePairs a x (pqOp q) e)))"
proof -
  have wf: "wfDB a" and n: "validName n" using r a unfolding rep_def wfState_def by blast+
  let ?R = "rangePairs a x (pqOp q) e"
  have f: "finite ?R" by (rule finite_subset [OF _ finite_idxPairs [OF wf, of x]]) (auto simp: rangePairs_def)
  have ids: "validIndexValue v" "v ! 0 = e ! 0" "validID i" if "(v, i) \<in> ?R" for v i
    using that idxPairs_valid(1,2) [OF wf, of v i x] by (auto simp: rangePairs_def)
  have x: "x \<noteq> []" using plan(3) by (auto simp: validateName_def split: if_splits)
  let ?D = "sorted_list_of_set ?R" and ?k = "nat (pqLimit q)"
  let ?start = "\<lambda>aft lv L. L = behindPair lv aft ?D \<and> (lv = [] \<longrightarrow> aft = []) \<and>
    (lv \<noteq> [] \<longrightarrow> validIndexValue lv \<and> lv ! 0 = e ! 0 \<and> validID aft)"
  show ?thesis
  proof (rule plan_walk [OF r a e(1), where start = ?start and out = "map snd"])
    fix aft lv :: bytes and L
    assume "?start aft lv L"
    then have st: "L = behindPair lv aft ?D" "lv = [] \<Longrightarrow> aft = []" "lv \<noteq> [] \<Longrightarrow> validIndexValue lv \<and> lv ! 0 = e ! 0 \<and> validID aft" by blast+
    obtain v i where m: "L ! (?k - 1) = (v, i)" by fastforce
    have run: "pathRun E J wk ctx n plan q e aft lv (pdb s) =
        Inr (pageIDs (rangePage (pqLimit q) L), aft, lastValue (rangePage (pqLimit q) L), pageMore (rangePage (pqLimit q) L))"
      using queryRangePage_rep [OF r n plan(3) ctx limit st(2), where op = "pqOp q" and e = e] op e(2) plan x st a encodeIndexValue_valid [OF e(1)]
      by (auto simp: pathRun_def okOrFault_none spec_queryRange_def)
    have "if \<not> pqLimit q < int (length L) then rangePage (pqLimit q) L = \<lparr>pageIDs = map snd L, lastValue = [], pageMore = False\<rparr>
      else rangePage (pqLimit q) L = \<lparr>pageIDs = take ?k (map snd L), lastValue = v, pageMore = True\<rparr> \<and> take ?k (map snd L) \<noteq> [] \<and>
        last (take ?k (map snd L)) = i \<and> isOk (validatePathCursor (nextCursor E n plan q e v i)) \<and>
        (\<exists>L'. ?start i v L' \<and> length L' < length L \<and> map snd L = take ?k (map snd L) @ map snd L')"
    proof (cases "pqLimit q < int (length L)")
      case True
      have k: "0 < ?k" "?k \<le> length L" "?k - 1 < length L" "?k < length L" using True limit by auto
      have mem: "(v, i) \<in> ?R" using nth_mem [OF k(3)] m f st(1) by (auto simp: behindPair_def)
      note vi = ids [OF mem]
      have v: "v \<noteq> []" using validIndexValue_ne [OF vi(1)] .
      have sorted: "sorted_wrt (<) L" using f unfolding st(1) behindPair_def by (simp add: strict_sorted_iff sorted_wrt_filter)
      have last: "last (take ?k (map snd L)) = i" using k m by (subst last_conv_nth) (auto simp: min_def)
      have "behindPair v i ?D = filter (\<lambda>p. (v, i) < p) L"
        using nth_mem [OF k(3)] v unfolding st(1) behindPair_def m [unfolded st(1) behindPair_def]
        by (auto intro!: filter_cong)
      also have "\<dots> = drop ?k L" using filter_drop [OF sorted k(1,2)] unfolding m .
      finally have nxt: "behindPair v i ?D = drop ?k L" .
      have "isOk (validatePathCursor (nextCursor E n plan q e v i))"
        using n op plan x vi encodeIndexValue_valid [OF e(1)]
        by (simp add: validatePathCursor_def nextCursor_def planOrder_def orderDocument_def orderIndex_def isOk_def)
      moreover have "rangePage (pqLimit q) L = \<lparr>pageIDs = take ?k (map snd L), lastValue = v, pageMore = True\<rparr>"
        using True m limit by (simp add: rangePage_def nat_diff_distrib')
      moreover have "?start i v (drop ?k L)" using nxt v vi by simp
      moreover have "length (drop ?k L) < length L" "map snd L = take ?k (map snd L) @ map snd (drop ?k L)"
        using k by (simp_all add: drop_map [symmetric])
      moreover have "take ?k (map snd L) \<noteq> []" using k by auto
      ultimately show ?thesis using True last by (simp only: if_False simp_thms) blast
    qed (simp add: rangePage_def)
    with run plan(1) x show "pageOf ?start (map snd) (\<lambda>lv i. isOk (validatePathCursor (nextCursor E n plan q e lv i)))
      (plIndex plan) L (pathRun E J wk ctx n plan q e aft lv (pdb s))"
      unfolding pageOf_def run by (cases "pqLimit q < int (length L)") auto
  qed (use fuel f in \<open>auto simp: behindPair_def\<close>)
qed

section \<open>Any plan\<close>

lemma plan_kinds:
  assumes "rep E wk (kv db) A" "A n = Some a" "planPathQuery E J wk n raw db = Inr plan"
  obtains (scan) "plIndex plan = []"
    | (index) def where "def \<in> set (aDefs a)" "plIndex plan = idxName def" "validName (idxName def)"
      "jsonPathPointer (jpSegments J (plPath plan)) = Some (idxPath def)" "findIndex (aDefs a) (idxName def) \<noteq> None"
proof -
  have vd: "validDefs (aDefs a)" using assms(1,2) unfolding rep_def wfState_def wfDB_def by blast
  from assms(3) obtain path where p: "plPath plan = path" and
    i: "(case jsonPathPointer (jpSegments J path) of
           None \<Rightarrow> Inr \<lparr>plPath = path, plText = jpString J path, plIndex = []\<rparr>
         | Some pointer \<Rightarrow>
           bindE (indexes E n db) (\<lambda>defs.
           case find (\<lambda>def. idxPath def = pointer) defs of
             None \<Rightarrow> Inr \<lparr>plPath = path, plText = jpString J path, plIndex = []\<rparr>
           | Some def \<Rightarrow> Inr (\<lparr>plPath = path, plText = jpString J path, plIndex = []\<rparr>\<lparr>plIndex := idxName def\<rparr>))) = Inr plan"
    unfolding planPathQuery_def Let_def
    by (auto simp: bindE_Inr_iff split: option.splits if_splits)
  have ix: "indexes E n db = Inr (aDefs a)" using indexes_rep [OF assms(1,2)] by (simp add: okOrFault_none)
  show ?thesis
  proof (cases "jsonPathPointer (jpSegments J path)")
    case None
    with i scan show ?thesis by auto
  next
    case (Some pointer)
    show ?thesis
    proof (cases "find (\<lambda>def. idxPath def = pointer) (aDefs a)")
      case None
      with i Some ix scan show ?thesis by auto
    next
      case d: (Some def)
      then have "def \<in> set (aDefs a)" "idxPath def = pointer" by (auto simp: find_Some_iff)
      moreover from this findIndex_iff [OF vd, of "idxName def"] have "findIndex (aDefs a) (idxName def) \<noteq> None" by auto
      moreover from vd calculation(1) have "validName (idxName def)" by (auto simp: validDefs_def validDef_def)
      ultimately show ?thesis using i Some d ix p index by auto
    qed
  qed
qed

lemma path_walk:
  assumes r: "rep E wk (kv (pdb s)) A" and a: "A n = Some a" and ev: "evaluable a" and ctx: "\<And>k. ctx k = None"
    and limit: "1 \<le> pqLimit q" and op: "cmpValid (pqOp q)" "pqOp q \<noteq> cmpEq \<Longrightarrow> isOrdered (pqValue q)"
    and e: "encodeIndexValue (pqValue q) = Inr e" and plan: "planPathQuery E J wk n raw (pdb s) = Inr plan"
    and fuel: "card (dom (aDocs a)) < fuel" "12 * fuel \<le> length (entropy (wld s))"
  shows "\<exists>ids. fst (pathWalk fuel (\<lambda>c. executePathQuery E J wk ctx n plan (q\<lparr>pqCursor := c\<rparr>)) [] s) = Inr ids \<and>
    distinct ids \<and> set ids = matchIDs J (plPath plan) (pqOp q) e a \<and> (plIndex plan = [] \<or> pqOp q = cmpEq \<longrightarrow> sorted ids)"
proof -
  have wf: "wfDB a" using r a unfolding rep_def wfState_def by blast
  note fm = finite_matchIDs [OF wf, of J "plPath plan" "pqOp q" e]
  have le: "card (matchIDs J (plPath plan) (pqOp q) e a) < fuel"
  proof -
    have "matchIDs J (plPath plan) (pqOp q) e a \<subseteq> dom (aDocs a)" by (auto simp: matchIDs_def)
    then show ?thesis using card_mono [of "dom (aDocs a)"] wf fuel(1) unfolding wfDB_def by (meson le_less_trans)
  qed
  show ?thesis
  proof (cases rule: plan_kinds [OF r a plan])
    case 1
    then show ?thesis using scan_walk [OF r a ev ctx limit op(1) e 1 fuel] fm by simp
  next
    case (2 def)
    show ?thesis
    proof (cases "pqOp q = cmpEq")
      case True
      have m: "matchIDs J (plPath plan) (pqOp q) e a = eqIDs a (idxName def) e" unfolding True by (rule matchIDs_eq [OF wf 2(4,1)])
      show ?thesis using eq_walk [OF r a ctx limit True e 2(2,5,3) le [unfolded m] fuel(2)] fm m by simp
    next
      case False
      have v: "e ! 0 = 0x03 \<or> e ! 0 = 0x04"
        using op(2) [OF False] e by (auto simp: isOrdered_def encodeIndexValue_def result_simps split: json.splits option.splits if_splits)
      note m = matchIDs_range [OF wf 2(4,1) op(1) False, of e]
      have c: "card (rangePairs a (idxName def) (pqOp q) e) < fuel" using le unfolding m(1) card_image [OF m(2)] .
      have f: "finite (rangePairs a (idxName def) (pqOp q) e)" using fm m by (metis finite_imageD)
      show ?thesis
        using range_walk [OF r a ctx limit op(1) False e v 2(2,5,3) c fuel(2)] f m False 2(2,3)
        by (auto simp: distinct_map validateName_def split: if_splits)
    qed
  qed
qed

end

end
