(* ===== verification/Path_Properties.thy ===== *)
theory Path_Properties
  imports Path_Pages
begin

text \<open>
  The properties of path queries, for every implementation of the services and of the JSONPath
  package that satisfies the documented laws, and their witnesses on reference implementations.
\<close>

section \<open>A reference JSONPath package\<close>

text \<open>Paths of lower-case member names, as in \<open>$.a.b\<close>.\<close>

definition memParse :: "bytes \<Rightarrow> bytes list option" where
  "memParse raw =
     (case raw of
        c # d # t \<Rightarrow>
          if c = 36 \<and> d = 46 \<and> list_all (\<lambda>n. n \<noteq> [] \<and> list_all (\<lambda>b. 97 \<le> b \<and> b \<le> 122) n) (splitByte 46 t)
          then Some (splitByte 46 t) else None
      | _ \<Rightarrow> None)"

definition memPaths :: "bytes list pathEngine" where
  "memPaths =
     \<lparr>jpParse = memParse, jpString = (\<lambda>ns. 36 # concat (map (\<lambda>n. 46 # n) ns)), jpSegments = map child,
      jpSelect = (\<lambda>ns v. case nameWalk v ns of None \<Rightarrow> [] | Some x \<Rightarrow> [x])\<rparr>"

lemma safePath_plain:
  "list_all (\<lambda>c. c \<noteq> 93 \<and> c \<noteq> 41 \<and> c \<noteq> 44) path \<Longrightarrow> isOk (safePath_loop quote escaped ds k prev path)"
  by (induction quote escaped ds k prev path rule: safePath_loop.induct) (auto simp: isOk_def)

interpretation mem_path_api: path_api memPaths
proof -
  have "inj child" by (auto simp: inj_def child_def)
  then have "names = ns" if "map child ns = map child names" for ns names using that by (simp add: inj_map_eq_map)
  then have sel: "jpSelect memPaths p v = (case nameWalk v names of None \<Rightarrow> [] | Some x \<Rightarrow> [x])"
    if "jpSegments memPaths p = map child names" for p v names
  proof -
    from that have "names = p" by (intro \<open>\<And>ns names. map child ns = map child names \<Longrightarrow> names = ns\<close>) (simp add: memPaths_def)
    then show ?thesis by (simp add: memPaths_def)
  qed
  have bal: "isOk (safePath (jpString memPaths p))" if "jpParse memPaths raw = Some p" for raw p
  proof -
    have "list_all (list_all (\<lambda>b. 97 \<le> b \<and> b \<le> 122)) p"
      using that by (auto simp: memPaths_def memParse_def list_all_iff split: list.splits if_splits)
    then have "list_all (\<lambda>c. c \<noteq> 93 \<and> c \<noteq> 41 \<and> c \<noteq> 44) (jpString memPaths p)"
      by (fastforce simp: memPaths_def list_all_iff)
    then show ?thesis unfolding safePath_def by (rule safePath_plain)
  qed
  show "path_api memPaths" by (intro path_api.intro sel bal)
qed

interpretation mem_paths: path_store memServices map_of memKey memPaths ..

section \<open>Queries that are accepted\<close>

lemma decodeField_op: "decodeField name q s = Some (q', r) \<Longrightarrow> cmpValid (pqOp q) \<Longrightarrow> cmpValid (pqOp q')"
  by (auto simp: decodeField_def parseCmpOp_def cmpValid_cases split: if_splits option.splits dest!: map_of_SomeD)

lemma decodePathQuery_loop_cases:
  assumes "decodePathQuery_loop q seen first s = Some (q', seen', r)"
  shows "q' = q \<or> (\<exists>name w query x. length x < length s \<and> decodeField name q w = Some (query, x) \<and>
    decodePathQuery_loop query (name # seen) False x = Some (q', seen', r))"
proof (cases "skipSpace s")
  case Nil
  with assms show ?thesis by (subst (asm) decodePathQuery_loop.simps) simp
next
  case (Cons c t)
  show ?thesis
  proof (cases "c = 125")
    case True
    with assms Cons show ?thesis by (subst (asm) decodePathQuery_loop.simps) simp
  next
    case False
    let ?u = "if first then c # t else if c = 44 then skipSpace t else []"
    from assms Cons False obtain k u' name v d w query x where
      steps: "?u = k # u'" "unquote u' = Some (name, v)" "skipSpace v = d # w" "decodeField name q w = Some (query, x)"
      "decodePathQuery_loop query (name # seen) False x = Some (q', seen', r)"
      by (subst (asm) decodePathQuery_loop.simps) (simp split: list.splits if_splits option.splits prod.splits)
    have "length u' < length s"
      using steps(1) skipSpace_Cons [OF Cons] length_skipSpace [of t] by (auto split: if_splits)
    moreover note unquote_shorter [OF steps(2)] skipSpace_Cons [OF steps(3)] decodeField_shorter [OF steps(4)]
    ultimately have "length x < length s" by simp
    with steps show ?thesis by blast
  qed
qed

lemma decodePathQuery_loop_op:
  "decodePathQuery_loop q seen first s = Some (q', seen', r) \<Longrightarrow> cmpValid (pqOp q) \<Longrightarrow> cmpValid (pqOp q')"
proof (induction "length s" arbitrary: q seen first s rule: less_induct)
  case less
  from decodePathQuery_loop_cases [OF less.prems(1)] less.prems(2) less.hyps decodeField_op show ?case by blast
qed

lemma decodePathQuery_valid:
  assumes "decodePathQuery body = Inr q"
  shows "1 \<le> pqLimit q" "pqLimit q \<le> maxListLimit" "cmpValid (pqOp q)" "isScalar (pqValue q)"
    "pqOp q \<noteq> cmpEq \<Longrightarrow> isOrdered (pqValue q)" "pqPath q \<noteq> []"
proof -
  let ?q = "\<lparr>pqPath = [], pqValue = JNull, pqCursor = [], pqOp = cmpEq, pqLimit = defaultListLimit\<rparr>"
  from assms obtain r seen rest where loop: "decodePathQuery_loop ?q [] True r = Some (q, seen, rest)"
    and q: "pqPath q \<noteq> [] \<and> 1 \<le> pqLimit q \<and> pqLimit q \<le> maxListLimit \<and> isScalar (pqValue q) \<and> (pqOp q = cmpEq \<or> isOrdered (pqValue q))"
    unfolding decodePathQuery_def by (auto simp: bindE_Inr_iff split: list.splits if_splits option.splits)
  from decodePathQuery_loop_op [OF loop] show "cmpValid (pqOp q)" by (simp add: cmpValid_cases)
  from q show "1 \<le> pqLimit q" "pqLimit q \<le> maxListLimit" "isScalar (pqValue q)"
    "pqOp q \<noteq> cmpEq \<Longrightarrow> isOrdered (pqValue q)" "pqPath q \<noteq> []" by blast+
qed

section \<open>Properties\<close>

text \<open>
  C15: path queries are complete whatever the plan.  For an accepted query on a path that was planned,
  a client that follows the cursors gets every document in which the path selects a value that
  satisfies the comparison, and no other, each exactly once, and stops; the plan, a scan of the
  documents or an index, changes at most the order.  The cursors are decrypted and checked on
  the way.  Pebble reports no faults, the context is not cancelled, there is randomness to seal the
  cursors, and the documents are small enough to be evaluated.
\<close>

theorem pathQuery_pages_complete:
  assumes "store_api E kv (\<lambda>_. False) wk" "path_api J" "rep E wk (kv (pdb s)) A" "A n = Some a" "evaluable a"
    "\<And>k. ctx k = None" "decodePathQuery body = Inr q" "encodeIndexValue (pqValue q) = Inr e"
    "planPathQuery E J wk n (pqPath q) (pdb s) = Inr plan"
    "card (dom (aDocs a)) < fuel" "12 * fuel \<le> length (entropy (wld s))"
  shows "\<exists>ids. fst (pathWalk fuel (\<lambda>cursor. executePathQuery E J wk ctx n plan (q\<lparr>pqCursor := cursor\<rparr>)) [] s) = Inr ids \<and>
    distinct ids \<and> set ids = matchIDs J (plPath plan) (pqOp q) e a \<and> (plIndex plan = [] \<or> pqOp q = cmpEq \<longrightarrow> sorted ids)"
  by (rule path_store.path_walk [OF path_store.intro [OF assms(1,2)] assms(3-6) decodePathQuery_valid(1,3,5) [OF assms(7)] assms(8-11)])

definition sampleQuery :: bytes where
  "sampleQuery = str ''{\"path\":\"$.n\",\"op\":\"ge\",\"value\":1,\"limit\":1}''"

lemma sample_pathQuery:
  "decodePathQuery sampleQuery = Inr \<lparr>pqPath = str ''$.n'', pqValue = JNum (str ''1''), pqCursor = [], pqOp = cmpGE, pqLimit = 1\<rparr>"
  "encodeIndexValue (JNum (str ''1'')) = Inr sampleValue"
  "validatePathText (str ''$.n'') = Inr ()" "memParse (str ''$.n'') = Some [str ''n'']"
  "safePath (str ''$.n'') = Inr True" "jsonPathPointer [child (str ''n'')] = Some (str ''/n'')"
  "jsonDecode sampleJson = Some (JObj [(str ''n'', JNum (str ''1''))], [])"
  "matchesValue cmpGE sampleValue (JNum (str ''1''))"
  by code_simp+

lemma sample_plan:
  assumes "rep memServices memKey (map_of (pdb docSys)) A" "A sampleDB = Some a" "aDefs a = sampleDefs"
  shows "planPathQuery memServices memPaths memKey sampleDB (str ''$.n'') (pdb docSys) =
    Inr \<lparr>plPath = [str ''n''], plText = str ''$.n'', plIndex = str ''n''\<rparr>"
proof -
  have h: "hasDB memServices memKey sampleDB (pdb docSys) = Inr True"
    using store_api.present [OF mem_store.store_api_axioms assms(1,2)] by (simp add: okOrFault_none)
  have i: "indexes memServices sampleDB (pdb docSys) = Inr sampleDefs"
    using store_api.indexes_rep [OF mem_store.store_api_axioms assms(1,2)] assms(3) by (simp add: okOrFault_none)
  have t: "36 # concat (map (\<lambda>n. 46 # n) [str ''n'']) = str ''$.n''" by code_simp
  show ?thesis
    by (simp add: planPathQuery_def sample_pathQuery memPaths_def t [simplified] h i maxPathSegments_def sampleDefs_def)
qed

theorem pathQuery_pages_complete_witness:
  "fst (pathWalk 2 (\<lambda>cursor. executePathQuery memServices memPaths memKey background sampleDB
      \<lparr>plPath = [str ''n''], plText = str ''$.n'', plIndex = str ''n''\<rparr>
      \<lparr>pqPath = str ''$.n'', pqValue = JNum (str ''1''), pqCursor = cursor, pqOp = cmpGE, pqLimit = 1\<rparr>) [] docSys) = Inr [sampleID]"
proof -
  obtain k rv where r: "rep memServices memKey (map_of (pdb docSys))
     [sampleDB \<mapsto> \<lparr>aKey = k, aDefs = sampleDefs, aDocs = [sampleID \<mapsto> \<lparr>docJson = sampleJson, docRev = rv\<rparr>]\<rparr>]"
    (is "rep _ _ _ [_ \<mapsto> ?a]") using sample_doc by blast
  have b: "background j = None" for j by (simp add: background_def)
  have ev: "evaluable ?a"
    by (auto simp: evaluable_def sample_pathQuery nodes.simps maxQueryNodes_def)
  have m: "matchIDs memPaths [str ''n''] cmpGE sampleValue ?a = {sampleID}"
    by (auto simp: matchIDs_def docMatches_def sample_pathQuery memPaths_def)
  have w: "12 * 2 \<le> length (entropy (wld docSys))" by (simp add: docSys_def sampleWorld_def)
  have "card (dom (aDocs ?a)) < 2" by simp
  from pathQuery_pages_complete [OF mem_store.store_api_axioms mem_path_api.path_api_axioms r _ ev _ sample_pathQuery(1),
      where ctx = background and n = sampleDB and e = sampleValue and fuel = 2 and
      plan = "\<lparr>plPath = [str ''n''], plText = str ''$.n'', plIndex = str ''n''\<rparr>"] b sample_plan [OF r] w this sample_pathQuery(2)
  obtain ids where "fst (pathWalk 2 (\<lambda>cursor. executePathQuery memServices memPaths memKey background sampleDB
      \<lparr>plPath = [str ''n''], plText = str ''$.n'', plIndex = str ''n''\<rparr>
      \<lparr>pqPath = str ''$.n'', pqValue = JNum (str ''1''), pqCursor = cursor, pqOp = cmpGE, pqLimit = 1\<rparr>) [] docSys) = Inr ids"
    "distinct ids" "set ids = {sampleID}" by (auto simp: m)
  moreover from this(2,3) have "ids = [sampleID]"
    by (metis distinct_card card.insert card.empty finite.emptyI empty_iff length_Suc_conv One_nat_def list.size(3) length_0_conv list.set(2) singleton_iff insertI1 list.set_intros(1))
  ultimately show ?thesis by simp
qed

text \<open>
  C26: the evaluation of a path is bounded.  Before a path is applied to a document, its values are
  counted with one look at the context each; the document is refused exactly when it has more of
  them than the limit, and the count ends after all of them otherwise.
\<close>

theorem checkQueryNodes_bound:
  assumes "\<And>k. ctx k = None"
  shows "checkQueryNodes ctx i v limit = (if int (nodes v) \<le> limit then Inr (i + nodes v) else Inl [ErrQueryLimit])"
  by (rule checkQueryNodes_count [OF assms])

theorem checkQueryNodes_bound_witness:
  "checkQueryNodes background 0 (JArr [JNull, JObj [(str ''a'', JNull)]]) 3 = Inl [ErrQueryLimit]"
  using checkQueryNodes_bound [of background 0 "JArr [JNull, JObj [(str ''a'', JNull)]]" 3]
  by (simp add: background_def nodes.simps)

text \<open>
  C29: a query body that is accepted is well-formed: its path is not empty, its limit is within the
  bounds of a page, its value is a scalar, its operator is one of the five, and an operator other
  than equality comes with a value that has an order.
\<close>

theorem decodePathQuery_wellformed:
  assumes "decodePathQuery body = Inr q"
  shows "pqPath q \<noteq> [] \<and> 1 \<le> pqLimit q \<and> pqLimit q \<le> 1000 \<and> isScalar (pqValue q) \<and> cmpValid (pqOp q) \<and>
    (pqOp q = cmpEq \<or> isOrdered (pqValue q))"
  using decodePathQuery_valid [OF assms] by (auto simp: maxListLimit_def)

theorem decodePathQuery_wellformed_witness:
  "decodePathQuery sampleQuery = Inr \<lparr>pqPath = str ''$.n'', pqValue = JNum (str ''1''), pqCursor = [], pqOp = cmpGE, pqLimit = 1\<rparr> \<and>
     cmpValid cmpGE"
  using decodePathQuery_wellformed [OF sample_pathQuery(1)] sample_pathQuery(1) by simp

end
