(* ===== verification/Api_Docs.thy ===== *)
theory Api_Docs
  imports Api_Laws Route_Laws Path_Properties Store_Properties
begin

text \<open>
  The resource of a document over HTTP: how the requests for it are routed, and what the handlers
  answer and store when Pebble does not fail.
\<close>

section \<open>The path of a document\<close>

definition docPath :: "bytes \<Rightarrow> bytes \<Rightarrow> bytes" where
  "docPath n i = [47] @ dbSeg @ [47] @ n @ [47] @ i"

definition forDoc :: "bytes \<Rightarrow> bytes \<Rightarrow> request \<Rightarrow> bool" where
  "forDoc n i r \<longleftrightarrow> urlPath r = docPath n i \<and> escapedPath r = docPath n i"

definition plainSeg :: "bytes \<Rightarrow> bool" where
  "plainSeg s \<longleftrightarrow> s \<noteq> [] \<and> 47 \<notin> set s \<and> 37 \<notin> set s \<and> 46 \<notin> set s"

lemma validName_plain: "validName n \<Longrightarrow> plainSeg n"
  using validName_length [of n] validName_chars [of n 47] validName_chars [of n 37] validName_chars [of n 46]
  by (auto simp: plainSeg_def validNameChar_def)

lemma validID_plain: "validID i \<Longrightarrow> plainSeg i"
proof -
  assume i: "validID i"
  have "c = 45 \<or> lowerHex c" if "c \<in> set i" for c
  proof -
    from that obtain k where "k < length i" "i ! k = c" by (auto simp: in_set_conv_nth)
    with i show ?thesis unfolding validateID_iff by (cases "k \<in> {8, 13, 18, 23}") auto
  qed
  then have "c \<noteq> 47 \<and> c \<noteq> 37 \<and> c \<noteq> 46" if "c \<in> set i" for c using that by (fastforce simp: lowerHex_def)
  with validID_ne [OF i] show ?thesis by (auto simp: plainSeg_def)
qed

lemma dbSeg_plain: "plainSeg dbSeg"
  unfolding plainSeg_def by code_simp

lemma pathUnescape_plain: "37 \<notin> set s \<Longrightarrow> pathUnescape s = s"
proof -
  have "37 \<notin> set s \<Longrightarrow> percentDecode s = Some s" for s by (induction s) auto
  then show "37 \<notin> set s \<Longrightarrow> ?thesis" by (simp add: pathUnescape_def)
qed

lemma hasPair_plain: "47 \<notin> set s \<Longrightarrow> s \<noteq> [] \<Longrightarrow> hasPair 47 47 (s @ 47 # t) = hasPair 47 47 (47 # t)"
proof (induction s)
  case (Cons c s)
  then show ?case by (cases s) auto
qed simp

lemma hasPair_end: "47 \<notin> set s \<Longrightarrow> \<not> hasPair 47 47 s"
proof (induction s)
  case (Cons c s)
  then show ?case by (cases s) auto
qed simp

lemma hasPair_slash: "47 \<notin> set s \<Longrightarrow> s \<noteq> [] \<Longrightarrow> hasPair 47 47 (47 # s @ t) = hasPair 47 47 (s @ t)"
  by (cases s) auto

lemma splitByte_docPath:
  assumes "plainSeg n" "plainSeg i"
  shows "splitByte 47 (docPath n i) = [[], dbSeg, n, i]" "splitByte 47 (drop 1 (docPath n i)) = [dbSeg, n, i]"
  using assms dbSeg_plain by (simp_all add: docPath_def plainSeg_def splitByte_append splitByte_plain)

lemma docPath_segs:
  assumes "plainSeg n" "plainSeg i"
  shows "pathSegs (docPath n i) = [dbSeg, n, i]"
  using assms dbSeg_plain unfolding pathSegs_def splitByte_docPath(2) [OF assms] Let_def
  by (simp add: pathUnescape_plain plainSeg_def)

lemma docPath_clean:
  assumes "plainSeg n" "plainSeg i"
  shows "\<not> uncleanPath (docPath n i)"
proof -
  have "\<not> hasPair 47 47 (docPath n i)"
    using assms dbSeg_plain hasPair_slash [of i "[]"]
    by (simp add: docPath_def plainSeg_def hasPair_slash hasPair_plain hasPair_end)
  moreover have "s \<noteq> [46]" "s \<noteq> [46, 46]" if "plainSeg s" for s using that by (auto simp: plainSeg_def)
  ultimately show ?thesis using assms dbSeg_plain by (simp add: uncleanPath_def splitByte_docPath)
qed

lemma serve_doc:
  assumes "forDoc n i r" "validName n" "validID i" "\<not> stopping st"
  shows "serve muxAnswer env r st = dispatch env (resource docHandlers (reqMethod r)) (r\<lparr>pathValues := [(databaseVar, n), (idVar, i)]\<rparr>) st"
proof -
  note p = validName_plain [OF assms(2)] validID_plain [OF assms(3)]
  have e: "escapedPath r \<noteq> []" "hd (escapedPath r) = 47" using assms(1) by (simp_all add: forDoc_def docPath_def)
  have "n \<noteq> [47]" "i \<noteq> [47]" using p by (auto simp: plainSeg_def)
  then have "muxMatch muxTable (reqMethod r) (pathSegs (escapedPath r)) =
      Some (resource docHandlers (reqMethod r), [(databaseVar, n), (idVar, i)])"
    using assms(1) by (simp add: forDoc_def docPath_segs [OF p] muxMatch_3)
  with assms(1,4) e docPath_clean [OF p] show ?thesis by (simp add: serve_defs forDoc_def)
qed

lemma pathValue_doc [simp]:
  "pathValue (r\<lparr>pathValues := [(databaseVar, n), (idVar, i)]\<rparr>) ''database'' = n"
  "pathValue (r\<lparr>pathValues := [(databaseVar, n), (idVar, i)]\<rparr>) ''id'' = i"
  using names_neq names_neq [symmetric] by (simp_all add: pathValue_def databaseVar_def [symmetric] idVar_def [symmetric])

section \<open>Without faults\<close>

lemma outcome_none:
  "outcome E kv (\<lambda>_. False) wk False spec A r s' \<longleftrightarrow> (\<exists>A'. rep E wk (kv (pdb s')) A' \<and> spec A r A')"
  by (simp add: outcome_def faulty_none)

lemma canonical_indexValues:
  assumes "validateDoc doc limit = Inr doc" "indexValues doc defs = Inl e"
  shows "e = [ErrInvalidIndexValue]"
proof -
  from assms(1) obtain m rest where m: "jsonDecode doc = Some (JObj m, rest)" "skipSpace rest = []"
    unfolding validateDoc_Inr_iff by blast
  have l: "indexValues_loop v defs = Inl e \<Longrightarrow> e = [ErrInvalidIndexValue]" for v
  proof (induction defs)
    case (Cons d defs)
    have enc: "encodeIndexValue x = Inl e' \<Longrightarrow> \<not> errors_Is e' ErrUnsupportedIdxValue \<Longrightarrow> e' = [ErrInvalidIndexValue]" for x e'
      by (auto simp: encodeIndexValue_def bindE_Inl_iff split: json.splits option.splits if_splits)
    show ?case
    proof (cases "pointerValue v (idxPath d)")
      case (Some x)
      show ?thesis
      proof (cases "encodeIndexValue x")
        case (Inl e')
        with Cons Some enc [OF Inl] show ?thesis by (auto split: if_splits)
      next
        case (Inr b)
        with Cons Some show ?thesis by (cases "indexValues_loop v defs") auto
      qed
    qed (use Cons in simp)
  qed simp
  from assms(2) m l show ?thesis by (simp add: indexValues_def decodeRoot_def ensureJSONEnd_def)
qed

lemma canonical_length: "validateDoc doc limit = Inr c \<Longrightarrow> int (length c) \<le> limit"
  by (simp add: validateDoc_Inr_iff)

text \<open>The operations without faults.\<close>

lemma replaceDoc_none:
  assumes "store_api E kv (\<lambda>_. False) wk" "rep E wk (kv (pdb s)) A" "validName n" "validID i" "enoughRandom (wld s)"
  obtains A' where "rep E wk (kv (pdb (snd (replaceDoc E wk n i doc match s)))) A'"
    "spec_replaceDoc n i doc match A (fst (replaceDoc E wk n i doc match s)) A'"
proof -
  have "outcome E kv (\<lambda>_. False) wk False (spec_replaceDoc n i doc match) A (fst (replaceDoc E wk n i doc match s)) (snd (replaceDoc E wk n i doc match s))"
    using wpD [OF store_api.replaceDoc_outcome [OF assms(1-4)]] assms(5) by (simp add: prod_eq_iff)
  with that show ?thesis unfolding outcome_none by blast
qed

lemma patchDoc_none:
  assumes "store_api E kv (\<lambda>_. False) wk" "rep E wk (kv (pdb s)) A" "validName n" "validID i" "enoughRandom (wld s)"
  obtains A' where "rep E wk (kv (pdb (snd (patchDoc E wk n i match f s)))) A'"
    "spec_patchDoc n i match f A (fst (patchDoc E wk n i match f s)) A'"
proof -
  have "outcome E kv (\<lambda>_. False) wk False (spec_patchDoc n i match f) A (fst (patchDoc E wk n i match f s)) (snd (patchDoc E wk n i match f s))"
    using wpD [OF store_api.patchDoc_outcome [OF assms(1-4)]] assms(5) by (simp add: prod_eq_iff)
  with that show ?thesis unfolding outcome_none by blast
qed

lemma deleteDoc_none:
  assumes "store_api E kv (\<lambda>_. False) wk" "rep E wk (kv (pdb s)) A" "validName n" "validID i"
  obtains A' where "rep E wk (kv (pdb (snd (deleteDoc E wk n i match s)))) A'"
    "spec_deleteDoc n i match A (fst (deleteDoc E wk n i match s)) A'"
proof -
  have "outcome E kv (\<lambda>_. False) wk False (spec_deleteDoc n i match) A (fst (deleteDoc E wk n i match s)) (snd (deleteDoc E wk n i match s))"
    using wpD [OF store_api.deleteDoc_outcome [OF assms(1-4)]] by (simp add: prod_eq_iff)
  with that show ?thesis unfolding outcome_none by blast
qed

definition unindexable :: "string \<Rightarrow> response" where
  "unindexable code = writeError [] 400 code ''An indexed value exceeds the size limit''"

text \<open>What a PUT answers and stores, on the abstract state.\<close>

definition putAnswer :: "bytes \<Rightarrow> bytes \<Rightarrow> bytes \<Rightarrow> matchCond \<Rightarrow> astate \<Rightarrow> response \<Rightarrow> astate \<Rightarrow> bool" where
  "putAnswer n i doc match A resp A' \<longleftrightarrow>
     (case docAt A n i of None \<Rightarrow> resp = docNotFound \<and> A' = A
      | Some (a, d) \<Rightarrow>
        if \<not> matchRevision match (docRev d) then resp = preconditionFailed \<and> A' = A
        else if \<not> isOk (indexValues doc (aDefs a)) then resp = unindexable ''invalid_document'' \<and> A' = A
        else \<exists>rv. length rv = 16 \<and> rv \<noteq> docRev d \<and> resp = sendDoc \<lparr>docJson = doc, docRev = rv\<rparr> \<and>
          A' = putDoc A n a i (Some \<lparr>docJson = doc, docRev = rv\<rparr>))"

lemma onStore_run: "onStore m st = (fst (m (store st)), st\<lparr>store := snd (m (store st))\<rparr>)"
  by (simp add: onStore_def split: prod.splits)

lemma replace_answer:
  assumes "spec_replaceDoc n i doc match A res A'" "validateDoc doc limit = Inr doc" "limit \<le> int maxStoredDocBytes"
  shows "putAnswer n i doc match A
    (case res of
       Inl e \<Rightarrow> if errors_Is e ErrDocNotFound then docNotFound
         else if errors_Is e ErrPreconditionFailed then preconditionFailed
         else if errors_Is e ErrInvalidIndexValue then writeError [] 400 ''invalid_document'' ''An indexed value exceeds the size limit''
         else fail [] e
     | Inr rv \<Rightarrow> sendDoc \<lparr>docJson = doc, docRev = rv\<rparr>) A'"
proof (cases "docAt A n i")
  case None
  with assms(1) show ?thesis by (auto simp: spec_replaceDoc_def spec_patchDoc_def putAnswer_def)
next
  case (Some p)
  obtain a d where p: "p = (a, d)" by fastforce
  have len: "\<not> length doc > maxStoredDocBytes" using canonical_length [OF assms(2)] assms(3) by simp
  show ?thesis
  proof (cases "indexValues doc (aDefs a)")
    case (Inl e)
    with canonical_indexValues [OF assms(2) Inl] assms(1) Some p show ?thesis
      by (auto simp: spec_replaceDoc_def spec_patchDoc_def putAnswer_def spec_write_def unindexable_def isOk_def split: if_splits)
  next
    case (Inr vs)
    with assms(1) Some p len show ?thesis
      by (auto simp: spec_replaceDoc_def spec_patchDoc_def putAnswer_def spec_write_def isOk_def split: if_splits)
  qed
qed

section \<open>Errors\<close>

lemma status_simps [simp]:
  "respStatus (writeError h sts code message) = sts" "respStatus (writeStatus h sts) = sts" "respStatus docNotFound = 404"
  "respStatus preconditionFailed = 412" "respStatus invalidIfMatch = 400" "respStatus (sendDoc d) = 200"
  "respStatus (unsupportedJSON h) = 415" "respStatus (unindexable code) = 400" "respStatus methodNotAllowed = 405"
  by (simp_all add: writeError_def writeApiError_def writeJSON_def writeStatus_def docNotFound_def preconditionFailed_def
      invalidIfMatch_def sendDoc_def writeData_def unsupportedJSON_def unindexable_def methodNotAllowed_def apiErr_def)

lemma requestBody_status: "requestBody h r limit code message = Inl resp \<Longrightarrow> respStatus resp \<in> {400, 413}"
  by (auto simp: requestBody_def split: sum.splits if_splits)

lemma requestDoc_status: "requestDoc env r = Inl resp \<Longrightarrow> respStatus resp \<in> {400, 413}"
proof (cases "requestBody [] r (maxBodyBytes env) ''invalid_document'' ''Could not read document''")
  case (Inr body)
  assume "requestDoc env r = Inl resp"
  with Inr show ?thesis by (cases "validateDoc body (maxBodyBytes env)") (auto simp: requestDoc_def split: if_splits)
qed (auto simp: requestDoc_def dest: requestBody_status)

lemma applyPatch_errors: "applyPatch P document body mt limit = Inl e \<Longrightarrow> e = [ErrInvalidPatch] \<or> e = [ErrBodyTooLarge]"
proof -
  have "validateDoc b limit = Inl e' \<Longrightarrow> errors_Is e' ErrBodyTooLarge \<Longrightarrow> e' = [ErrBodyTooLarge]" for b e'
    by (auto simp: validateDoc_def ensureJSONEnd_def bindE_Inl_iff split: if_splits option.splits prod.splits)
  then show "applyPatch P document body mt limit = Inl e \<Longrightarrow> ?thesis"
    by (auto simp: applyPatch_def split: option.splits sum.splits patchErr.splits if_splits)
qed

definition docStatuses :: "nat set" where
  "docStatuses = {200, 204, 400, 404, 405, 412, 413, 415}"

end
