(* ===== verification/Api_Refine.thy ===== *)
theory Api_Refine
  imports Api_Docs
begin

text \<open>
  The resource of a document as an abstract machine: what a request asks for, read off the
  request alone, and what the abstract state answers.
\<close>

section \<open>The abstract resource\<close>

text \<open>
  A request is refused before the store is looked at, or it reads the document, or removes it, or
  writes the version that a function of the stored one gives; a PUT ignores the stored version,
  a PATCH applies its patch to it.
\<close>

datatype docIntent =
    Refuse response
  | ReadDoc
  | WriteDoc string matchCond "bytes \<Rightarrow> response + bytes"
  | RemoveDoc matchCond

definition patchRefused :: "err \<Rightarrow> response" where
  "patchRefused e =
     (if errors_Is e ErrBodyTooLarge then writeError [] 413 ''content_too_large'' ''Document exceeds the size limit''
      else writeError [] 400 ''invalid_patch'' ''Patch is invalid or produces a non-object document'')"

definition ifMatching :: "request \<Rightarrow> (matchCond \<Rightarrow> docIntent) \<Rightarrow> docIntent" where
  "ifMatching r f = (case parseIfMatch (ifMatch r) of Inl _ \<Rightarrow> Refuse invalidIfMatch | Inr match \<Rightarrow> f match)"

definition orRefuse :: "response + 'a \<Rightarrow> ('a \<Rightarrow> docIntent) \<Rightarrow> docIntent" where
  "orRefuse x f = (case x of Inl resp \<Rightarrow> Refuse resp | Inr a \<Rightarrow> f a)"

definition intentOf :: "('db, 'p, 'q) apiEnv \<Rightarrow> request \<Rightarrow> docIntent" where
  "intentOf env r =
     (if reqMethod r = methodGet then ReadDoc
      else if reqMethod r = methodPut then
        (if \<not> isJSON (contentType r) then Refuse (unsupportedJSON [])
         else ifMatching r (\<lambda>match. orRefuse (requestDoc env r) (\<lambda>doc. WriteDoc ''invalid_document'' match (\<lambda>_. Inr doc))))
      else if reqMethod r = methodPatch then
        (case parsePatchType (contentType r) of
           Inl _ \<Rightarrow> Refuse (writeError [] 415 ''unsupported_media_type'' ''Content-Type must select a supported patch format'')
         | Inr mediaType \<Rightarrow>
           ifMatching r (\<lambda>match.
             orRefuse (requestBody [] r (maxBodyBytes env) ''invalid_patch'' ''Could not read patch'') (\<lambda>body.
               WriteDoc ''invalid_patch'' match
                 (\<lambda>document. mapErr patchRefused (applyPatch (patchLib env) document body mediaType (maxBodyBytes env))))))
      else if reqMethod r = methodDelete then ifMatching r RemoveDoc
      else Refuse methodNotAllowed)"

text \<open>What the intent does to an existing document of the database \<open>a\<close>.\<close>

fun docEffect :: "bytes \<Rightarrow> bytes \<Rightarrow> docIntent \<Rightarrow> adb \<Rightarrow> storedDoc \<Rightarrow> astate \<Rightarrow> response \<Rightarrow> astate \<Rightarrow> bool" where
  "docEffect n i (Refuse r) a d A resp A' = (resp = r \<and> A' = A)"
| "docEffect n i ReadDoc a d A resp A' = (resp = sendDoc d \<and> A' = A)"
| "docEffect n i (RemoveDoc match) a d A resp A' =
     (if \<not> matchRevision match (docRev d) then resp = preconditionFailed \<and> A' = A
      else resp = writeStatus [] 204 \<and> A' = putDoc A n a i None)"
| "docEffect n i (WriteDoc code match f) a d A resp A' =
     (if \<not> matchRevision match (docRev d) then resp = preconditionFailed \<and> A' = A
      else case f (docJson d) of
          Inl r \<Rightarrow> resp = r \<and> A' = A
        | Inr json \<Rightarrow>
          if \<not> isOk (indexValues json (aDefs a)) then resp = unindexable code \<and> A' = A
          else \<exists>rv. length rv = 16 \<and> rv \<noteq> docRev d \<and> resp = sendDoc \<lparr>docJson = json, docRev = rv\<rparr> \<and>
            A' = putDoc A n a i (Some \<lparr>docJson = json, docRev = rv\<rparr>))"

definition docStep :: "bytes \<Rightarrow> bytes \<Rightarrow> docIntent \<Rightarrow> astate \<Rightarrow> response \<Rightarrow> astate \<Rightarrow> bool" where
  "docStep n i intent A resp A' \<longleftrightarrow>
     (case intent of
        Refuse r \<Rightarrow> resp = r \<and> A' = A
      | _ \<Rightarrow> (case docAt A n i of None \<Rightarrow> resp = docNotFound \<and> A' = A | Some (a, d) \<Rightarrow> docEffect n i intent a d A resp A'))"

lemma docStep_Refuse [simp]: "docStep n i (Refuse r) A resp A' \<longleftrightarrow> resp = r \<and> A' = A"
  by (simp add: docStep_def)

lemma putAnswer_step:
  "putAnswer n i doc match A resp A' \<longleftrightarrow> docStep n i (WriteDoc ''invalid_document'' match (\<lambda>_. Inr doc)) A resp A'"
  by (simp add: putAnswer_def docStep_def split: option.splits)

lemma patch_answer:
  assumes "spec_patchDoc n i match (\<lambda>d. applyPatch P d body mt limit) A res A'" "limit \<le> int maxStoredDocBytes"
  shows "docStep n i (WriteDoc ''invalid_patch'' match (\<lambda>d. mapErr patchRefused (applyPatch P d body mt limit))) A
    (case res of
       Inl e \<Rightarrow> if errors_Is e ErrDocNotFound then docNotFound
         else if errors_Is e ErrPreconditionFailed then preconditionFailed
         else if errors_Is e ErrBodyTooLarge then writeError [] 413 ''content_too_large'' ''Document exceeds the size limit''
         else if errors_Is e ErrInvalidPatch then writeError [] 400 ''invalid_patch'' ''Patch is invalid or produces a non-object document''
         else if errors_Is e ErrInvalidIndexValue then writeError [] 400 ''invalid_patch'' ''An indexed value exceeds the size limit''
         else fail [] e
     | Inr doc \<Rightarrow> sendDoc doc) A'"
proof (cases "docAt A n i")
  case None
  with assms(1) show ?thesis by (auto simp: spec_patchDoc_def docStep_def)
next
  case (Some p)
  obtain a d where p: "p = (a, d)" by fastforce
  show ?thesis
  proof (cases "applyPatch P (docJson d) body mt limit")
    case (Inl e)
    with applyPatch_errors [OF Inl] assms(1) Some p show ?thesis
      by (auto simp: spec_patchDoc_def docStep_def patchRefused_def mapErr_def split: if_splits)
  next
    case (Inr json)
    note c = applyPatch_canonical [OF Inr]
    have "\<not> maxStoredDocBytes < length json" using canonical_length [OF c] assms(2) by simp
    with canonical_indexValues [OF c, of "aDefs a"] assms(1) Some p Inr show ?thesis
      by (cases "indexValues json (aDefs a)")
        (auto simp: spec_patchDoc_def spec_write_def docStep_def mapErr_def unindexable_def isOk_def split: if_splits)
  qed
qed

section \<open>The handlers refine it\<close>

definition refinesDoc ::
  "('db, 'p, 'q) apiEnv \<Rightarrow> ('db \<Rightarrow> bytes \<rightharpoonup> bytes) \<Rightarrow> bytes \<Rightarrow> bytes \<Rightarrow> docIntent \<Rightarrow> astate \<Rightarrow> response \<times> 'db apiState \<Rightarrow> bool" where
  "refinesDoc env kv n i intent A out \<longleftrightarrow>
     (\<exists>A'. rep (services env) (wrappingKey env) (kv (pdb (store (snd out)))) A' \<and> docStep n i intent A (fst out) A')"

lemma refines_refuse:
  "rep (services env) (wrappingKey env) (kv (pdb (store st))) A \<Longrightarrow> refinesDoc env kv n i (Refuse r) A (r, st)"
  by (auto simp: refinesDoc_def)

lemma get_refines:
  assumes S: "store_api (services env) kv (\<lambda>_. False) (wrappingKey env)"
    and r: "rep (services env) (wrappingKey env) (kv (pdb (store st))) A"
    and p: "validDocPath rq = None"
  shows "refinesDoc env kv (pathValue rq ''database'') (pathValue rq ''id'') ReadDoc A (apiGetDoc env rq st)"
  using store_api.getDoc_rep [OF S r] validDocPath_None [OF p] p r
  by (auto simp: refinesDoc_def apiGetDoc_def onStore_run readM_def okOrFault_none spec_getDoc_def docStep_def split: option.splits)

lemma replace_refines:
  assumes S: "store_api (services env) kv (\<lambda>_. False) (wrappingKey env)"
    and r: "rep (services env) (wrappingKey env) (kv (pdb (store st))) A"
    and mx: "maxBodyBytes env \<le> int maxStoredDocBytes" and w: "enoughRandom (wld (store st))"
    and p: "validDocPath rq = None" and m: "reqMethod rq = methodPut"
  shows "refinesDoc env kv (pathValue rq ''database'') (pathValue rq ''id'') (intentOf env rq) A (apiReplaceDoc env rq st)"
proof (cases "isJSON (contentType rq) \<and> isOk (parseIfMatch (ifMatch rq)) \<and> isOk (requestDoc env rq)")
  case True
  then obtain match doc where q: "isJSON (contentType rq)" "parseIfMatch (ifMatch rq) = Inr match" "requestDoc env rq = Inr doc"
    by (auto simp: isOk_iff)
  let ?n = "pathValue rq ''database''" and ?i = "pathValue rq ''id''"
  let ?m = "replaceDoc (services env) (wrappingKey env) ?n ?i doc match"
  have v: "validName ?n" "validID ?i" using validDocPath_None [OF p] by blast+
  obtain A' where A': "rep (services env) (wrappingKey env) (kv (pdb (snd (?m (store st))))) A'"
    "spec_replaceDoc ?n ?i doc match A (fst (?m (store st))) A'" by (rule replaceDoc_none [OF S r v w])
  note a = replace_answer [OF A'(2) requestDoc_canonical [OF q(3)] mx, unfolded putAnswer_step]
  have "intentOf env rq = WriteDoc ''invalid_document'' match (\<lambda>_. Inr doc)"
    using m q methods_distinct by (simp add: intentOf_def ifMatching_def orRefuse_def)
  with a A'(1) q p show ?thesis
    by (auto simp: refinesDoc_def apiReplaceDoc_def onStore_run intro!: exI [of _ A'] split: sum.splits)
next
  case False
  then show ?thesis using p m r methods_distinct
    by (auto simp: intentOf_def apiReplaceDoc_def isOk_def ifMatching_def orRefuse_def refines_refuse split: sum.splits)
qed

lemma patch_refines:
  assumes S: "store_api (services env) kv (\<lambda>_. False) (wrappingKey env)"
    and r: "rep (services env) (wrappingKey env) (kv (pdb (store st))) A"
    and mx: "maxBodyBytes env \<le> int maxStoredDocBytes" and w: "enoughRandom (wld (store st))"
    and p: "validDocPath rq = None" and m: "reqMethod rq = methodPatch"
  shows "refinesDoc env kv (pathValue rq ''database'') (pathValue rq ''id'') (intentOf env rq) A (apiPatchDoc env rq st)"
proof (cases "isOk (parsePatchType (contentType rq)) \<and> isOk (parseIfMatch (ifMatch rq)) \<and>
    isOk (requestBody [] rq (maxBodyBytes env) ''invalid_patch'' ''Could not read patch'')")
  case True
  then obtain mt match body where q: "parsePatchType (contentType rq) = Inr mt" "parseIfMatch (ifMatch rq) = Inr match"
    "requestBody [] rq (maxBodyBytes env) ''invalid_patch'' ''Could not read patch'' = Inr body"
    by (auto simp: isOk_iff)
  let ?n = "pathValue rq ''database''" and ?i = "pathValue rq ''id''"
  let ?f = "\<lambda>document. applyPatch (patchLib env) document body mt (maxBodyBytes env)"
  let ?m = "patchDoc (services env) (wrappingKey env) ?n ?i match ?f"
  have v: "validName ?n" "validID ?i" using validDocPath_None [OF p] by blast+
  obtain A' where A': "rep (services env) (wrappingKey env) (kv (pdb (snd (?m (store st))))) A'"
    "spec_patchDoc ?n ?i match ?f A (fst (?m (store st))) A'" by (rule patchDoc_none [OF S r v w])
  have "intentOf env rq = WriteDoc ''invalid_patch'' match (\<lambda>d. mapErr patchRefused (?f d))"
    using m q methods_distinct by (simp add: intentOf_def ifMatching_def orRefuse_def)
  with patch_answer [OF A'(2) mx] A'(1) q p show ?thesis
    by (auto simp: refinesDoc_def apiPatchDoc_def onStore_run intro!: exI [of _ A'] split: sum.splits)
next
  case False
  then show ?thesis using p m r methods_distinct
    by (auto simp: intentOf_def apiPatchDoc_def isOk_def ifMatching_def orRefuse_def refines_refuse split: sum.splits)
qed

lemma delete_refines:
  assumes S: "store_api (services env) kv (\<lambda>_. False) (wrappingKey env)"
    and r: "rep (services env) (wrappingKey env) (kv (pdb (store st))) A"
    and p: "validDocPath rq = None"
  shows "refinesDoc env kv (pathValue rq ''database'') (pathValue rq ''id'') (ifMatching rq RemoveDoc) A (apiDeleteDoc env rq st)"
proof (cases "parseIfMatch (ifMatch rq)")
  case (Inr match)
  let ?n = "pathValue rq ''database''" and ?i = "pathValue rq ''id''"
  let ?m = "deleteDoc (services env) (wrappingKey env) ?n ?i match"
  have v: "validName ?n" "validID ?i" using validDocPath_None [OF p] by blast+
  obtain A' where "rep (services env) (wrappingKey env) (kv (pdb (snd (?m (store st))))) A'"
    "spec_deleteDoc ?n ?i match A (fst (?m (store st))) A'" by (rule deleteDoc_none [OF S r v])
  with Inr p show ?thesis
    by (auto simp: refinesDoc_def apiDeleteDoc_def onStore_run ifMatching_def spec_deleteDoc_def docStep_def intro!: exI [of _ A']
        split: option.splits if_splits)
qed (use p r in \<open>simp add: apiDeleteDoc_def ifMatching_def refines_refuse\<close>)

lemma dispatch_refines:
  assumes S: "store_api (services env) kv (\<lambda>_. False) (wrappingKey env)"
    and r: "rep (services env) (wrappingKey env) (kv (pdb (store st))) A"
    and mx: "maxBodyBytes env \<le> int maxStoredDocBytes" and w: "enoughRandom (wld (store st))"
    and p: "validDocPath rq = None"
  shows "refinesDoc env kv (pathValue rq ''database'') (pathValue rq ''id'') (intentOf env rq) A
    (dispatch env (resource docHandlers (reqMethod rq)) rq st)"
proof -
  consider "reqMethod rq = methodGet" | "reqMethod rq = methodPut" | "reqMethod rq = methodPatch" | "reqMethod rq = methodDelete"
    | "reqMethod rq \<notin> {methodGet, methodPut, methodPatch, methodDelete}" by blast
  then show ?thesis
  proof cases
    case 1
    with get_refines [OF S r p] show ?thesis by (simp add: intentOf_def resource_def docHandlers_def)
  next
    case 2
    with replace_refines [OF S r mx w p 2] methods_distinct show ?thesis by (simp add: resource_def docHandlers_def)
  next
    case 3
    with patch_refines [OF S r mx w p 3] methods_distinct show ?thesis by (simp add: resource_def docHandlers_def)
  next
    case 4
    with delete_refines [OF S r p] methods_distinct show ?thesis by (simp add: intentOf_def resource_def docHandlers_def)
  next
    case 5
    then show ?thesis using r by (simp add: intentOf_def resource_def docHandlers_def refines_refuse)
  qed
qed

lemma serve_refines:
  assumes "store_api (services env) kv (\<lambda>_. False) (wrappingKey env)"
    "rep (services env) (wrappingKey env) (kv (pdb (store st))) A"
    "maxBodyBytes env \<le> int maxStoredDocBytes" "enoughRandom (wld (store st))"
    "forDoc n i r" "validName n" "validID i" "\<not> stopping st" "serve muxAnswer env r st = (resp, st')"
  obtains A' where "rep (services env) (wrappingKey env) (kv (pdb (store st'))) A'" "docStep n i (intentOf env r) A resp A'"
proof -
  let ?r = "r\<lparr>pathValues := [(databaseVar, n), (idVar, i)]\<rparr>"
  have v: "validDocPath ?r = None" using assms(6,7) by (simp add: validDocPath_def isOk_def)
  have "intentOf env ?r = intentOf env r"
    by (simp add: intentOf_def ifMatching_def requestDoc_def requestBody_def split: sum.splits)
  with dispatch_refines [OF assms(1-4) v] assms(9) that show thesis
    unfolding serve_doc [OF assms(5-8)] by (auto simp: refinesDoc_def)
qed

section \<open>Statuses\<close>

lemma patchRefused_status: "respStatus (patchRefused e) \<in> {400, 413}"
  by (simp add: patchRefused_def)

lemma docEffect_status:
  assumes "docEffect n i intent a d A resp A'" "\<And>r. intent = Refuse r \<Longrightarrow> respStatus r \<in> docStatuses"
    "\<And>code match f doc r. intent = WriteDoc code match f \<Longrightarrow> f doc = Inl r \<Longrightarrow> respStatus r \<in> docStatuses"
  shows "respStatus resp \<in> docStatuses"
  using assms by (cases intent) (auto simp: docStatuses_def split: if_splits sum.splits)

lemma docStep_cases:
  assumes "docStep n i intent A resp A'"
  obtains "intent = Refuse resp" | "resp = docNotFound" | a d where "docEffect n i intent a d A resp A'"
  using assms by (cases intent) (auto simp: docStep_def split: option.splits)

lemma docStep_status:
  assumes "docStep n i (intentOf env r) A resp A'"
  shows "respStatus resp \<in> docStatuses"
proof -
  have refuse: "intentOf env r = Refuse resp' \<Longrightarrow> respStatus resp' \<in> docStatuses" for resp'
    using requestDoc_status [of env r] requestBody_status [of "[]" r "maxBodyBytes env" "''invalid_patch''" "''Could not read patch''"]
    by (auto simp: intentOf_def ifMatching_def orRefuse_def docStatuses_def split: if_splits sum.splits)
  have put: "respStatus resp' \<in> docStatuses" if "intentOf env r = WriteDoc code match f" "f doc = Inl resp'" for code match f doc resp'
  proof -
    from that have "\<exists>e. resp' = patchRefused e"
      by (auto simp: intentOf_def ifMatching_def orRefuse_def mapErr_def split: if_splits sum.splits)
    then show ?thesis using patchRefused_status by (force simp: docStatuses_def)
  qed
  from assms show ?thesis
  proof (cases rule: docStep_cases)
    case (3 a d)
    then show ?thesis by (rule docEffect_status) (use refuse put in blast)+
  qed (use refuse in \<open>simp_all add: docStatuses_def\<close>)
qed

end
