(* ===== verification/Api_Properties.thy ===== *)
theory Api_Properties
  imports Api_Refine
begin

text \<open>
  The properties of the HTTP API as a whole, and a server on the reference services to which
  they are applied.
\<close>

section \<open>A sample server\<close>

text \<open>A patch package that supports the empty patches only.\<close>

definition memPatches :: "unit patchEngine" where
  "memPatches =
     \<lparr>mergePatch = (\<lambda>document patch. if patch = str ''{}'' then Inr document else Inl OtherPatchErr),
      decodePatch = (\<lambda>patch. if patch = str ''[]'' then Inr () else Inl OtherPatchErr),
      newApplyOptions = \<lparr>supportNegativeIndices = True, accumulatedCopySizeLimit = 0\<rparr>,
      applyWithOptions = (\<lambda>_ document _. Inr document)\<rparr>"

definition memEnv :: "(memdb, bytes list, unit) apiEnv" where
  "memEnv =
     \<lparr>services = memServices, wrappingKey = memKey, pathLib = memPaths, patchLib = memPatches, maxBodyBytes = 1024,
      bulkCfg = \<lparr>bulkMaxBytes = 4096, bulkMaxDocuments = 10, bulkMaxBatchBytes = 4096, bulkTimeout = 1000, bulkConcurrency = 1\<rparr>,
      buildVersion = str ''1.0.0''\<rparr>"

lemma memEnv_simps [simp]:
  "services memEnv = memServices" "wrappingKey memEnv = memKey" "maxBodyBytes memEnv = 1024"
  by (simp_all add: memEnv_def)

interpretation mem_api: api_laws memEnv map_of "\<lambda>_. False"
  by (simp add: api_laws_def mem_store.store_api_axioms)

definition sampleRequest :: "bytes \<Rightarrow> bytes \<Rightarrow> request" where
  "sampleRequest method body =
     \<lparr>reqMethod = method, urlPath = docPath sampleDB sampleID, escapedPath = docPath sampleDB sampleID, rawQuery = [],
      pathValues = [], contentType = str ''application/json'', ifMatch = [],
      reqBody = \<lparr>content = body, failure = None, eager = False\<rparr>, reqCtx = background, reqCtxErr = None, reqExpired = False,
      reqDeadline = DeadlineSet, reqCanFlush = True, reqRoom = 1000\<rparr>"

definition docServer :: "memdb apiState" where
  "docServer = newAPIWithBulk docSys"

lemma docServer_simps [simp]: "store docServer = docSys" "bulkSlots docServer = 0" "\<not> stopping docServer"
  by (simp_all add: docServer_def newAPIWithBulk_def)

lemma sampleRequest_simps [simp]:
  "forDoc sampleDB sampleID (sampleRequest m body)" "reqMethod (sampleRequest m body) = m"
  "ifMatch (sampleRequest m body) = []" "contentType (sampleRequest m body) = str ''application/json''"
  by (simp_all add: sampleRequest_def forDoc_def)

lemma sample_accepted:
  "isJSON (str ''application/json'')" "parseIfMatch [] = Inr noMatch"
  "requestDoc memEnv (sampleRequest methodPut (str ''{ }'')) = Inr (str ''{}'')"
  "isOk (indexValues (str ''{}'') sampleDefs)" "validateDoc sampleJson 1024 = Inr sampleJson"
  by code_simp+

lemma docServer_good: "goodStore memEnv map_of docSys"
proof -
  obtain k rv where r: "rep memServices memKey (map_of (pdb docSys))
     [sampleDB \<mapsto> \<lparr>aKey = k, aDefs = sampleDefs, aDocs = [sampleID \<mapsto> \<lparr>docJson = sampleJson, docRev = rv\<rparr>]\<rparr>]"
    using sample_doc by blast
  then show ?thesis using sample_accepted(5)
    by (auto simp: goodStore_def canonicalDocs_def split: if_splits intro!: exI)
qed

section \<open>Properties\<close>

text \<open>
  C7: the invariant of the server.  Whatever requests are served, one after another, with
  whatever randomness, contexts and Pebble faults, the store stays the representation of an
  abstract state (its records decrypt, its index entries are exactly those of its documents)
  whose documents are canonical JSON objects within the body limit; and every slot a bulk
  request takes is given back.
\<close>

theorem serveAll_invariant:
  assumes "store_api (services env) kv F (wrappingKey env)" "goodStore env kv (store st)"
    "serveAll muxAnswer env rs st = (resps, st')"
  shows "goodStore env kv (store st') \<and> bulkSlots st' = bulkSlots st \<and> stopping st' = stopping st"
proof -
  have "api_laws env kv F" using assms(1) by (simp add: api_laws_def)
  from api_laws.serveAll_keeps [OF this, of st muxAnswer rs] assms(2,3) show ?thesis by (simp add: keeps_def)
qed

theorem serveAll_invariant_witness:
  "goodStore memEnv map_of (store (snd (serveAll (\<lambda>_. notFound) memEnv
     [sampleRequest methodPut (str ''{ }''), sampleRequest methodDelete []] docServer)))"
proof -
  let ?run = "serveAll (\<lambda>_. notFound) memEnv [sampleRequest methodPut (str ''{ }''), sampleRequest methodDelete []] docServer"
  have "store_api (services memEnv) map_of (\<lambda>_. False) (wrappingKey memEnv)" by (simp add: mem_store.store_api_axioms)
  moreover have "goodStore memEnv map_of (store docServer)" by (simp add: docServer_good)
  moreover have "?run = (fst ?run, snd ?run)" by (rule prod.collapse [symmetric])
  ultimately show ?thesis by (rule serveAll_invariant [THEN conjunct1])
qed

text \<open>
  A PUT of a document over HTTP implements the replacement of the document.  A request for
  the path of a document, with a JSON body, is routed to the handler, which answers 404 when the
  document does not exist, 412 when its revision does not match \<open>If-Match\<close>, 400 when an indexed
  value is too long, each without a change; else it stores the canonical document under a new
  revision and sends both back, the revision as the entity tag.
\<close>

theorem put_refines:
  assumes "store_api (services env) kv (\<lambda>_. False) (wrappingKey env)"
    "rep (services env) (wrappingKey env) (kv (pdb (store st))) A"
    "maxBodyBytes env \<le> int maxStoredDocBytes" "enoughRandom (wld (store st))"
    "forDoc n i r" "validName n" "validID i" "\<not> stopping st" "reqMethod r = methodPut" "isJSON (contentType r)"
    "parseIfMatch (ifMatch r) = Inr match" "requestDoc env r = Inr doc" "serve muxAnswer env r st = (resp, st')"
  shows "\<exists>A'. rep (services env) (wrappingKey env) (kv (pdb (store st'))) A' \<and> putAnswer n i doc match A resp A'"
proof -
  have "intentOf env r = WriteDoc ''invalid_document'' match (\<lambda>_. Inr doc)"
    using assms(9-12) methods_distinct by (simp add: intentOf_def ifMatching_def orRefuse_def)
  with serve_refines [OF assms(1-8,13)] show ?thesis unfolding putAnswer_step by metis
qed

theorem put_refines_witness:
  "\<exists>rv. fst (serve (\<lambda>_. notFound) memEnv (sampleRequest methodPut (str ''{ }'')) docServer) =
     sendDoc \<lparr>docJson = str ''{}'', docRev = rv\<rparr>"
proof -
  let ?r = "sampleRequest methodPut (str ''{ }'')"
  let ?run = "serve (\<lambda>_. notFound) memEnv ?r docServer"
  obtain k rv where r: "rep memServices memKey (map_of (pdb docSys))
     [sampleDB \<mapsto> \<lparr>aKey = k, aDefs = sampleDefs, aDocs = [sampleID \<mapsto> \<lparr>docJson = sampleJson, docRev = rv\<rparr>]\<rparr>]"
    (is "rep _ _ _ ?A") using sample_doc by blast
  have "store_api (services memEnv) map_of (\<lambda>_. False) (wrappingKey memEnv)" by (simp add: mem_store.store_api_axioms)
  moreover have "rep (services memEnv) (wrappingKey memEnv) (map_of (pdb (store docServer))) ?A" using r by simp
  moreover have "maxBodyBytes memEnv \<le> int maxStoredDocBytes" by (simp add: maxStoredDocBytes_def)
  moreover have "enoughRandom (wld (store docServer))" using doc_random by simp
  ultimately obtain A' where "putAnswer sampleDB sampleID (str ''{}'') noMatch ?A (fst ?run) A'"
    using put_refines [where env = memEnv and st = docServer and r = ?r and n = sampleDB and i = sampleID and match = noMatch
        and doc = "str ''{}''" and muxAnswer = "\<lambda>_. notFound" and resp = "fst ?run" and st' = "snd ?run" and A = ?A
        and kv = map_of] sample_valid sample_accepted by auto
  then show ?thesis using sample_accepted(4) by (auto simp: putAnswer_def docAt_def matchRevision_def noMatch_def split: if_splits)
qed

text \<open>
  C25: the requests for a document never fail internally.  While Pebble does not fail and there is
  randomness, every request for the path of a document, whatever its method, headers and body,
  is answered with success, a client error or a missing document, never with 500 or 503 and
  never by the mux: so stored data never looks corrupt, and no failure of the storage is left
  unclassified.
\<close>

theorem document_statuses:
  assumes "store_api (services env) kv (\<lambda>_. False) (wrappingKey env)"
    "rep (services env) (wrappingKey env) (kv (pdb (store st))) A"
    "maxBodyBytes env \<le> int maxStoredDocBytes" "enoughRandom (wld (store st))"
    "forDoc n i r" "validName n" "validID i" "\<not> stopping st"
  shows "respStatus (fst (serve muxAnswer env r st)) \<in> docStatuses"
proof -
  have "serve muxAnswer env r st = (fst (serve muxAnswer env r st), snd (serve muxAnswer env r st))" by simp
  from serve_refines [OF assms this] show ?thesis by (metis docStep_status)
qed

theorem document_statuses_witness:
  "respStatus (fst (serve (\<lambda>_. notFound) memEnv (sampleRequest methodPut (str ''[1]'')) docServer)) \<in> docStatuses"
proof -
  obtain A where r: "rep memServices memKey (map_of (pdb docSys)) A" using sample_doc by blast
  have "store_api (services memEnv) map_of (\<lambda>_. False) (wrappingKey memEnv)" by (simp add: mem_store.store_api_axioms)
  moreover have "rep (services memEnv) (wrappingKey memEnv) (map_of (pdb (store docServer))) A" using r by simp
  moreover have "maxBodyBytes memEnv \<le> int maxStoredDocBytes" by (simp add: maxStoredDocBytes_def)
  moreover have "enoughRandom (wld (store docServer))" using doc_random by simp
  ultimately show ?thesis
    using document_statuses [where env = memEnv and st = docServer and n = sampleDB and i = sampleID and A = A and kv = map_of]
      sample_valid by simp
qed

text \<open>
  C1: the requests for a document implement an abstract resource.  Any request for the path of a
  document, whatever its method, headers and body, is routed to its handler and answered as the
  abstract resource answers: it is refused before the store is looked at (wrong method, media
  type, \<open>If-Match\<close> or body); 404 when the document does not exist, 412 when its revision does not
  match, each without a change; GET returns the stored version; DELETE removes it; PUT and PATCH
  store the canonical version made of the body or of the patched document under a new revision,
  unless an indexed value is too long, and send it back.  Pebble reports no faults, there is
  randomness, bodies are limited to 64 MiB at most, and the server is not stopping.
\<close>

theorem document_refines:
  assumes "store_api (services env) kv (\<lambda>_. False) (wrappingKey env)"
    "rep (services env) (wrappingKey env) (kv (pdb (store st))) A"
    "maxBodyBytes env \<le> int maxStoredDocBytes" "enoughRandom (wld (store st))"
    "forDoc n i r" "validName n" "validID i" "\<not> stopping st" "serve muxAnswer env r st = (resp, st')"
  shows "\<exists>A'. rep (services env) (wrappingKey env) (kv (pdb (store st'))) A' \<and> docStep n i (intentOf env r) A resp A'"
  by (rule serve_refines [OF assms]) blast

lemma samplePatch_intent:
  "intentOf memEnv ((sampleRequest methodPatch (str ''{}''))\<lparr>contentType := mergePatchType\<rparr>) =
     WriteDoc ''invalid_patch'' noMatch (\<lambda>document. mapErr patchRefused (applyPatch memPatches document (str ''{}'') mergePatchType 1024))"
proof -
  have "parsePatchType mergePatchType = Inr mergePatchType"
    "requestBody [] ((sampleRequest methodPatch (str ''{}''))\<lparr>contentType := mergePatchType\<rparr>) 1024 ''invalid_patch'' ''Could not read patch'' = Inr (str ''{}'')"
    by code_simp+
  then show ?thesis using methods_distinct sample_accepted(2)
    by (simp add: intentOf_def ifMatching_def orRefuse_def) (simp add: memEnv_def)
qed

theorem document_refines_witness:
  "\<exists>rv. fst (serve (\<lambda>_. notFound) memEnv ((sampleRequest methodPatch (str ''{}''))\<lparr>contentType := mergePatchType\<rparr>) docServer) =
     sendDoc \<lparr>docJson = sampleJson, docRev = rv\<rparr>"
proof -
  let ?r = "(sampleRequest methodPatch (str ''{}''))\<lparr>contentType := mergePatchType\<rparr>"
  let ?run = "serve (\<lambda>_. notFound) memEnv ?r docServer"
  obtain k rv where r: "rep memServices memKey (map_of (pdb docSys))
     [sampleDB \<mapsto> \<lparr>aKey = k, aDefs = sampleDefs, aDocs = [sampleID \<mapsto> \<lparr>docJson = sampleJson, docRev = rv\<rparr>]\<rparr>]"
    (is "rep _ _ _ ?A") using sample_doc by blast
  have "store_api (services memEnv) map_of (\<lambda>_. False) (wrappingKey memEnv)" by (simp add: mem_store.store_api_axioms)
  moreover have "rep (services memEnv) (wrappingKey memEnv) (map_of (pdb (store docServer))) ?A" using r by simp
  moreover have "maxBodyBytes memEnv \<le> int maxStoredDocBytes" by (simp add: maxStoredDocBytes_def)
  moreover have "enoughRandom (wld (store docServer))" using doc_random by simp
  moreover have "forDoc sampleDB sampleID ?r" by (simp add: forDoc_def sampleRequest_def)
  ultimately obtain A' where "docStep sampleDB sampleID (intentOf memEnv ?r) ?A (fst ?run) A'"
    using document_refines [where env = memEnv and st = docServer and r = ?r and n = sampleDB and i = sampleID
        and muxAnswer = "\<lambda>_. notFound" and resp = "fst ?run" and st' = "snd ?run" and A = ?A and kv = map_of] sample_valid by auto
  moreover have "applyPatch memPatches sampleJson (str ''{}'') mergePatchType 1024 = Inr sampleJson" "isOk (indexValues sampleJson sampleDefs)"
    by code_simp+
  ultimately show ?thesis unfolding samplePatch_intent
    by (auto simp: docStep_def docAt_def matchRevision_def noMatch_def mapErr_def split: if_splits)
qed

end
