(* ===== verification/Bulk_Properties.thy ===== *)
theory Bulk_Properties
  imports Bulk_Laws Import_Laws List_Laws Store_Properties
begin

text \<open>
  Properties of bulk import and export that span the store and the streams.
\<close>

lemma yieldAll_stream:
  "yieldAll (streamWrite c) docs s = (Inr (), s') \<Longrightarrow> streamed s' = streamed s @ ndjson docs"
proof (induction docs arbitrary: s)
  case (Cons d docs)
  obtain r s1 where w: "streamWrite c d s = (r, s1)" by fastforce
  with Cons.prems have "r = Inr ()" "yieldAll (streamWrite c) docs s1 = (Inr (), s')" by (auto split: sum.splits)
  with Cons.IH [of s1] streamWrite_streamed(2) [of c d s] w show ?case by (simp add: ndjson_def)
qed (simp add: ndjson_def)

lemma export_sent:
  assumes "store_api E kv F wk" "rep E wk (kv db) A" "A n = Some a" "\<And>k. ctx k = None"
    "exportDocs E wk ctx n (streamWrite canFlush) db (newBulkStream w) = (Inr (), s)" "streamFlush canFlush s = (Inr (), s')"
  shows "sent (writer s') = sent w @ ndjson (docsInOrder a)"
proof -
  have "yieldAll (streamWrite canFlush) (docsInOrder a) (newBulkStream w) = (Inr (), s)"
    using store_api.exportDocs_rep(1) [OF assms(1-5)] by (metis prod.collapse)
  from yieldAll_stream [OF this] have "streamed s = sent w @ ndjson (docsInOrder a)"
    by (simp add: streamed_def newBulkStream_def)
  moreover have "buffered s' = []" "streamed s' = streamed s"
    using streamFlush_streamed [of canFlush s] assms(6) by auto
  ultimately show ?thesis by (simp add: streamed_def)
qed

lemma sample_export:
  obtains s1 s2 where "exportDocs memServices memKey background sampleDB (streamWrite True) (pdb docSys)
      (newBulkStream \<lparr>status = None, sent = [], room = 100\<rparr>) = (Inr (), s1)" "streamFlush True s1 = (Inr (), s2)"
proof -
  obtain k rv where r: "rep memServices memKey (map_of (pdb docSys))
     [sampleDB \<mapsto> \<lparr>aKey = k, aDefs = sampleDefs, aDocs = [sampleID \<mapsto> \<lparr>docJson = sampleJson, docRev = rv\<rparr>]\<rparr>]"
    using sample_doc by blast
  have b: "background j = None" for j by (simp add: background_def)
  let ?w = "newBulkStream \<lparr>status = None, sent = [], room = 100\<rparr>"
  obtain s1 s2 where w: "streamWrite True sampleJson ?w = (Inr (), s1)" and f: "streamFlush True s1 = (Inr (), s2)"
    by (simp add: streamWrite_def newBulkStream_def writeHeader_def bufWrite.simps bufWriteByte_def bulkBufferSize_def
        sampleJson_def streamFlush_def bufFlush_def netWrite_def)
  obtain res s where run: "exportDocs memServices memKey background sampleDB (streamWrite True) (pdb docSys) ?w = (res, s)" by fastforce
  have "(res, s) = yieldAll (streamWrite True) [sampleJson] ?w"
    using store_api.exportDocs_rep(2) [OF mem_store.store_api_axioms r _ b run] by (simp add: docsInOrder_def)
  with w run f that show ?thesis by simp
qed

text \<open>
  C17: a bulk import is atomic.  It succeeds with one new ID per document, all different and
  not used before, and the database then holds exactly its old documents and the imported
  ones; otherwise nothing has changed, except that a commit on which Pebble reports a fault
  may have been applied as a whole.
\<close>

theorem importDocs_atomic:
  assumes "store_api E kv F wk" "rep E wk (kv (pdb s)) A" "validateName n = Inr ()"
    "importDocs E wk ctx n documents maxBatchBytes s = (r, s')"
  shows "importOutcome E kv F wk n documents A r s'"
  by (rule store_api.importDocs_rep [OF assms])

theorem importDocs_atomic_witness:
  "\<exists>A. sampleDB \<in> dom A \<and> importOutcome memServices map_of (\<lambda>_. False) memKey sampleDB [sampleJson] A
     (fst (importDocs memServices memKey background sampleDB [sampleJson] 1000000 sampleSys))
     (snd (importDocs memServices memKey background sampleDB [sampleJson] 1000000 sampleSys))"
proof -
  obtain k where r: "rep memServices memKey (map_of (pdb sampleSys))
     [sampleDB \<mapsto> \<lparr>aKey = k, aDefs = sampleDefs, aDocs = Map.empty\<rparr>]" (is "rep _ _ _ ?A") using sample_rep by blast
  have "sampleDB \<in> dom ?A" by simp
  with importDocs_atomic [OF mem_store.store_api_axioms r sample_valid(1)] show ?thesis by (metis prod.collapse)
qed

text \<open>
  When an export and its final flush succeed, the client has received the documents of the
  database in the order of their IDs, one per line, and nothing else.
\<close>

theorem export_body:
  assumes "store_api E kv F wk" "rep E wk (kv db) A" "A n = Some a" "\<And>k. ctx k = None"
    "exportDocs E wk ctx n (streamWrite canFlush) db (newBulkStream w) = (Inr (), s)" "streamFlush canFlush s = (Inr (), s')"
  shows "sent (writer s') = sent w @ ndjson (docsInOrder a)"
  by (rule export_sent [OF assms])

theorem export_body_witness:
  "\<exists>s. exportDocs memServices memKey background sampleDB (streamWrite True) (pdb docSys)
       (newBulkStream \<lparr>status = None, sent = [], room = 100\<rparr>) = (Inr (), s) \<and>
     sent (writer (snd (streamFlush True s))) = sampleJson @ [10]"
proof -
  obtain k rv where r: "rep memServices memKey (map_of (pdb docSys))
     [sampleDB \<mapsto> \<lparr>aKey = k, aDefs = sampleDefs, aDocs = [sampleID \<mapsto> \<lparr>docJson = sampleJson, docRev = rv\<rparr>]\<rparr>]"
    using sample_doc by blast
  have b: "background j = None" for j by (simp add: background_def)
  obtain s1 s2 where ex: "exportDocs memServices memKey background sampleDB (streamWrite True) (pdb docSys)
      (newBulkStream \<lparr>status = None, sent = [], room = 100\<rparr>) = (Inr (), s1)" and f: "streamFlush True s1 = (Inr (), s2)"
    by (rule sample_export)
  have "sent (writer s2) = sampleJson @ [10]"
    using export_body [OF mem_store.store_api_axioms r _ b ex f] by (simp add: ndjson_def docsInOrder_def)
  with ex f show ?thesis by simp
qed

end
