(* ===== verification/Bulk_Roundtrip.thy ===== *)
theory Bulk_Roundtrip
  imports Bulk_Properties Api_Laws
begin

text \<open>
  What an export sends, an import reads: the lines of an export are the canonical documents, and
  the reader of an import returns them.
\<close>

section \<open>The lines of an export\<close>

lemma canonical_clean:
  assumes "validateDoc d limit = Inr d"
  shows "10 \<notin> set d" "13 \<notin> set d" "d \<noteq> []" "int (length d) \<le> limit"
proof -
  from assms obtain m rest where m: "jsonDecode d = Some (JObj m, rest)" "jsonMarshal (JObj m) = Some d" "int (length d) \<le> limit"
    unfolding validateDoc_Inr_iff by blast
  from marshal_clean(1) [OF m(2)] show "10 \<notin> set d" "13 \<notin> set d" by (auto simp: clean_def)
  from jsonDecode_shorter [OF m(1)] show "d \<noteq> []" by auto
  show "int (length d) \<le> limit" by (rule m(3))
qed

lemma rawLines_ndjson:
  "\<forall>d \<in> set docs. 10 \<notin> set d \<Longrightarrow> rawLines (ndjson docs) = map (\<lambda>d. d @ [10]) docs"
proof (induction docs)
  case Nil
  then show ?case by (subst rawLines.simps) (simp add: ndjson_def)
next
  case (Cons d docs)
  then have d: "10 \<notin> set d" by simp
  have "rawLines (ndjson (d # docs)) = rawLines (d @ 10 # ndjson docs)" by (simp add: ndjson_def)
  also have "\<dots> = (d @ [10]) # rawLines (ndjson docs)"
    using rawLines_newline [OF d, of "10 # ndjson docs"] by simp
  finally show ?case using Cons by simp
qed

lemma goodLine_canonical:
  assumes "validateDoc d limit = Inr d"
  shows "goodLine limit (d @ [10]) d"
proof -
  note c = canonical_clean [OF assms]
  have "last d \<noteq> 13" using c(2,3) last_in_set by metis
  then have l: "lineContent (d @ [10]) = d"
    by (simp add: lineContent_def Bulk_Laws.complete_def trimLineEnd_def trimSuffix_def)
  then show ?thesis using c assms by (simp add: goodLine_def splitCR_def)
qed

lemma readBulk_ndjson:
  assumes "\<forall>d \<in> set docs. validateDoc d limit = Inr d" "docs \<noteq> []" "content r = ndjson docs" "failure r = None"
    "int (length (ndjson docs)) \<le> maxBytes" "int (length docs) \<le> maxDocs"
  shows "readBulkCtx ctxErr expired r limit maxBytes maxDocs = Inr docs"
proof -
  have "0 \<le> limit" using assms(1,2) canonical_clean(4) by (metis list.set_intros(1) neq_Nil_conv of_nat_0_le_iff order_trans)
  moreover have "list_all2 (goodLine limit) (rawLines (ndjson docs)) docs"
    using assms(1) canonical_clean(1) goodLine_canonical
    by (subst rawLines_ndjson) (auto simp: list_all2_map1 list_all2_same)
  ultimately show ?thesis
    using assms(2-6) unfolding readBulkCtx_def by (subst loop_accepts) (auto simp: accepts_def)
qed

section \<open>Properties\<close>

text \<open>
  C19: an import reads back what an export has sent.  When an export and its final flush succeed on a
  store whose documents are canonical, as every request leaves them, and the body is sent to an
  import whose limits it keeps, the reader of the import returns the documents of the database in
  the order of their IDs, byte for byte.
\<close>

theorem export_import_roundtrip:
  assumes "store_api E kv F wk" "rep E wk (kv db) A" "canonicalDocs limit A" "A n = Some a" "aDocs a \<noteq> Map.empty" "\<And>k. ctx k = None"
    "exportDocs E wk ctx n (streamWrite canFlush) db (newBulkStream w) = (Inr (), s)" "streamFlush canFlush s = (Inr (), s')"
    "sent w = []" "content r = sent (writer s')" "failure r = None"
    "int (length (sent (writer s'))) \<le> maxBytes" "int (card (dom (aDocs a))) \<le> maxDocs"
  shows "readBulkCtx ctxErr expired r limit maxBytes maxDocs = Inr (docsInOrder a)"
proof -
  have f: "finite (dom (aDocs a))" using assms(2,4) unfolding rep_def wfState_def wfDB_def by blast
  have body: "sent (writer s') = ndjson (docsInOrder a)"
    using export_sent [OF assms(1,2,4,6,7,8)] assms(9) by simp
  have "\<forall>d \<in> set (docsInOrder a). validateDoc d limit = Inr d"
    using assms(3,4) f unfolding docsInOrder_def canonicalDocs_def by fastforce
  moreover have "docsInOrder a \<noteq> []" using assms(5) f by (auto simp: docsInOrder_def)
  moreover have "int (length (docsInOrder a)) \<le> maxDocs" using assms(13) by (simp add: docsInOrder_def)
  ultimately show ?thesis using assms(10-12) body by (intro readBulk_ndjson) simp_all
qed

theorem export_import_roundtrip_witness:
  "\<exists>s. exportDocs memServices memKey background sampleDB (streamWrite True) (pdb docSys)
       (newBulkStream \<lparr>status = None, sent = [], room = 100\<rparr>) = (Inr (), s) \<and>
     readBulkCtx None False \<lparr>content = sent (writer (snd (streamFlush True s))), failure = None, eager = False\<rparr> 100 1000 10 = Inr [sampleJson]"
proof -
  obtain k rv where r: "rep memServices memKey (map_of (pdb docSys))
     [sampleDB \<mapsto> \<lparr>aKey = k, aDefs = sampleDefs, aDocs = [sampleID \<mapsto> \<lparr>docJson = sampleJson, docRev = rv\<rparr>]\<rparr>]"
    using sample_doc by blast
  have b: "background j = None" for j by (simp add: background_def)
  obtain s1 s2 where ex: "exportDocs memServices memKey background sampleDB (streamWrite True) (pdb docSys)
      (newBulkStream \<lparr>status = None, sent = [], room = 100\<rparr>) = (Inr (), s1)" and f: "streamFlush True s1 = (Inr (), s2)"
    by (rule sample_export)
  have c: "validateDoc sampleJson 100 = Inr sampleJson" by code_simp
  have l: "length (sent (writer s2)) = 8"
    using export_sent [OF mem_store.store_api_axioms r _ b ex f] by (simp add: ndjson_def docsInOrder_def sampleJson_def)
  have "readBulkCtx None False \<lparr>content = sent (writer s2), failure = None, eager = False\<rparr> 100 1000 10 =
      Inr (docsInOrder \<lparr>aKey = k, aDefs = sampleDefs, aDocs = [sampleID \<mapsto> \<lparr>docJson = sampleJson, docRev = rv\<rparr>]\<rparr>)"
    by (rule export_import_roundtrip [OF mem_store.store_api_axioms r _ _ _ b ex f]) (use c l in \<open>auto simp: canonicalDocs_def split: if_splits\<close>)
  with ex f show ?thesis by (simp add: docsInOrder_def)
qed

end
