(* ===== verification/Config_Laws.thy ===== *)
theory Config_Laws
  imports Config Json_Laws
begin

text \<open>
  What an accepted configuration guarantees to the rest of the program.
\<close>

definition bulkLimits :: "config \<Rightarrow> int list" where
  "bulkLimits cfg =
     [bulkMaxBytes (cfgBulk cfg), bulkMaxDocuments (cfgBulk cfg), bulkMaxBatchBytes (cfgBulk cfg), bulkTimeout (cfgBulk cfg),
      bulkConcurrency (cfgBulk cfg)]"

lemma parseInt_range: "parseInt s = Some k \<Longrightarrow> k \<le> maxInt64"
  by (auto simp: parseInt_def maxInt64_def Let_def split: prod.splits if_splits option.splits)

lemma setFlag_limits:
  assumes "setFlag pd name v cfg = Some cfg'" "\<And>v k. pd v = Some k \<Longrightarrow> k \<le> maxInt64" "\<forall>x \<in> set (bulkLimits cfg). x \<le> maxInt64"
  shows "\<forall>x \<in> set (bulkLimits cfg'). x \<le> maxInt64"
  using assms parseInt_range unfolding setFlag_def Let_def by (auto simp: bulkLimits_def split: if_splits)

lemma parseFlags_cases:
  assumes "parseFlags pd cfg args = Some (cfg', rest)"
  shows "cfg' = cfg \<or> (\<exists>name v cfg1 args'. length args' < length args \<and> setFlag pd name v cfg = Some cfg1 \<and>
    parseFlags pd cfg1 args' = Some (cfg', rest))"
proof (cases args)
  case (Cons s as)
  let ?name = "if s ! 1 = 45 then drop 2 s else drop 1 s"
  from assms show ?thesis unfolding Cons parseFlags.simps Let_def
    by (auto split: if_splits option.splits list.splits)
qed (use assms in simp)

lemma parseFlags_limits:
  assumes "parseFlags pd cfg args = Some (cfg', rest)" "\<And>v k. pd v = Some k \<Longrightarrow> k \<le> maxInt64" "\<forall>x \<in> set (bulkLimits cfg). x \<le> maxInt64"
  shows "\<forall>x \<in> set (bulkLimits cfg'). x \<le> maxInt64"
  using assms(1,3)
proof (induction "length args" arbitrary: cfg args rule: less_induct)
  case less
  from parseFlags_cases [OF less.prems(1)] show ?case
  proof (elim disjE exE conjE)
    fix name v cfg1 args'
    assume c: "length args' < length args" "setFlag pd name v cfg = Some cfg1" "parseFlags pd cfg1 args' = Some (cfg', rest)"
    have "\<forall>x \<in> set (bulkLimits cfg1). x \<le> maxInt64"
      by (rule setFlag_limits [OF c(2)]) (use assms(2) less.prems(2) in blast)+
    with less.hyps c show ?thesis by blast
  qed (use less.prems in simp)
qed

text \<open>
  C33: an accepted configuration is within its bounds.  The address, the data path and the key file are
  given, the limit of a request body is between one byte and 64 MiB, and every bulk limit is
  positive and fits its 64-bit variable; so a document that passes the body limit always fits
  the limit of a stored document.
\<close>

theorem parseConfig_bounds:
  assumes "parseConfig parseDuration args = Inr cfg" "\<And>v k. parseDuration v = Some k \<Longrightarrow> k \<le> maxInt64"
  shows "cfgAddr cfg \<noteq> [] \<and> cfgDataPath cfg \<noteq> [] \<and> cfgKeyFile cfg \<noteq> [] \<and> 1 \<le> cfgMaxBody cfg \<and> cfgMaxBody cfg \<le> 64 * 1024 * 1024 \<and>
    (\<forall>x \<in> set (bulkLimits cfg). 1 \<le> x \<and> x \<le> maxInt64) \<and>
    (\<forall>body doc. validateDoc body (cfgMaxBody cfg) = Inr doc \<longrightarrow> length doc \<le> maxStoredDocBytes)"
proof -
  from assms(1) obtain rest where f: "parseFlags parseDuration defaultConfig args = Some (cfg, rest)"
    and c: "cfgAddr cfg \<noteq> []" "cfgDataPath cfg \<noteq> []" "cfgKeyFile cfg \<noteq> []" "1 \<le> cfgMaxBody cfg" "cfgMaxBody cfg \<le> int maxStoredDocBytes"
      "\<forall>x \<in> set (bulkLimits cfg). 1 \<le> x"
    by (auto simp: parseConfig_def bulkLimits_def split: option.splits if_splits)
  have d: "\<forall>x \<in> set (bulkLimits defaultConfig). x \<le> maxInt64" by code_simp
  have "\<forall>x \<in> set (bulkLimits cfg). x \<le> maxInt64"
    by (rule parseFlags_limits [OF f]) (use assms(2) d in blast)+
  moreover have "length doc \<le> maxStoredDocBytes" if "validateDoc body (cfgMaxBody cfg) = Inr doc" for body doc
    using that c(5) by (auto simp: validateDoc_Inr_iff)
  ultimately show ?thesis using c by (auto simp: maxStoredDocBytes_def)
qed

definition sampleArgs :: "bytes list" where
  "sampleArgs = [str ''-key-file'', str ''k'', str ''--max-body-bytes=0x800'']"

lemma sampleArgs_config:
  "parseConfig (\<lambda>_. None) sampleArgs = Inr (defaultConfig\<lparr>cfgKeyFile := str ''k'', cfgMaxBody := 2048\<rparr>)"
proof -
  have "parseFlags (\<lambda>_. None) defaultConfig sampleArgs = Some (defaultConfig\<lparr>cfgKeyFile := str ''k'', cfgMaxBody := 2048\<rparr>, [])"
    by code_simp
  then show ?thesis by (simp add: parseConfig_def defaultConfig_def str_def maxStoredDocBytes_def defaultBulkConfig_def
      defaultBulkMaxBytes_def defaultBulkMaxDocs_def defaultBulkBatchBytes_def defaultBulkTimeout_def defaultBulkConcurrency_def)
qed

theorem parseConfig_bounds_witness:
  "parseConfig (\<lambda>_. None) sampleArgs = Inr (defaultConfig\<lparr>cfgKeyFile := str ''k'', cfgMaxBody := 2048\<rparr>) \<and>
     bulkConcurrency (cfgBulk defaultConfig) \<ge> 1"
  using parseConfig_bounds [OF sampleArgs_config] sampleArgs_config by (simp add: bulkLimits_def)

end
