(* ===== verification/Create_Ends.thy ===== *)
theory Create_Ends
  imports Store_Properties
begin

text \<open>
  The loop that draws document IDs: it ends with the first ID that is free, after exactly as many
  attempts as there were collisions.
\<close>

context store_api
begin

lemma createDocWithID_taken:
  assumes "rep E wk (kv (pdb s)) A" "validName n" "validID i" "A n = Some a" "aDocs a i \<noteq> None" "\<And>p. \<not> F p"
  shows "createDocWithID E wk n i json s = (Inl [ErrDocExists], s)"
proof -
  have "databaseKey E wk n (pdb s) = Inr (aKey a)" "has E (docKey n i) (pdb s) = Inr True"
    using databaseKey_rep [OF assms(1,2)] has_rep [of "docKey n i" "pdb s"] rep_docKey [OF assms(1,4,3)] assms(4-6)
    by (auto simp: okOrFault_def faulty_def)
  then show ?thesis by (simp add: createDocWithID_def bindM_def readM_def failM_def Let_def)
qed

lemma createDocWithID_free:
  assumes "rep E wk (kv (pdb s)) A" "validName n" "validID i" "A n = Some a" "aDocs a i = None"
    "createDocWithID E wk n i json s = (Inl e, s')"
  shows "ErrDocExists \<notin> set e"
  using createDoc_step [OF wpD [OF createDocWithID_outcome [OF assms(1-3), of True] assms(6)] assms(3)] assms(4,5) by auto

lemma createDoc_draws:
  assumes "rep E wk (kv (pdb s)) A" "validName n" "A n = Some a" "\<And>p. \<not> F p"
    "\<forall>j < k. \<exists>i w. drawID j (wld s) = Inr (i, w) \<and> aDocs a i \<noteq> None" "drawID k (wld s) = Inr (i, w)" "aDocs a i = None"
  shows "createDoc E wk n json s =
    (case createDocWithID E wk n i json (s\<lparr>wld := w\<rparr>) of (Inl e, s') \<Rightarrow> (Inl e, s') | (Inr rv, s') \<Rightarrow> (Inr (i, rv), s'))"
  using assms(1,5,6)
proof (induction k arbitrary: s)
  case 0
  then have m: "makeID (wld s) = Inr (i, w)" by simp
  have "rep E wk (kv (pdb (s\<lparr>wld := w\<rparr>))) A" using 0 by simp
  from createDocWithID_free [OF this assms(2) makeID_validID [OF m] assms(3,7)] m show ?case
    by (subst createDoc.simps) (auto split: prod.splits sum.splits)
next
  case (Suc k)
  from Suc.prems(2) obtain i1 w1 where m: "makeID (wld s) = Inr (i1, w1)" "aDocs a i1 \<noteq> None"
    by (metis drawID.simps(1) zero_less_Suc)
  have d: "drawID (Suc j) (wld s) = drawID j (wld (s\<lparr>wld := w1\<rparr>))" for j using m by simp
  have "\<forall>j < k. \<exists>i w. drawID j (wld (s\<lparr>wld := w1\<rparr>)) = Inr (i, w) \<and> aDocs a i \<noteq> None"
    "drawID k (wld (s\<lparr>wld := w1\<rparr>)) = Inr (i, w)" using Suc.prems(2,3) Suc_mono unfolding d [symmetric] by blast+
  from Suc.IH [OF _ this] Suc.prems(1) have ih: "createDoc E wk n json (s\<lparr>wld := w1\<rparr>) =
    (case createDocWithID E wk n i json (s\<lparr>wld := w\<rparr>) of (Inl e, s') \<Rightarrow> (Inl e, s') | (Inr rv, s') \<Rightarrow> (Inr (i, rv), s'))" by simp
  have "createDocWithID E wk n i1 json (s\<lparr>wld := w1\<rparr>) = (Inl [ErrDocExists], s\<lparr>wld := w1\<rparr>)"
    by (rule createDocWithID_taken [where A = A and a = a]) (use Suc.prems(1) assms m makeID_validID [OF m(1)] in simp_all)
  with m ih show ?case by (subst createDoc.simps) simp
qed

end

text \<open>
  C4: the loop that draws document IDs ends.  While Pebble does not fail and the randomness suffices
  to draw a free ID at last, the loop of \<open>createDoc\<close> returns at the first drawn ID that is free in the database, however many taken ones were drawn
  before it; the attempts that collide leave no trace but the randomness and the time they used,
  and the result is that of the one attempt with the free ID.
\<close>

theorem createDoc_ends:
  assumes "store_api E kv (\<lambda>_. False) wk" "rep E wk (kv (pdb s)) A" "validateName n = Inr ()" "A n = Some a"
    "\<forall>j < k. \<exists>i w. drawID j (wld s) = Inr (i, w) \<and> aDocs a i \<noteq> None" "drawID k (wld s) = Inr (i, w)" "aDocs a i = None"
  shows "createDoc E wk n json s =
    (case createDocWithID E wk n i json (s\<lparr>wld := w\<rparr>) of (Inl e, s') \<Rightarrow> (Inl e, s') | (Inr rv, s') \<Rightarrow> (Inr (i, rv), s'))"
  using store_api.createDoc_draws [OF assms(1-4) _ assms(5-7)] by simp

definition collidingWorld :: world where
  "collidingWorld = \<lparr>entropy = replicate 16 255 @ replicate 16 0 @ map of_nat [0..<50], clock = [0x0195C3D2E1F0, 0x0195C3D2E1F0]\<rparr>"

definition secondID :: bytes where
  "secondID = str ''0195c3d2-e1f0-7000-8000-000000000000''"

lemma colliding_draws:
  "drawID 0 collidingWorld = Inr (sampleID, \<lparr>entropy = replicate 16 0 @ map of_nat [0..<50], clock = [0x0195C3D2E1F0]\<rparr>)"
  "drawID 1 collidingWorld = Inr (secondID, \<lparr>entropy = map of_nat [0..<50], clock = []\<rparr>)"
  by code_simp+

theorem createDoc_ends_witness:
  "createDoc memServices memKey sampleDB sampleJson (docSys\<lparr>wld := collidingWorld\<rparr>) =
     (case createDocWithID memServices memKey sampleDB secondID sampleJson (docSys\<lparr>wld := \<lparr>entropy = map of_nat [0..<50], clock = []\<rparr>\<rparr>) of
        (Inl e, s') \<Rightarrow> (Inl e, s') | (Inr rv, s') \<Rightarrow> (Inr (secondID, rv), s'))"
proof -
  obtain k rv where r: "rep memServices memKey (map_of (pdb docSys))
     [sampleDB \<mapsto> \<lparr>aKey = k, aDefs = sampleDefs, aDocs = [sampleID \<mapsto> \<lparr>docJson = sampleJson, docRev = rv\<rparr>]\<rparr>]" (is "rep _ _ _ ?A")
    using sample_doc by blast
  have "secondID \<noteq> sampleID" by code_simp
  then show ?thesis
    using createDoc_ends [OF mem_store.store_api_axioms _ sample_valid(1), where s = "docSys\<lparr>wld := collidingWorld\<rparr>" and A = ?A and k = 1
        and i = secondID and w = "\<lparr>entropy = map of_nat [0..<50], clock = []\<rparr>"] r colliding_draws by simp
qed

end
