(* ===== verification/Crypto_Properties.thy ===== *)
theory Crypto_Properties
  imports Reference_Services
begin

text \<open>
  The properties of encryption at rest: wrapped keys and sealed documents open to what was
  sealed, only wrapped keys unwrap, and a store that was initialised with a master key opens
  again with the same wrapping key.
\<close>

section \<open>Store metadata\<close>

definition metaHeader :: "bytes \<Rightarrow> bytes \<Rightarrow> bytes" where
  "metaHeader salt nonce = [1, 1] @ salt @ nonce"

context crypto_api
begin

lemma openStoreMeta_sealed:
  assumes "length salt = 32" "length nonce = 12" "deriveWrapKey E mk salt = Inr key" "length key = 32"
  shows "openStoreMeta E (metaHeader salt nonce @
      gcmSeal E key nonce (storeVerifier E) (recordAD storeADInfo storeMetaKey (metaHeader salt nonce))) mk = Inr key"
proof -
  let ?h = "metaHeader salt nonce"
  let ?c = "gcmSeal E key nonce (storeVerifier E) (recordAD storeADInfo storeMetaKey ?h)"
  have v: "length (storeVerifier E) = 32" by (simp add: storeVerifier_def length_sha256)
  have c: "length ?c = 48" using length_gcmSeal [OF assms(4,2)] v by simp
  have h: "length ?h = 46" "take 46 (?h @ ?c) = ?h" "drop 46 (?h @ ?c) = ?c" "(?h @ ?c) ! 0 = 1" "(?h @ ?c) ! 1 = 1"
    "take 32 (drop 2 ?h) = salt" "drop 34 ?h = nonce"
    using assms(1,2) by (simp_all add: metaHeader_def)
  have o: "gcmOpen E key nonce ?c (recordAD storeADInfo storeMetaKey ?h) = Some (storeVerifier E)"
    using gcmOpen_iff [OF assms(4,2)] by simp
  have "length (?h @ ?c) = 94" using h(1) c by simp
  then show ?thesis
    unfolding openStoreMeta_def format_defs
    using h o v assms(3,4) by (simp add: newGCM_def del: append_assoc)
qed

end

context pebble_api
begin

lemma storeEmpty_rep: "okOrFault F (storeEmpty E db) (Inr (kv db = Map.empty))"
  using dbNewIter_kv [of db None None]
proof (elim disjE exE conjE)
  fix it rest
  assume it: "dbNewIter E db None None = Inr it" "entries it @ rest = sortedEntries (kv db) None None"
    and close: "\<forall>p. iterClose it = Some p \<longrightarrow> F p"
  have e: "sortedEntries (kv db) None None = [] \<longleftrightarrow> kv db = Map.empty"
    using kv_finite [of db] by (auto simp: sortedEntries_def boundedKeys_def)
  show ?thesis if "rest = []" "iterError it = None"
  proof -
    have "(entries it = []) = (kv db = Map.empty)" using it(2) that e by simp
    with it(1) that close show ?thesis
      by (auto simp: storeEmpty_def intro!: okOrFault_joinClose split: list.splits)
  qed
  show ?thesis if "F p" "iterError it = Some p" for p
  proof (cases "entries it")
    case Nil
    with it(1) that close show ?thesis
      by (auto simp: storeEmpty_def intro!: okOrFault_joinClose okOrFault_fault)
  next
    case (Cons x xs)
    then have "kv db \<noteq> Map.empty" using it(2) e by auto
    with Cons it(1) that close show ?thesis
      by (auto simp: storeEmpty_def intro!: okOrFault_joinClose)
  qed
qed (auto simp: storeEmpty_def intro: okOrFault_fault)

end

locale keyed_store = pebble_api E kv "\<lambda>_. False" + crypto_api E for E :: "'db services" and kv
begin

lemma initStoreCrypto_fresh:
  assumes "kv (pdb s) = Map.empty" "length mk = 32" "44 \<le> length (entropy (wld s))"
  shows "\<exists>key s' salt nonce. initStoreCrypto E mk s = (Inr key, s') \<and> length key = 32 \<and>
    deriveWrapKey E mk salt = Inr key \<and> length salt = 32 \<and> length nonce = 12 \<and>
    kv (pdb s') = [storeMetaKey \<mapsto> metaHeader salt nonce @
      gcmSeal E key nonce (storeVerifier E) (recordAD storeADInfo storeMetaKey (metaHeader salt nonce))]"
proof -
  let ?salt = "take 32 (entropy (wld s))" and ?nonce = "take 12 (drop 32 (entropy (wld s)))"
  from hkdf_ok [of mk ?salt wrappingInfo] obtain key where k: "deriveWrapKey E mk ?salt = Inr key" "length key = 32"
    by (auto simp: deriveWrapKey_def)
  let ?v = "metaHeader ?salt ?nonce @
      gcmSeal E key ?nonce (storeVerifier E) (recordAD storeADInfo storeMetaKey (metaHeader ?salt ?nonce))"
  obtain db' e where d: "dbSet E (pdb s) storeMetaKey ?v = (db', e)" by fastforce
  from dbSet_kv [OF d] have db: "e = None" "kv db' = [storeMetaKey \<mapsto> ?v]" using assms(1) by auto
  have "dbGet E (pdb s) storeMetaKey = Inr None" using dbGet_kv [of "pdb s" storeMetaKey] assms(1) by simp
  moreover have "storeEmpty E (pdb s) = Inr True"
    using storeEmpty_rep [of "pdb s"] assms(1) by (simp add: okOrFault_none)
  moreover have "randRead 32 (wld s) = Inr (?salt, (wld s)\<lparr>entropy := drop 32 (entropy (wld s))\<rparr>)"
    "randRead 12 ((wld s)\<lparr>entropy := drop 32 (entropy (wld s))\<rparr>) =
       Inr (?nonce, (wld s)\<lparr>entropy := drop 44 (entropy (wld s))\<rparr>)"
    using assms(3) by (simp_all add: randRead_def)
  ultimately have "\<exists>s'. initStoreCrypto E mk s = (Inr key, s') \<and> pdb s' = db'"
    using k d db(1) assms(2) unfolding initStoreCrypto_def initStoreMeta_def metaHeader_def
    by (simp add: format_defs bindM_def readM_def worldM_def setM_def returnM_def newGCM_def Let_def)
  then obtain s' where "initStoreCrypto E mk s = (Inr key, s')" "pdb s' = db'" by blast
  with k db assms(3) show ?thesis
    by (intro exI [of _ key] exI [of _ s'] exI [of _ ?salt] exI [of _ ?nonce]) simp
qed

lemma initStoreCrypto_again:
  assumes "kv (pdb s) storeMetaKey = Some (metaHeader salt nonce @
      gcmSeal E key nonce (storeVerifier E) (recordAD storeADInfo storeMetaKey (metaHeader salt nonce)))"
    "length salt = 32" "length nonce = 12" "deriveWrapKey E mk salt = Inr key" "length key = 32" "length mk = 32"
  shows "initStoreCrypto E mk s = (Inr key, s)"
proof -
  have "getClose E (pdb s) storeMetaKey = None" using getClose_fault by (cases "getClose E (pdb s) storeMetaKey") auto
  then show ?thesis
    using openStoreMeta_sealed [OF assms(2-5)] dbGet_kv [of "pdb s" storeMetaKey] assms(1,6)
    by (simp add: initStoreCrypto_def keySize_def returnM_def)
qed

end

interpretation mem_keyed: keyed_store memServices map_of ..

section \<open>Properties\<close>

lemma sample_entropy: "length (entropy sampleWorld) = 200"
  by (simp add: sampleWorld_def)

text \<open>
  C36: a wrapped database key unwraps to itself, and a record unwraps only if it is exactly a
  wrapped key: its version and key-number bytes, a 12-byte nonce and the sealed 32-byte key,
  authenticated with the Pebble key it is stored under.
\<close>

theorem unwrapDBKey_exact:
  assumes "crypto_api E" "length wk = 32"
  shows "(\<forall>dk w v w'. wrapDBKey E wk pk dk w = Inr (v, w') \<longrightarrow> unwrapDBKey E wk pk v = Inr dk) \<and>
    (\<forall>v dk. unwrapDBKey E wk pk v = Inr dk \<longleftrightarrow>
       length dk = 32 \<and> (\<exists>nonce. length nonce = 12 \<and>
         v = [1, 1] @ nonce @ gcmSeal E wk nonce dk (recordAD databaseAD pk ([1, 1] @ nonce))))"
  using crypto_api.wrapDBKey_spec [OF assms] crypto_api.unwrapDBKey_iff [OF assms] by blast

theorem unwrapDBKey_exact_witness:
  "\<exists>v w'. wrapDBKey memServices memKey (dbKey (str ''db'')) (replicate 32 9) sampleWorld = Inr (v, w') \<and>
     unwrapDBKey memServices memKey (dbKey (str ''db'')) v = Inr (replicate 32 9)"
proof -
  have "length memKey = 32" by (simp add: memKey_def)
  moreover from this obtain v w' where "wrapDBKey memServices memKey (dbKey (str ''db'')) (replicate 32 9) sampleWorld = Inr (v, w')"
    using mem_crypto.wrapDBKey_ok [of memKey "replicate 32 9" sampleWorld "dbKey (str ''db'')"] sample_entropy by auto
  ultimately show ?thesis using unwrapDBKey_exact [OF mem_crypto.crypto_api_axioms] by blast
qed

text \<open>
  C35: a sealed document opens, under the same keys and ID, to the same JSON bytes and the same
  revision.
\<close>

theorem openDoc_sealDoc_roundtrip:
  assumes "record_api E" "sealDoc E pk dk i rv json w = Inr (v, w')" "length rv = 16"
  shows "openDoc E pk dk i v = Inr \<lparr>docJson = json, docRev = rv\<rparr>"
  by (rule record_api.openDoc_sealDoc [OF assms])

theorem openDoc_sealDoc_roundtrip_witness:
  "\<exists>v w'. sealDoc memServices [2] (replicate 32 9) [3] (replicate 16 5) (str ''{}'') sampleWorld = Inr (v, w') \<and>
     openDoc memServices [2] (replicate 32 9) [3] v = Inr \<lparr>docJson = str ''{}'', docRev = replicate 16 5\<rparr>"
proof -
  obtain v w' where v: "sealDoc memServices [2] (replicate 32 9) [3] (replicate 16 5) (str ''{}'') sampleWorld = Inr (v, w')"
    using mem_record.sealDoc_ok [of "replicate 32 9" "str ''{}''" sampleWorld "[2]" "[3]" "replicate 16 5"] sample_entropy
    by (auto simp: maxStoredDocBytes_def)
  from v openDoc_sealDoc_roundtrip [OF mem_record.record_api_axioms v] show ?thesis by auto
qed

text \<open>
  Opening an empty store initialises it with a wrapping key derived from the master key and
  a random salt; opening the store again with the same master key yields the same wrapping key
  and changes nothing.
\<close>

theorem initStoreCrypto_reopens:
  assumes "keyed_store E kv" "kv (pdb s) = Map.empty" "length masterKey = 32" "44 \<le> length (entropy (wld s))"
  shows "\<exists>key s'. initStoreCrypto E masterKey s = (Inr key, s') \<and> length key = 32 \<and>
    (\<forall>s''. kv (pdb s'') storeMetaKey = kv (pdb s') storeMetaKey \<longrightarrow>
       initStoreCrypto E masterKey s'' = (Inr key, s''))"
proof -
  from keyed_store.initStoreCrypto_fresh [OF assms] obtain key s' salt nonce where
    k: "initStoreCrypto E masterKey s = (Inr key, s')" "length key = 32" "deriveWrapKey E masterKey salt = Inr key"
    "length salt = 32" "length nonce = 12" "kv (pdb s') = [storeMetaKey \<mapsto> metaHeader salt nonce @
      gcmSeal E key nonce (storeVerifier E) (recordAD storeADInfo storeMetaKey (metaHeader salt nonce))]"
    by blast
  then show ?thesis
    using keyed_store.initStoreCrypto_again [OF assms(1) _ k(4,5,3,2) assms(3)] by (intro exI [of _ key]) fastforce
qed

theorem initStoreCrypto_reopens_witness:
  "\<exists>key s'. initStoreCrypto memServices memKey emptySys = (Inr key, s') \<and>
     initStoreCrypto memServices memKey s' = (Inr key, s')"
proof -
  have "map_of (pdb emptySys) = Map.empty" "length memKey = 32" "44 \<le> length (entropy (wld emptySys))"
    by (simp_all add: emptySys_def memKey_def sampleWorld_def)
  from initStoreCrypto_reopens [OF mem_keyed.keyed_store_axioms this] show ?thesis by blast
qed

end
