(* ===== verification/Locks.thy ===== *)
theory Locks
  imports Store
begin

text \<open>
  The locks of the store (storage.go, \<open>dbLock\<close>, \<open>docLock\<close>, \<open>lockDocs\<close>): 64 read-write locks that
  guard databases and 256 mutexes that guard documents, chosen by a hash of the name, and the
  sequence of locks that each operation takes and releases around its work.  Threads that run operations
  concurrently are a step relation on their lock programs.
\<close>

unbundle bit_operations_syntax

section \<open>Stripes\<close>

definition dbStripeCount :: "64 word" where "dbStripeCount = 64"
definition docStripeCount :: "64 word" where "docStripeCount = 256"
definition fnvOffset :: "64 word" where "fnvOffset = 14695981039346656037"
definition fnvPrime :: "64 word" where "fnvPrime = 1099511628211"

definition hashPart :: "64 word \<Rightarrow> bytes \<Rightarrow> 64 word" where
  "hashPart hash value = foldl (\<lambda>hash c. (hash XOR ucast c) * fnvPrime) hash value"

datatype lock = DBStripe nat | DocStripe nat

definition dbLock :: "bytes \<Rightarrow> lock" where
  "dbLock database = DBStripe (unat (hashPart fnvOffset database AND (dbStripeCount - 1)))"

definition docStripe :: "bytes \<Rightarrow> bytes \<Rightarrow> nat" where
  "docStripe database docID =
     (let hash = hashPart fnvOffset database; hash = hashPart (hashPart hash [0]) docID in
      unat (hash AND (docStripeCount - 1)))"

definition docLock :: "bytes \<Rightarrow> bytes \<Rightarrow> lock" where
  "docLock database docID = DocStripe (docStripe database docID)"

text \<open>The stripes that \<open>lockDocs\<close> takes, in the order in which it takes them.\<close>

definition docStripesOf :: "bytes \<Rightarrow> bytes list \<Rightarrow> nat list" where
  "docStripesOf database ids = filter (\<lambda>stripe. List.member (map (docStripe database) ids) stripe) [0..<unat docStripeCount]"

section \<open>Lock programs\<close>

datatype mode = Shared | Excl

text \<open>
  An action takes or releases a lock, or works on data.  The work of an operation on the data it
  is to be protected for: a database as a whole, read or written (its record, its definitions,
  the range of its documents), or documents of a database that are looked up and then written.
  A thread whose next action is the work is in the middle of it, for as many steps of the others
  as it takes.
\<close>

datatype ('l, 'x) action = Acquire 'l mode | Release 'l | Work 'x

datatype access = ReadsDB bytes | WritesDB bytes | ChangesDocs bytes "bytes list"

type_synonym lockActions = "(lock, access) action list"

definition lockDocs :: "bytes \<Rightarrow> bytes list \<Rightarrow> lockActions" where
  "lockDocs database ids = map (\<lambda>stripe. Acquire (DocStripe stripe) Excl) (docStripesOf database ids)"

definition unlockDocs :: "bytes \<Rightarrow> bytes list \<Rightarrow> lockActions" where
  "unlockDocs database ids = map (\<lambda>stripe. Release (DocStripe stripe)) (rev (docStripesOf database ids))"

text \<open>
  The operations that lock; \<open>listDBs\<close> and \<open>cursorKey\<close> do not.  An import is given the identifiers of
  its attempts: it unlocks and draws again after a collision.
\<close>

datatype storeOp =
    CreateDB bytes | DeleteDB bytes
  | CreateDocWithID bytes bytes | ReplaceDoc bytes bytes | PatchDoc bytes bytes | DeleteDoc bytes bytes
  | GetDoc bytes bytes | ListDocs bytes | ExportDocs bytes | QueryDocs bytes | QueryRangePage bytes
  | PlanPathQuery bytes | QueryPathDocs bytes
  | ImportDocs bytes "bytes list list"

text \<open>\<open>createDB\<close>, \<open>getDoc\<close> and \<open>createDocWithID\<close>; the other operations lock in the same three ways.\<close>

definition writeDB :: "bytes \<Rightarrow> lockActions" where
  "writeDB database = [Acquire (dbLock database) Excl, Work (WritesDB database), Release (dbLock database)]"

definition readDB :: "bytes \<Rightarrow> lockActions" where
  "readDB database = [Acquire (dbLock database) Shared, Work (ReadsDB database), Release (dbLock database)]"

definition writeDoc :: "bytes \<Rightarrow> bytes \<Rightarrow> lockActions" where
  "writeDoc database docID =
     [Acquire (dbLock database) Shared, Acquire (docLock database docID) Excl, Work (ChangesDocs database [docID]),
      Release (docLock database docID), Release (dbLock database)]"

definition deleteDBLocks :: "bytes \<Rightarrow> lockActions" where
  "deleteDBLocks n = writeDB n"

definition replaceDocLocks :: "bytes \<Rightarrow> bytes \<Rightarrow> lockActions" where
  "replaceDocLocks n i = writeDoc n i"

definition patchDocLocks :: "bytes \<Rightarrow> bytes \<Rightarrow> lockActions" where
  "patchDocLocks n i = writeDoc n i"

definition deleteDocLocks :: "bytes \<Rightarrow> bytes \<Rightarrow> lockActions" where
  "deleteDocLocks n i = writeDoc n i"

definition listDocsLocks :: "bytes \<Rightarrow> lockActions" where
  "listDocsLocks n = readDB n"

definition exportDocsLocks :: "bytes \<Rightarrow> lockActions" where
  "exportDocsLocks n = readDB n"

definition queryDocsLocks :: "bytes \<Rightarrow> lockActions" where
  "queryDocsLocks n = readDB n"

definition queryRangeLocks :: "bytes \<Rightarrow> lockActions" where
  "queryRangeLocks n = readDB n"

definition planPathLocks :: "bytes \<Rightarrow> lockActions" where
  "planPathLocks n = readDB n"

definition queryPathLocks :: "bytes \<Rightarrow> lockActions" where
  "queryPathLocks n = readDB n"

definition importLocks :: "bytes \<Rightarrow> bytes list list \<Rightarrow> lockActions" where
  "importLocks database attempts =
     [Acquire (dbLock database) Shared, Work (ReadsDB database)] @
     concat (map (\<lambda>ids. lockDocs database ids @ [Work (ChangesDocs database ids)] @ unlockDocs database ids) attempts) @
     [Release (dbLock database)]"

fun lockProgram :: "storeOp \<Rightarrow> lockActions" where
  "lockProgram (CreateDB n) = writeDB n"
| "lockProgram (DeleteDB n) = deleteDBLocks n"
| "lockProgram (CreateDocWithID n i) = writeDoc n i"
| "lockProgram (ReplaceDoc n i) = replaceDocLocks n i"
| "lockProgram (PatchDoc n i) = patchDocLocks n i"
| "lockProgram (DeleteDoc n i) = deleteDocLocks n i"
| "lockProgram (GetDoc n i) = readDB n"
| "lockProgram (ListDocs n) = listDocsLocks n"
| "lockProgram (ExportDocs n) = exportDocsLocks n"
| "lockProgram (QueryDocs n) = queryDocsLocks n"
| "lockProgram (QueryRangePage n) = queryRangeLocks n"
| "lockProgram (PlanPathQuery n) = planPathLocks n"
| "lockProgram (QueryPathDocs n) = queryPathLocks n"
| "lockProgram (ImportDocs n attempts) = importLocks n attempts"

section \<open>Threads\<close>

text \<open>
  A thread holds locks, may have announced that it waits for exclusive access (from then on
  \<open>sync.RWMutex\<close> admits no new readers), and has the rest of its program to run.
\<close>

record ('l, 'x) thread =
  held :: "('l \<times> mode) list"
  announced :: bool
  todo :: "('l, 'x) action list"

definition startThread :: "('l, 'x) action list \<Rightarrow> ('l, 'x) thread" where
  "startThread prog = \<lparr>held = [], announced = False, todo = prog\<rparr>"

definition awaits :: "('l, 'x) thread \<Rightarrow> 'l \<Rightarrow> bool" where
  "awaits th l = (announced th \<and> (case todo th of Acquire l' Excl # _ \<Rightarrow> l' = l | _ \<Rightarrow> False))"

definition holdsExcl :: "('l, 'x) thread \<Rightarrow> 'l \<Rightarrow> bool" where
  "holdsExcl th l = List.member (held th) (l, Excl)"

definition holdsAny :: "('l, 'x) thread \<Rightarrow> 'l \<Rightarrow> bool" where
  "holdsAny th l = list_ex (\<lambda>(l', _). l' = l) (held th)"

definition others :: "(('l, 'x) thread \<Rightarrow> bool) \<Rightarrow> nat \<Rightarrow> ('l, 'x) thread list \<Rightarrow> bool" where
  "others P t ths = list_all (\<lambda>u. u = t \<or> P (ths ! u)) [0..<length ths]"

inductive lockStep :: "('l, 'x) thread list \<Rightarrow> ('l, 'x) thread list \<Rightarrow> bool" where
  announce: "t < length ths \<Longrightarrow> ths ! t = th \<Longrightarrow> todo th = Acquire l Excl # rest \<Longrightarrow> \<not> announced th \<Longrightarrow>
     others (\<lambda>o'. \<not> awaits o' l \<and> \<not> holdsExcl o' l) t ths \<Longrightarrow>
     lockStep ths (ths[t := th\<lparr>announced := True\<rparr>])"
| lock: "t < length ths \<Longrightarrow> ths ! t = th \<Longrightarrow> todo th = Acquire l Excl # rest \<Longrightarrow> announced th \<Longrightarrow>
     others (\<lambda>o'. \<not> holdsAny o' l) t ths \<Longrightarrow>
     lockStep ths (ths[t := \<lparr>held = (l, Excl) # held th, announced = False, todo = rest\<rparr>])"
| rlock: "t < length ths \<Longrightarrow> ths ! t = th \<Longrightarrow> todo th = Acquire l Shared # rest \<Longrightarrow>
     others (\<lambda>o'. \<not> awaits o' l \<and> \<not> holdsExcl o' l) t ths \<Longrightarrow>
     lockStep ths (ths[t := th\<lparr>held := (l, Shared) # held th, todo := rest\<rparr>])"
| unlock: "t < length ths \<Longrightarrow> ths ! t = th \<Longrightarrow> todo th = Release l # rest \<Longrightarrow>
     lockStep ths (ths[t := th\<lparr>held := filter (\<lambda>(l', _). l' \<noteq> l) (held th), todo := rest\<rparr>])"
| work: "t < length ths \<Longrightarrow> ths ! t = th \<Longrightarrow> todo th = Work x # rest \<Longrightarrow> lockStep ths (ths[t := th\<lparr>todo := rest\<rparr>])"

end
