(* ===== verification/Lock_Laws.thy ===== *)
theory Lock_Laws
  imports Locks
begin

text \<open>
  Locks taken in a fixed order: threads that run disciplined programs never share an exclusive
  lock, never all wait for each other, and all finish; and when the locks of a program cover its
  work, conflicting work is never done at the same time.  The programs of the store's operations
  are disciplined, and their locks cover their work.
\<close>

section \<open>Discipline\<close>

text \<open>Every lock taken ranks above those held, only held locks are released, and all of them at the end.\<close>

fun disciplined :: "('l \<Rightarrow> nat) \<Rightarrow> 'l list \<Rightarrow> ('l, 'x) action list \<Rightarrow> bool" where
  "disciplined rank hs [] = (hs = [])"
| "disciplined rank hs (Acquire l m # rest) = ((\<forall>h \<in> set hs. rank h < rank l) \<and> disciplined rank (l # hs) rest)"
| "disciplined rank hs (Release l # rest) = (l \<in> set hs \<and> disciplined rank (filter (\<lambda>h. h \<noteq> l) hs) rest)"
| "disciplined rank hs (Work x # rest) = disciplined rank hs rest"

text \<open>The work is done while the locks that are held cover it.\<close>

fun covered :: "(('l \<times> mode) list \<Rightarrow> 'x \<Rightarrow> bool) \<Rightarrow> ('l \<times> mode) list \<Rightarrow> ('l, 'x) action list \<Rightarrow> bool" where
  "covered cover hs [] = True"
| "covered cover hs (Acquire l m # rest) = covered cover ((l, m) # hs) rest"
| "covered cover hs (Release l # rest) = covered cover (filter (\<lambda>(l', _). l' \<noteq> l) hs) rest"
| "covered cover hs (Work x # rest) = (cover hs x \<and> covered cover hs rest)"

definition okThread :: "('l \<Rightarrow> nat) \<Rightarrow> ('l, 'x) thread \<Rightarrow> bool" where
  "okThread rank th \<longleftrightarrow> disciplined rank (map fst (held th)) (todo th) \<and>
     (announced th \<longrightarrow> (\<exists>l rest. todo th = Acquire l Excl # rest))"

definition exclusive :: "('l, 'x) thread list \<Rightarrow> bool" where
  "exclusive ths \<longleftrightarrow> (\<forall>t u l. t < length ths \<longrightarrow> u < length ths \<longrightarrow> t \<noteq> u \<longrightarrow> holdsExcl (ths ! t) l \<longrightarrow> \<not> holdsAny (ths ! u) l)"

definition lockInv :: "('l \<Rightarrow> nat) \<Rightarrow> ('l, 'x) thread list \<Rightarrow> bool" where
  "lockInv rank ths \<longleftrightarrow> list_all (okThread rank) ths \<and> exclusive ths"

lemma others_iff: "others P t ths \<longleftrightarrow> (\<forall>u < length ths. u \<noteq> t \<longrightarrow> P (ths ! u))"
  by (auto simp: others_def list_all_iff)

lemma holds_iff: "holdsExcl th l \<longleftrightarrow> (l, Excl) \<in> set (held th)" "holdsAny th l \<longleftrightarrow> (\<exists>m. (l, m) \<in> set (held th))"
  by (auto simp: holdsExcl_def holdsAny_def list_ex_iff)

lemma holdsExcl_any: "holdsExcl th l \<Longrightarrow> holdsAny th l"
  by (auto simp: holds_iff)

text \<open>What a step does to one thread.\<close>

lemma lockStep_cases:
  assumes "lockStep ths ths'"
  obtains t th th' where "t < length ths" "ths ! t = th" "ths' = ths[t := th']"
    "\<And>rank. okThread rank th \<Longrightarrow> okThread rank th'" "\<And>cover. covered cover (held th) (todo th) \<Longrightarrow> covered cover (held th') (todo th')"
    "\<And>l. holdsExcl th' l \<Longrightarrow> holdsExcl th l \<or> (\<forall>u < length ths. u \<noteq> t \<longrightarrow> \<not> holdsAny (ths ! u) l)"
    "\<And>l. holdsAny th' l \<Longrightarrow> holdsAny th l \<or> (\<forall>u < length ths. u \<noteq> t \<longrightarrow> \<not> holdsExcl (ths ! u) l)"
    "2 * length (todo th') - (if announced th' then 1 else 0) < 2 * length (todo th) - (if announced th then (1 :: nat) else 0)"
  using assms
proof cases
  case (announce t th l rest)
  show ?thesis
    by (rule that [of t th "th\<lparr>announced := True\<rparr>"]) (use announce in \<open>auto simp: okThread_def holds_iff\<close>)
next
  case (lock t th l rest)
  show ?thesis
    by (rule that [of t th "\<lparr>held = (l, Excl) # held th, announced = False, todo = rest\<rparr>"])
      (use lock in \<open>auto simp: okThread_def holds_iff others_iff\<close>)
next
  case (rlock t th l rest)
  show ?thesis
    by (rule that [of t th "th\<lparr>held := (l, Shared) # held th, todo := rest\<rparr>"])
      (use rlock in \<open>auto simp: okThread_def holds_iff others_iff\<close>)
next
  case (unlock t th l rest)
  have "map fst (filter (\<lambda>(l', _). l' \<noteq> l) (held th)) = filter (\<lambda>h. h \<noteq> l) (map fst (held th))"
    by (induction "held th") (auto simp: filter_map comp_def split_beta)
  then show ?thesis
    by (intro that [of t th "th\<lparr>held := filter (\<lambda>(l', _). l' \<noteq> l) (held th), todo := rest\<rparr>"])
      (use unlock in \<open>auto simp: okThread_def holds_iff\<close>)
next
  case (work t th x rest)
  show ?thesis
    by (rule that [of t th "th\<lparr>todo := rest\<rparr>"]) (use work in \<open>auto simp: okThread_def holds_iff\<close>)
qed

lemma lockStep_inv:
  assumes "lockStep ths ths'" "lockInv rank ths"
  shows "lockInv rank ths'"
  using assms(1)
proof (cases rule: lockStep_cases)
  case (1 t th th')
  have "list_all (okThread rank) ths'"
    using assms(2) 1 by (auto simp: lockInv_def list_all_length nth_list_update)
  moreover have "exclusive ths'"
    unfolding exclusive_def
  proof (intro allI impI)
    fix a b l
    assume ab: "a < length ths'" "b < length ths'" "a \<noteq> b" "holdsExcl (ths' ! a) l"
    have ex: "t' < length ths \<Longrightarrow> u < length ths \<Longrightarrow> t' \<noteq> u \<Longrightarrow> holdsExcl (ths ! t') l \<Longrightarrow> \<not> holdsAny (ths ! u) l" for t' u
      using assms(2) by (auto simp: lockInv_def exclusive_def)
    show "\<not> holdsAny (ths' ! b) l"
      using ab 1(1-3) 1(6) [of l] 1(7) [of l] ex [of a b] ex [of b a] by (auto simp: nth_list_update split: if_splits)
  qed
  ultimately show ?thesis by (simp add: lockInv_def)
qed

section \<open>Progress\<close>

lemma disciplined_held: "disciplined rank hs todo' \<Longrightarrow> h \<in> set hs \<Longrightarrow> todo' \<noteq> []"
  by (cases todo') auto

text \<open>A thread that cannot step waits for a lock that another thread holds.\<close>

lemma blocked_by:
  assumes "t < length ths" "todo (ths ! t) \<noteq> []" "\<nexists>ths'. lockStep ths ths'"
  shows "\<exists>l m rest u. todo (ths ! t) = Acquire l m # rest \<and> u < length ths \<and> holdsAny (ths ! u) l"
proof -
  obtain a rest where todo: "todo (ths ! t) = a # rest" using assms(2) by (cases "todo (ths ! t)") auto
  have waiting: "\<exists>u < length ths. holdsAny (ths ! u) l" if "v < length ths" "awaits (ths ! v) l" for v l
  proof -
    from that obtain r where r: "todo (ths ! v) = Acquire l Excl # r" "announced (ths ! v)"
      by (auto simp: awaits_def split: list.splits action.splits mode.splits)
    then have "\<not> others (\<lambda>o'. \<not> holdsAny o' l) v ths" using assms(3) lock [OF that(1) refl r] by blast
    then show ?thesis by (auto simp: others_iff)
  qed
  show ?thesis
  proof (cases a)
    case (Release l)
    with todo assms(1,3) unlock [OF assms(1) refl] show ?thesis by blast
  next
    case (Work x)
    with todo assms(1,3) lockStep.work [OF assms(1) refl] show ?thesis by blast
  next
    case (Acquire l m)
    consider (shared) "m = Shared" | (announced) "m = Excl" "announced (ths ! t)" | (fresh) "m = Excl" "\<not> announced (ths ! t)"
      by (cases m) auto
    then show ?thesis
    proof cases
      case shared
      with todo Acquire assms rlock [OF assms(1) refl] have "\<not> others (\<lambda>o'. \<not> awaits o' l \<and> \<not> holdsExcl o' l) t ths" by blast
      then show ?thesis using todo Acquire waiting holdsExcl_any by (fastforce simp: others_iff)
    next
      case announced
      with todo Acquire assms lock [OF assms(1) refl] have "\<not> others (\<lambda>o'. \<not> holdsAny o' l) t ths" by blast
      then show ?thesis using todo Acquire by (fastforce simp: others_iff)
    next
      case fresh
      with todo Acquire assms announce [OF assms(1) refl] have "\<not> others (\<lambda>o'. \<not> awaits o' l \<and> \<not> holdsExcl o' l) t ths" by blast
      then show ?thesis using todo Acquire waiting holdsExcl_any by (fastforce simp: others_iff)
    qed
  qed
qed

definition nextRank :: "('l \<Rightarrow> nat) \<Rightarrow> ('l, 'x) thread \<Rightarrow> nat" where
  "nextRank rank th = (case todo th of Acquire l _ # _ \<Rightarrow> rank l | _ \<Rightarrow> 0)"

lemma lockStep_progress:
  assumes "list_all (okThread rank) ths" "t < length ths" "todo (ths ! t) \<noteq> []"
  shows "\<exists>ths'. lockStep ths ths'"
proof (rule ccontr)
  assume stuck: "\<nexists>ths'. lockStep ths ths'"
  let ?B = "{u. u < length ths \<and> todo (ths ! u) \<noteq> []}"
  let ?r = "\<lambda>u. nextRank rank (ths ! u)"
  have fin: "finite (?r ` ?B)" and ne: "?r ` ?B \<noteq> {}" using assms(2,3) by auto
  from Max_in [OF fin ne] obtain b where b: "b \<in> ?B" "?r b = Max (?r ` ?B)" by auto
  have b: "b \<in> ?B" "\<forall>u \<in> ?B. ?r u \<le> ?r b" using b Max_ge [OF fin] by auto
  from blocked_by [OF _ _ stuck, of b] b(1) obtain l m rest u where
    l: "todo (ths ! b) = Acquire l m # rest" and u: "u < length ths" "holdsAny (ths ! u) l" by auto
  have ok: "okThread rank (ths ! u)" using assms(1) u(1) by (simp add: list_all_length)
  have h: "l \<in> set (map fst (held (ths ! u)))" using u(2) by (auto simp: holds_iff rev_image_eqI)
  with ok have "todo (ths ! u) \<noteq> []" unfolding okThread_def by (metis disciplined_held)
  with u(1) have uB: "u \<in> ?B" by simp
  from blocked_by [OF _ _ stuck, of u] uB obtain l' m' rest' where l': "todo (ths ! u) = Acquire l' m' # rest'" by auto
  with ok h have "rank l < rank l'" by (auto simp: okThread_def)
  moreover have "nextRank rank (ths ! u) = rank l'" "nextRank rank (ths ! b) = rank l" by (simp_all add: nextRank_def l l')
  ultimately show False using b(2) uB by fastforce
qed

section \<open>Termination\<close>

definition remaining :: "('l, 'x) thread list \<Rightarrow> nat" where
  "remaining ths = sum_list (map (\<lambda>th. 2 * length (todo th) - (if announced th then 1 else 0)) ths)"

lemma sum_list_update_less:
  "t < length xs \<Longrightarrow> f y < f (xs ! t) \<Longrightarrow> sum_list (map f (xs[t := y])) < (sum_list (map f xs) :: nat)"
proof (induction xs arbitrary: t)
  case (Cons x xs)
  then show ?case by (cases t) auto
qed simp

lemma lockStep_remaining: "lockStep ths ths' \<Longrightarrow> remaining ths' < remaining ths"
  by (erule lockStep_cases) (auto simp: remaining_def intro!: sum_list_update_less)

lemma lockStep_finish:
  assumes "lockInv rank ths"
  shows "\<exists>ths'. lockStep\<^sup>*\<^sup>* ths ths' \<and> (\<forall>th \<in> set ths'. todo th = [] \<and> held th = [])"
  using assms
proof (induction "remaining ths" arbitrary: ths rule: less_induct)
  case less
  show ?case
  proof (cases "\<forall>th \<in> set ths. todo th = []")
    case True
    then have "\<forall>th \<in> set ths. held th = []"
      using less.prems by (auto simp: lockInv_def list_all_iff okThread_def)
    with True show ?thesis by blast
  next
    case False
    then obtain t where "t < length ths" "todo (ths ! t) \<noteq> []" by (auto simp: in_set_conv_nth)
    with lockStep_progress less.prems obtain s where s: "lockStep ths s" by (metis lockInv_def)
    from less.hyps [OF lockStep_remaining [OF s] lockStep_inv [OF s less.prems]] obtain ths' where
      "lockStep\<^sup>*\<^sup>* s ths'" "\<forall>th \<in> set ths'. todo th = [] \<and> held th = []" by blast
    with s show ?thesis by (meson converse_rtranclp_into_rtranclp)
  qed
qed

section \<open>Systems of operations\<close>

locale lock_discipline =
  fixes rank :: "'l \<Rightarrow> nat" and prog :: "'op \<Rightarrow> ('l, 'x) action list"
  assumes prog_disciplined: "disciplined rank [] (prog op)"
begin

lemma begin_inv: "lockInv rank (map (\<lambda>op. startThread (prog op)) ops)"
  by (auto simp: lockInv_def list_all_iff okThread_def startThread_def exclusive_def holds_iff prog_disciplined)

lemma reachable_inv: "lockStep\<^sup>*\<^sup>* (map (\<lambda>op. startThread (prog op)) ops) ths \<Longrightarrow> lockInv rank ths"
  by (induction rule: rtranclp_induct) (auto intro: begin_inv lockStep_inv)

lemma reachable_progress:
  "lockStep\<^sup>*\<^sup>* (map (\<lambda>op. startThread (prog op)) ops) ths \<Longrightarrow> th \<in> set ths \<Longrightarrow> todo th \<noteq> [] \<Longrightarrow> \<exists>ths'. lockStep ths ths'"
  using reachable_inv lockStep_progress by (metis in_set_conv_nth lockInv_def)

end

lemma lockStep_covered:
  assumes "lockStep ths ths'" "list_all (\<lambda>th. covered cover (held th) (todo th)) ths"
  shows "list_all (\<lambda>th. covered cover (held th) (todo th)) ths'"
  using assms(1)
proof (cases rule: lockStep_cases)
  case (1 t th th')
  then show ?thesis using assms(2) by (auto simp: list_all_length nth_list_update)
qed

text \<open>
  Programs whose locks cover their work: when two pieces of work conflict, whatever locks cover
  them have one in common that one of the two holds exclusively.
\<close>

locale guarded_work = lock_discipline rank prog
  for rank :: "'l \<Rightarrow> nat" and prog :: "'op \<Rightarrow> ('l, 'x) action list" +
  fixes cover :: "('l \<times> mode) list \<Rightarrow> 'x \<Rightarrow> bool" and conflict :: "'x \<Rightarrow> 'x \<Rightarrow> bool"
  assumes prog_covered: "covered cover [] (prog op)"
    and conflict_covers: "conflict x y \<Longrightarrow> cover hs x \<Longrightarrow> cover ks y \<Longrightarrow>
      \<exists>l. (l, Excl) \<in> set hs \<and> (\<exists>m. (l, m) \<in> set ks) \<or> (l, Excl) \<in> set ks \<and> (\<exists>m. (l, m) \<in> set hs)"
begin

lemma reachable_covered:
  "lockStep\<^sup>*\<^sup>* (map (\<lambda>op. startThread (prog op)) ops) ths \<Longrightarrow> list_all (\<lambda>th. covered cover (held th) (todo th)) ths"
proof (induction rule: rtranclp_induct)
  case base
  show ?case by (simp add: list_all_iff startThread_def prog_covered)
next
  case (step y z)
  then show ?case by (blast intro: lockStep_covered)
qed

lemma reachable_no_conflict:
  assumes "lockStep\<^sup>*\<^sup>* (map (\<lambda>op. startThread (prog op)) ops) ths" "t < length ths" "u < length ths" "t \<noteq> u"
    "todo (ths ! t) = Work x # rest" "conflict x y"
  shows "todo (ths ! u) \<noteq> Work y # rest'"
proof
  assume y: "todo (ths ! u) = Work y # rest'"
  have "covered cover (held (ths ! t)) (todo (ths ! t))" "covered cover (held (ths ! u)) (todo (ths ! u))"
    using reachable_covered [OF assms(1)] assms(2,3) by (simp_all add: list_all_length)
  then have "cover (held (ths ! t)) x" "cover (held (ths ! u)) y" by (simp_all add: assms(5) y)
  from conflict_covers [OF assms(6) this] have
    "\<exists>l. holdsExcl (ths ! t) l \<and> holdsAny (ths ! u) l \<or> holdsExcl (ths ! u) l \<and> holdsAny (ths ! t) l"
    unfolding holds_iff by blast
  with reachable_inv [OF assms(1)] assms(2-4) show False by (auto simp: lockInv_def exclusive_def)
qed

end

section \<open>The locks of the store\<close>

fun lockRank :: "lock \<Rightarrow> nat" where
  "lockRank (DBStripe i) = i"
| "lockRank (DocStripe i) = 64 + i"

lemma stripe_bounds: "\<exists>i < 64. dbLock database = DBStripe i" "docStripe database docID < 256"
proof -
  have m: "(63 :: 64 word) = mask 6" "(255 :: 64 word) = mask 8" by (simp_all add: mask_numeral)
  have a: "unat (w AND mask 6) < 64" "unat (w AND mask 8) < 256" for w :: "64 word"
    unfolding take_bit_eq_mask [symmetric] unsigned_take_bit_eq
    using take_bit_nat_less_exp [of 6 "unat w"] take_bit_nat_less_exp [of 8 "unat w"] by simp_all
  show "\<exists>i < 64. dbLock database = DBStripe i"
    unfolding dbLock_def dbStripeCount_def using a(1) by (simp add: m)
  show "docStripe database docID < 256"
    unfolding docStripe_def docStripeCount_def Let_def using a(2) by (simp add: m)
qed

lemma disciplined_docs:
  assumes "sorted ss" "distinct ss" "\<forall>h \<in> set hs. \<forall>s \<in> set ss. lockRank h < 64 + s"
    "disciplined lockRank hs rest"
  shows "disciplined lockRank hs (map (\<lambda>s. Acquire (DocStripe s) Excl) ss @ Work x # map (\<lambda>s. Release (DocStripe s)) (rev ss) @ rest)"
  using assms
proof (induction ss arbitrary: hs rest)
  case (Cons s ss)
  have lt: "\<forall>x \<in> set ss. s < x" using Cons.prems(1,2) by (fastforce simp: order.order_iff_strict)
  have "DocStripe s \<notin> set hs" using Cons.prems(3) by fastforce
  then have f: "filter (\<lambda>h. h \<noteq> DocStripe s) (DocStripe s # hs) = hs" by (auto intro: filter_True)
  have "disciplined lockRank (DocStripe s # hs) (map (\<lambda>s. Acquire (DocStripe s) Excl) ss @ Work x # map (\<lambda>s. Release (DocStripe s)) (rev ss) @
      Release (DocStripe s) # rest)"
    using Cons.prems lt f by (intro Cons.IH) auto
  then show ?case using Cons.prems(3) by simp
qed simp

lemma disciplined_import:
  "disciplined lockRank [dbLock n] (concat (map (\<lambda>ids. lockDocs n ids @ [Work (ChangesDocs n ids)] @ unlockDocs n ids) attempts) @ [Release (dbLock n)])"
proof (induction attempts)
  case (Cons ids attempts)
  obtain i where i: "i < 64" "dbLock n = DBStripe i" using stripe_bounds(1) by blast
  have "disciplined lockRank [dbLock n] (lockDocs n ids @ Work (ChangesDocs n ids) # unlockDocs n ids @
      concat (map (\<lambda>ids. lockDocs n ids @ [Work (ChangesDocs n ids)] @ unlockDocs n ids) attempts) @ [Release (dbLock n)])"
    unfolding lockDocs_def [of n ids] unlockDocs_def [of n ids] append_assoc
    by (rule disciplined_docs) (use Cons i in \<open>auto simp: docStripesOf_def sorted_wrt_filter\<close>)
  then show ?case by simp
qed simp

lemmas operationLocks = writeDB_def readDB_def deleteDBLocks_def replaceDocLocks_def patchDocLocks_def deleteDocLocks_def
  listDocsLocks_def exportDocsLocks_def queryDocsLocks_def queryRangeLocks_def planPathLocks_def queryPathLocks_def importLocks_def

interpretation store_locks: lock_discipline lockRank lockProgram
proof
  fix op
  have doc: "disciplined lockRank [] (writeDoc n i)" for n i
  proof -
    obtain k where k: "k < 64" "dbLock n = DBStripe k" using stripe_bounds(1) by blast
    then show ?thesis by (simp add: writeDoc_def docLock_def)
  qed
  show "disciplined lockRank [] (lockProgram op)"
    by (cases op) (simp_all add: doc operationLocks disciplined_import [unfolded append_Cons append_Nil])
qed

text \<open>
  The locks that protect the work: a database is written under its lock taken exclusively, and read
  under it in any mode; documents are changed under the lock of the database and the exclusive
  locks of all of them.
\<close>

fun storeCover :: "(lock \<times> mode) list \<Rightarrow> access \<Rightarrow> bool" where
  "storeCover hs (ReadsDB n) = (\<exists>m. (dbLock n, m) \<in> set hs)"
| "storeCover hs (WritesDB n) = ((dbLock n, Excl) \<in> set hs)"
| "storeCover hs (ChangesDocs n ids) = ((\<exists>m. (dbLock n, m) \<in> set hs) \<and> (\<forall>i \<in> set ids. (docLock n i, Excl) \<in> set hs))"

text \<open>
  Work that must not overlap: nothing on a database while it is created or deleted, and no two
  changes of the same document.
\<close>

fun accessDB :: "access \<Rightarrow> bytes" where
  "accessDB (ReadsDB n) = n"
| "accessDB (WritesDB n) = n"
| "accessDB (ChangesDocs n ids) = n"

fun changed :: "access \<Rightarrow> bytes set" where
  "changed (ChangesDocs n ids) = set ids"
| "changed x = {}"

definition conflict :: "access \<Rightarrow> access \<Rightarrow> bool" where
  "conflict x y \<longleftrightarrow> accessDB x = accessDB y \<and>
     (x = WritesDB (accessDB x) \<or> y = WritesDB (accessDB y) \<or> changed x \<inter> changed y \<noteq> {})"

lemma covered_docs:
  assumes "\<forall>hs'. set hs' = set hs \<union> (\<lambda>s. (DocStripe s, Excl)) ` set ss \<longrightarrow> storeCover hs' x"
    "\<And>hs'. set hs' = {p \<in> set hs. fst p \<notin> DocStripe ` set ss} \<Longrightarrow> covered storeCover hs' rest"
  shows "covered storeCover hs (map (\<lambda>s. Acquire (DocStripe s) Excl) ss @ Work x # map (\<lambda>s. Release (DocStripe s)) (rev ss) @ rest)"
proof -
  have release: "covered storeCover hs (map (\<lambda>s. Release (DocStripe s)) ts @ rest)"
    if "\<And>hs'. set hs' = {p \<in> set hs. fst p \<notin> DocStripe ` set ts} \<Longrightarrow> covered storeCover hs' rest" for hs ts
    using that
  proof (induction ts arbitrary: hs)
    case (Cons s ts)
    show ?case by (simp, rule Cons.IH, rule Cons.prems) auto
  qed simp
  have acquire: "covered storeCover hs (map (\<lambda>s. Acquire (DocStripe s) Excl) ts @ tail)"
    if "\<And>hs'. set hs' = set hs \<union> (\<lambda>s. (DocStripe s, Excl)) ` set ts \<Longrightarrow> covered storeCover hs' tail" for hs ts tail
    using that
  proof (induction ts arbitrary: hs)
    case (Cons s ts)
    show ?case by (simp, rule Cons.IH, rule Cons.prems) auto
  qed simp
  show ?thesis
  proof (rule acquire)
    fix hs' assume hs': "set hs' = set hs \<union> (\<lambda>s. (DocStripe s, Excl)) ` set ss"
    have "covered storeCover hs' (map (\<lambda>s. Release (DocStripe s)) (rev ss) @ rest)"
      by (rule release, rule assms(2)) (use hs' in auto)
    with assms(1) hs' show "covered storeCover hs' (Work x # map (\<lambda>s. Release (DocStripe s)) (rev ss) @ rest)" by simp
  qed
qed

lemma stripes_cover: "i \<in> set ids \<Longrightarrow> docStripe n i \<in> set (docStripesOf n ids)"
  using stripe_bounds(2) [of n i] by (auto simp: docStripesOf_def docStripeCount_def)

lemma covered_import:
  assumes "(dbLock n, m) \<in> set hs"
  shows "covered storeCover hs (concat (map (\<lambda>ids. lockDocs n ids @ [Work (ChangesDocs n ids)] @ unlockDocs n ids) attempts) @ [Release (dbLock n)])"
  using assms
proof (induction attempts arbitrary: hs)
  case (Cons ids attempts)
  obtain k where k: "dbLock n = DBStripe k" using stripe_bounds(1) by blast
  have "covered storeCover hs (lockDocs n ids @ Work (ChangesDocs n ids) # unlockDocs n ids @
      concat (map (\<lambda>ids. lockDocs n ids @ [Work (ChangesDocs n ids)] @ unlockDocs n ids) attempts) @ [Release (dbLock n)])"
    unfolding lockDocs_def [of n ids] unlockDocs_def [of n ids]
  proof (rule covered_docs)
    show "\<forall>hs'. set hs' = set hs \<union> (\<lambda>s. (DocStripe s, Excl)) ` set (docStripesOf n ids) \<longrightarrow> storeCover hs' (ChangesDocs n ids)"
      using Cons.prems stripes_cover [of _ ids n] by (auto simp: docLock_def)
  next
    fix hs' assume "set hs' = {p \<in> set hs. fst p \<notin> DocStripe ` set (docStripesOf n ids)}"
    with Cons.prems k have "(dbLock n, m) \<in> set hs'" by auto
    then show "covered storeCover hs' (concat (map (\<lambda>ids. lockDocs n ids @ [Work (ChangesDocs n ids)] @ unlockDocs n ids) attempts) @ [Release (dbLock n)])"
      by (rule Cons.IH)
  qed
  then show ?case by simp
qed simp

interpretation store_work: guarded_work lockRank lockProgram storeCover conflict
proof
  fix op
  have doc: "covered storeCover [] (writeDoc n i)" for n i by (auto simp: writeDoc_def)
  have imp: "covered storeCover [(dbLock n, Shared)] (concat (map (\<lambda>ids. lockDocs n ids @ Work (ChangesDocs n ids) # unlockDocs n ids) attempts) @ [Release (dbLock n)])"
    for n attempts using covered_import [of n Shared] by simp
  show "covered storeCover [] (lockProgram op)" by (cases op) (auto simp: doc operationLocks imp)
next
  fix x y hs ks
  assume "conflict x y" "storeCover hs x" "storeCover ks y"
  then show "\<exists>l. (l, Excl) \<in> set hs \<and> (\<exists>m. (l, m) \<in> set ks) \<or> (l, Excl) \<in> set ks \<and> (\<exists>m. (l, m) \<in> set hs)"
    by (cases x; cases y) (auto simp: conflict_def)
qed

section \<open>Properties\<close>

text \<open>
  C24: the locks of the store cannot deadlock.  However many operations run concurrently and
  however far they have come, as long as one of them has not finished some operation can
  take its next step, and all of them can be run to their ends with every lock released.
\<close>

theorem locks_deadlock_free:
  assumes "lockStep\<^sup>*\<^sup>* (map (\<lambda>op. startThread (lockProgram op)) ops) ths"
  shows "((\<exists>th \<in> set ths. todo th \<noteq> []) \<longrightarrow> (\<exists>ths'. lockStep ths ths')) \<and>
    (\<exists>ths'. lockStep\<^sup>*\<^sup>* ths ths' \<and> (\<forall>th \<in> set ths'. todo th = [] \<and> held th = []))"
  using store_locks.reachable_progress [OF assms] lockStep_finish [OF store_locks.reachable_inv [OF assms]] by blast

definition rivals :: "storeOp list" where
  "rivals = [DeleteDB [97], ReplaceDoc [97] [98]]"

theorem locks_deadlock_free_witness:
  "\<exists>ths'. lockStep (map (\<lambda>op. startThread (lockProgram op)) rivals) ths'"
  using locks_deadlock_free [of rivals "map (\<lambda>op. startThread (lockProgram op)) rivals"]
  by (simp add: rivals_def startThread_def operationLocks)

text \<open>
  C27: the locks separate conflicting work.  However many operations that lock run concurrently and
  however far they have come, while one of them works on a database that it creates or deletes, no
  other one works on that database, and while one of them looks up and writes a document (an
  import its whole batch), no other one changes that document.
\<close>

theorem locks_separate_work:
  assumes "lockStep\<^sup>*\<^sup>* (map (\<lambda>op. startThread (lockProgram op)) ops) ths" "t < length ths" "u < length ths" "t \<noteq> u"
    "todo (ths ! t) = Work x # rest" "conflict x y"
  shows "todo (ths ! u) \<noteq> Work y # rest'"
  by (rule store_work.reachable_no_conflict [OF assms])

lemma rivals_run:
  "lockStep\<^sup>*\<^sup>* (map (\<lambda>op. startThread (lockProgram op)) rivals)
    [\<lparr>held = [(dbLock [97], Excl)], announced = False, todo = [Work (WritesDB [97]), Release (dbLock [97])]\<rparr>, startThread (writeDoc [97] [98])]"
proof -
  let ?s0 = "map (\<lambda>op. startThread (lockProgram op)) rivals"
  let ?t0 = "startThread (writeDB [97])"
  let ?s1 = "[?t0\<lparr>announced := True\<rparr>, startThread (writeDoc [97] [98])]"
  have s0: "?s0 = [?t0, startThread (writeDoc [97] [98])]" by (simp add: rivals_def deleteDBLocks_def replaceDocLocks_def)
  have "lockStep [?t0, startThread (writeDoc [97] [98])] ([?t0, startThread (writeDoc [97] [98])] [0 := ?t0\<lparr>announced := True\<rparr>])"
    by (rule announce [where l = "dbLock [97]"])
      (auto simp: startThread_def writeDB_def writeDoc_def others_iff awaits_def holds_iff less_Suc_eq)
  moreover have "lockStep ?s1 (?s1 [0 := \<lparr>held = (dbLock [97], Excl) # held (?t0\<lparr>announced := True\<rparr>), announced = False, todo = [Work (WritesDB [97]), Release (dbLock [97])]\<rparr>])"
    by (rule lock) (auto simp: startThread_def writeDB_def writeDoc_def others_iff holds_iff less_Suc_eq)
  ultimately show ?thesis unfolding s0 by (simp add: startThread_def)
qed

theorem locks_separate_work_witness:
  "\<forall>rest. todo ([\<lparr>held = [(dbLock [97], Excl)], announced = False, todo = [Work (WritesDB [97]), Release (dbLock [97])]\<rparr>,
      startThread (writeDoc [97] [98])] ! 1) \<noteq> Work (ChangesDocs [97] [[98]]) # rest"
  using locks_separate_work [OF rivals_run, of 0 1 "WritesDB [97]" "[Release (dbLock [97])]" "ChangesDocs [97] [[98]]"]
  by (simp add: conflict_def)

end
