(* ===== verification/Lost_Updates.thy ===== *)
theory Lost_Updates
  imports Api_Properties
begin

text \<open>
  Optimistic concurrency over HTTP: of two conditional changes to a document that name the same
  revision, at most one takes effect.
\<close>

definition namesRevision :: "matchCond \<Rightarrow> bool" where
  "namesRevision match \<longleftrightarrow> condSet match \<and> \<not> wildcard match"

text \<open>A conditional change: a PUT, a PATCH or a DELETE with this condition.\<close>

definition changesIf :: "matchCond \<Rightarrow> docIntent \<Rightarrow> bool" where
  "changesIf match intent \<longleftrightarrow> intent = RemoveDoc match \<or> (\<exists>code f. intent = WriteDoc code match f)"

text \<open>What a successful change leaves: no document, or one with a revision the condition does not name.\<close>

lemma docAt_putDoc: "docAt (putDoc A n a i x) n i = map_option (Pair (a\<lparr>aDocs := (aDocs a)(i := x)\<rparr>)) x"
  by (cases x) (simp_all add: docAt_def putDoc_def)

lemma change_moves_on:
  assumes "docStep n i intent A resp A'" "changesIf match intent" "namesRevision match" "respStatus resp \<in> {200, 204}"
    "\<And>code f d r. intent = WriteDoc code match f \<Longrightarrow> f d = Inl r \<Longrightarrow> respStatus r \<in> {400, 413}"
  shows "\<forall>a d. docAt A' n i = Some (a, d) \<longrightarrow> \<not> matchRevision match (docRev d)"
proof (cases "docAt A n i")
  case None
  with assms show ?thesis by (auto simp: docStep_def changesIf_def)
next
  case (Some p)
  obtain a d where p: "p = (a, d)" by fastforce
  from assms(2) show ?thesis unfolding changesIf_def
  proof (elim disjE exE)
    assume "intent = RemoveDoc match"
    with assms Some p show ?thesis by (auto simp: docStep_def docAt_putDoc split: if_splits)
  next
    fix code f
    assume w: "intent = WriteDoc code match f"
    show ?thesis
    proof (cases "f (docJson d)")
      case (Inl r)
      with assms(5) [OF w Inl] assms(1,3,4) Some p w show ?thesis by (auto simp: docStep_def split: if_splits)
    next
      case (Inr json)
      with assms Some p w show ?thesis
        by (auto simp: docStep_def docAt_putDoc matchRevision_def namesRevision_def split: if_splits)
    qed
  qed
qed

lemma stale_change:
  assumes "docStep n i intent A resp A'" "changesIf match intent" "\<forall>a d. docAt A n i = Some (a, d) \<longrightarrow> \<not> matchRevision match (docRev d)"
  shows "respStatus resp \<in> {404, 412} \<and> A' = A"
  using assms by (auto simp: docStep_def changesIf_def split: option.splits)

lemma intent_refusals:
  "intentOf env r = WriteDoc code match f \<Longrightarrow> f d = Inl resp \<Longrightarrow> respStatus resp \<in> {400, 413}"
proof -
  assume "intentOf env r = WriteDoc code match f" "f d = Inl resp"
  then have "\<exists>e. resp = patchRefused e"
    by (auto simp: intentOf_def ifMatching_def orRefuse_def mapErr_def split: if_splits sum.splits)
  then show ?thesis using patchRefused_status by blast
qed

text \<open>
  C6: no update is lost.  Two requests change the same document, each by PUT, PATCH or DELETE and
  under the condition that the document still has one revision that both name.  When the first
  one succeeds, the second is answered with 412, or with 404 after a deletion, and changes nothing,
  whatever the bodies are.  Pebble reports no faults, there is randomness for both, bodies are
  limited to 64 MiB at most, and the server is not stopping.
\<close>

theorem lost_update_prevented:
  assumes "store_api (services env) kv (\<lambda>_. False) (wrappingKey env)"
    "rep (services env) (wrappingKey env) (kv (pdb (store st))) A"
    "maxBodyBytes env \<le> int maxStoredDocBytes" "enoughRandom (wld (store st))" "enoughRandom (wld (store st1))"
    "forDoc n i r1" "forDoc n i r2" "validName n" "validID i" "\<not> stopping st"
    "changesIf match (intentOf env r1)" "changesIf match (intentOf env r2)" "namesRevision match"
    "serve muxAnswer env r1 st = (resp1, st1)" "respStatus resp1 \<in> {200, 204}" "serve muxAnswer env r2 st1 = (resp2, st2)"
  shows "respStatus resp2 \<in> {404, 412} \<and>
    (\<exists>A'. rep (services env) (wrappingKey env) (kv (pdb (store st1))) A' \<and> rep (services env) (wrappingKey env) (kv (pdb (store st2))) A')"
proof -
  obtain A1 where A1: "rep (services env) (wrappingKey env) (kv (pdb (store st1))) A1" "docStep n i (intentOf env r1) A resp1 A1"
    by (rule serve_refines [OF assms(1-4,6,8-10,14)])
  have "api_laws env kv (\<lambda>_. False)" using assms(1) by (simp add: api_laws_def)
  from api_laws.serve_keeps [OF this, of st muxAnswer r1] assms(10,14) have s: "\<not> stopping st1" by (simp add: keeps_def)
  obtain A2 where A2: "rep (services env) (wrappingKey env) (kv (pdb (store st2))) A2" "docStep n i (intentOf env r2) A1 resp2 A2"
    by (rule serve_refines [OF assms(1) A1(1) assms(3,5,7-9) s assms(16)])
  have "\<forall>a d. docAt A1 n i = Some (a, d) \<longrightarrow> \<not> matchRevision match (docRev d)"
    by (rule change_moves_on [OF A1(2) assms(11,13,15)]) (rule intent_refusals)
  from stale_change [OF A2(2) assms(12) this] A1(1) A2(1) show ?thesis by blast
qed

section \<open>Two requests on the sample server\<close>

lemma trimLeft_quote: "spaceAt seqs s = 0 \<Longrightarrow> trimLeft seqs s = s"
  by (subst trimLeft.simps) simp

lemma formatETag_named:
  assumes "length rv = 16"
  shows "parseIfMatch [formatETag rv] = Inr (noMatch\<lparr>condSet := True, matchRev := rv\<rparr>)"
proof -
  obtain x where x: "formatETag rv = 34 # x @ [34]" by (simp add: formatETag_def)
  have "spaceAt spaceSeqs (34 # y) = 0" "spaceAt (map rev spaceSeqs) (34 # y) = 0" for y
    by (simp_all add: spaceAt_def spaceSeqs_def)
  then have t: "trimSpace (formatETag rv) = formatETag rv" by (simp add: trimSpace_def x trimLeft_quote)
  have "formatETag rv \<noteq> str ''*''" by (simp add: x str_def)
  moreover have "parseETag (formatETag rv) = Inr rv" using assms by (simp add: parseETag_formatETag)
  ultimately show ?thesis by (simp add: parseIfMatch_def t)
qed

definition named :: "revision \<Rightarrow> matchCond" where
  "named rv = noMatch\<lparr>condSet := True, matchRev := rv\<rparr>"

definition conditional :: "bytes \<Rightarrow> bytes \<Rightarrow> revision \<Rightarrow> request" where
  "conditional method body rv = (sampleRequest method body)\<lparr>ifMatch := [formatETag rv]\<rparr>"

lemma forDoc_conditional: "forDoc sampleDB sampleID (conditional m body rv)"
  by (simp add: conditional_def sampleRequest_def forDoc_def)

lemma conditional_intents:
  assumes "length rv = 16"
  shows "intentOf memEnv (conditional methodDelete [] rv) = RemoveDoc (named rv)"
    "intentOf memEnv (conditional methodPut (str ''{ }'') rv) = WriteDoc ''invalid_document'' (named rv) (\<lambda>_. Inr (str ''{}''))"
proof -
  have "requestDoc memEnv (conditional methodPut (str ''{ }'') rv) = requestDoc memEnv (sampleRequest methodPut (str ''{ }''))"
    by (simp add: requestDoc_def requestBody_def conditional_def)
  then show "intentOf memEnv (conditional methodPut (str ''{ }'') rv) = WriteDoc ''invalid_document'' (named rv) (\<lambda>_. Inr (str ''{}''))"
    using sample_accepted methods_distinct formatETag_named [OF assms]
    by (simp add: intentOf_def ifMatching_def orRefuse_def named_def) (simp add: conditional_def)
  show "intentOf memEnv (conditional methodDelete [] rv) = RemoveDoc (named rv)"
    using methods_distinct formatETag_named [OF assms] by (simp add: intentOf_def ifMatching_def conditional_def named_def)
qed

lemma deleteDoc_wld: "wld (snd (deleteDoc E wk n i match s)) = wld s"
proof -
  have "wp (deleteDoc E wk n i match) (\<lambda>_ s'. wld s' = wld s) s"
    unfolding deleteDoc_def batchM_def Let_def by (auto simp: wp_simps split: sum.splits)
  then show ?thesis by (simp add: wp_def split: prod.splits)
qed

lemma delete_wld:
  assumes "forDoc n i r" "validName n" "validID i" "\<not> stopping st" "reqMethod r = methodDelete"
  shows "wld (store (snd (serve muxAnswer env r st))) = wld (store st)"
proof -
  have "resource docHandlers (reqMethod r) = HDeleteDoc"
    unfolding assms(5) using methods_distinct by (simp add: resource_def docHandlers_def)
  then show ?thesis unfolding serve_doc [OF assms(1-4)]
    by (auto simp: apiDeleteDoc_def onStore_run deleteDoc_wld split: option.splits sum.splits)
qed

theorem lost_update_prevented_witness:
  "\<exists>rv. let (resp1, st1) = serve (\<lambda>_. notFound) memEnv (conditional methodDelete [] rv) docServer in
     respStatus resp1 = 204 \<and>
     respStatus (fst (serve (\<lambda>_. notFound) memEnv (conditional methodPut (str ''{ }'') rv) st1)) \<in> {404, 412}"
proof -
  obtain k rv where r: "rep memServices memKey (map_of (pdb docSys))
     [sampleDB \<mapsto> \<lparr>aKey = k, aDefs = sampleDefs, aDocs = [sampleID \<mapsto> \<lparr>docJson = sampleJson, docRev = rv\<rparr>]\<rparr>]"
    (is "rep _ _ _ ?A") using sample_doc by blast
  from r have l: "length rv = 16" by (auto simp: rep_def wfState_def wfDB_def split: if_splits)
  let ?r1 = "conditional methodDelete [] rv" and ?r2 = "conditional methodPut (str ''{ }'') rv"
  let ?s1 = "serve (\<lambda>_. notFound) memEnv ?r1 docServer"
  let ?s2 = "serve (\<lambda>_. notFound) memEnv ?r2 (snd ?s1)"
  have S: "store_api (services memEnv) map_of (\<lambda>_. False) (wrappingKey memEnv)" by (simp add: mem_store.store_api_axioms)
  have R: "rep (services memEnv) (wrappingKey memEnv) (map_of (pdb (store docServer))) ?A" using r by simp
  have M: "maxBodyBytes memEnv \<le> int maxStoredDocBytes" by (simp add: maxStoredDocBytes_def)
  have W: "enoughRandom (wld (store docServer))" using doc_random by simp
  have "reqMethod ?r1 = methodDelete" by (simp add: conditional_def)
  from delete_wld [OF forDoc_conditional sample_valid(1,3) docServer_simps(3) this, of "\<lambda>_. notFound" memEnv] W
  have W1: "enoughRandom (wld (store (snd ?s1)))" by simp
  obtain A' where "docStep sampleDB sampleID (RemoveDoc (named rv)) ?A (fst ?s1) A'"
    using serve_refines [OF S R M W forDoc_conditional sample_valid(1,3) docServer_simps(3), of "\<lambda>_. notFound" methodDelete "[]" rv]
      conditional_intents(1) [OF l] by (metis prod.collapse)
  then have d: "respStatus (fst ?s1) = 204" by (simp add: docStep_def docAt_def matchRevision_def named_def)
  have "respStatus (fst ?s2) \<in> {404, 412}"
    by (rule lost_update_prevented [where st = docServer and ?r1.0 = ?r1 and ?r2.0 = ?r2 and ?st2.0 = "snd ?s2" and match = "named rv"
        and muxAnswer = "\<lambda>_. notFound" and ?resp1.0 = "fst ?s1", OF S R M W W1 forDoc_conditional forDoc_conditional
        sample_valid(1,3) docServer_simps(3), THEN conjunct1])
      (use d conditional_intents [OF l] in \<open>simp_all add: changesIf_def namesRevision_def named_def noMatch_def\<close>)
  with d show ?thesis by (intro exI [of _ rv]) (simp add: Let_def prod.case_eq_if)
qed

end
