(* ===== verification/Restart_Laws.thy ===== *)
theory Restart_Laws
  imports Api_Properties Crypto_Properties
begin

text \<open>
  What survives a restart: the record that verifies the master key stays in place while the
  server runs, so the store opens again under the same wrapping key, and runs one after another
  answer and store what one server does that is never restarted.
\<close>

section \<open>Opening the store\<close>

text \<open>The record in a store that was initialised with this master key.\<close>

definition metaFor :: "'db services \<Rightarrow> bytes \<Rightarrow> bytes \<Rightarrow> (bytes \<rightharpoonup> bytes) \<Rightarrow> bool" where
  "metaFor E mk wk m \<longleftrightarrow> length wk = 32 \<and>
     (\<exists>salt nonce. length salt = 32 \<and> length nonce = 12 \<and> deriveWrapKey E mk salt = Inr wk \<and>
        m storeMetaKey = Some (metaHeader salt nonce @
          gcmSeal E wk nonce (storeVerifier E) (recordAD storeADInfo storeMetaKey (metaHeader salt nonce))))"

lemma rep_only_meta: "rep E wk [storeMetaKey \<mapsto> v] Map.empty"
  by (simp add: rep_def wfState_def)

lemma loadMasterKey_length: "loadMasterKey f = Inr mk \<Longrightarrow> length mk = 32"
  by (cases f) (auto simp: loadMasterKey_def keySize_def split: option.splits if_splits)

context keyed_store
begin

lemma openStore_fresh:
  assumes "kv db = Map.empty" "length mk = 32" "44 \<le> length (entropy w)"
  obtains wk s where "openStore E (Inr db) mk w = Inr (wk, s)" "metaFor E mk wk (kv (pdb s))" "rep E wk (kv (pdb s)) Map.empty"
proof -
  from initStoreCrypto_fresh [of "\<lparr>pdb = db, wld = w\<rparr>" mk] assms obtain wk s salt nonce where
    k: "initStoreCrypto E mk \<lparr>pdb = db, wld = w\<rparr> = (Inr wk, s)" "length wk = 32" "deriveWrapKey E mk salt = Inr wk"
    "length salt = 32" "length nonce = 12" "kv (pdb s) = [storeMetaKey \<mapsto> metaHeader salt nonce @
      gcmSeal E wk nonce (storeVerifier E) (recordAD storeADInfo storeMetaKey (metaHeader salt nonce))]"
    by auto
  then show thesis by (intro that [of wk s]) (auto simp: openStore_def metaFor_def rep_only_meta)
qed

lemma openStore_again:
  assumes "metaFor E mk wk (kv db)" "length mk = 32"
  shows "openStore E (Inr db) mk w = Inr (wk, \<lparr>pdb = db, wld = w\<rparr>)"
proof -
  from assms(1) obtain salt nonce where "length salt = 32" "length nonce = 12" "deriveWrapKey E mk salt = Inr wk" "length wk = 32"
    "kv db storeMetaKey = Some (metaHeader salt nonce @
       gcmSeal E wk nonce (storeVerifier E) (recordAD storeADInfo storeMetaKey (metaHeader salt nonce)))"
    unfolding metaFor_def by blast
  with initStoreCrypto_again [of "\<lparr>pdb = db, wld = w\<rparr>" salt nonce wk mk] assms(2) show ?thesis by (simp add: openStore_def)
qed

end

section \<open>A run of the server\<close>

lemma keeps_stop: "keeps env kv (stop st) st' \<Longrightarrow> goodStore env kv (store st) \<Longrightarrow>
    goodStore env kv (store st') \<and> kv (pdb (store st')) storeMetaKey = kv (pdb (store st)) storeMetaKey"
  by (simp add: keeps_def stop_def)

context api_laws
begin

lemma runServer_good:
  assumes "runServer muxAnswer env h st = (r, resps, st')" "goodStore env kv (store st)"
  shows "goodStore env kv (store st') \<and> kv (pdb (store st')) storeMetaKey = kv (pdb (store st)) storeMetaKey"
proof -
  obtain rs st1 where s1: "serveAll muxAnswer env (served h) st = (rs, st1)" by fastforce
  obtain ls st2 where s2: "serveAll muxAnswer env (drained h) (stop st1) = (ls, st2)" by fastforce
  have k1: "keeps env kv st st1" using serveAll_keeps [of st muxAnswer "served h"] s1 by simp
  have k2: "keeps env kv (stop st1) st2" using serveAll_keeps [of "stop st1" muxAnswer "drained h"] s2 by simp
  from k1 assms(2) have g: "goodStore env kv (store st1)" "kv (pdb (store st1)) storeMetaKey = kv (pdb (store st)) storeMetaKey"
    by (simp_all add: keeps_def)
  with keeps_stop [OF k2 g(1)] assms(1) s1 s2 show ?thesis
    by (auto simp: runServer_def split: option.splits serveErr.splits)
qed

end

section \<open>Without a restart\<close>

text \<open>
  The reference: one server, with one wrapping key, that keeps its store open.  It serves the
  requests of every run and answers those that arrive during a shutdown with an error, without
  looking at them.
\<close>

definition unavailable :: response where
  "unavailable = writeError [] 503 ''service_unavailable'' ''Service is unavailable''"

fun neverRestarted ::
  "(request \<Rightarrow> response) \<Rightarrow> ('db, 'p, 'q) apiEnv \<Rightarrow> (world \<times> serverRun) list \<Rightarrow> 'db \<Rightarrow> response list list \<times> 'db" where
  "neverRestarted muxAnswer env [] db = ([], db)"
| "neverRestarted muxAnswer env ((w, h) # hs) db =
     (let (resps, st) = serveAll muxAnswer env (served h) (newAPIWithBulk \<lparr>pdb = db, wld = w\<rparr>);
          late = (if servedEnd h = None then replicate (length (drained h)) unavailable else []);
          (rest, db') = neverRestarted muxAnswer env hs (pdb (store st))
      in ((resps @ late) # rest, db'))"

lemma serveAll_stopping:
  "stopping st \<Longrightarrow> serveAll muxAnswer env rs st = (replicate (length rs) unavailable, st)"
  by (induction rs) (simp_all add: serve_defs unavailable_def)

lemma runServer_neverRestarted:
  assumes "runServer muxAnswer env h (newAPIWithBulk s) = (r, resps, st)"
    "neverRestarted muxAnswer env hs (pdb (store st)) = (rest, db')"
  shows "neverRestarted muxAnswer env ((wld s, h) # hs) (pdb s) = (resps # rest, db')"
proof -
  have eq: "\<lparr>pdb = pdb s, wld = wld s\<rparr> = s" by simp
  obtain rs st1 where "serveAll muxAnswer env (served h) (newAPIWithBulk s) = (rs, st1)" by fastforce
  moreover have "serveAll muxAnswer env (drained h) (stop st1) = (replicate (length (drained h)) unavailable, stop st1)"
    by (rule serveAll_stopping) (simp add: stop_def)
  ultimately show ?thesis using assms
    by (auto simp: runServer_def stop_def eq split: option.splits serveErr.splits)
qed

section \<open>Runs\<close>

text \<open>A store that opens with the master key and holds a represented state.\<close>

definition goodData :: "'db services \<Rightarrow> ('db \<Rightarrow> bytes \<rightharpoonup> bytes) \<Rightarrow> bytes \<Rightarrow> int \<Rightarrow> bytes \<Rightarrow> 'db \<Rightarrow> bool" where
  "goodData E kv mk limit wk db \<longleftrightarrow>
     metaFor E mk wk (kv db) \<and> (\<exists>A. rep E wk (kv db) A \<and> canonicalDocs limit A)"

lemma goodStore_serverEnv:
  "goodStore (serverEnv E J P version cfg wk) kv s \<longleftrightarrow> (\<exists>A. rep E wk (kv (pdb s)) A \<and> canonicalDocs (cfgMaxBody cfg) A)"
  by (simp add: goodStore_def serverEnv_def)

lemma run_opened:
  assumes "pebble_api E kv (\<lambda>_. False)" "record_api E" "loadMasterKey (readFile (cfgKeyFile cfg)) = Inr mk"
    "openStore E (pebbleOpen (cfgDataPath cfg)) mk w = Inr (wk, s)" "goodData E kv mk (cfgMaxBody cfg) wk (pdb s)"
  obtains r r' resps st where
    "runServer muxAnswer (serverEnv E J P version cfg wk) h (newAPIWithBulk s) = (r', resps, st)"
    "run E J P version muxAnswer cfg readFile pebbleOpen w h = (r, Some (resps, pdb (store st)))"
    "goodData E kv mk (cfgMaxBody cfg) wk (pdb (store st))"
proof -
  let ?env = "serverEnv E J P version cfg wk"
  have "store_api E kv (\<lambda>_. False) wk"
    using assms(1,2,5) by (intro store_api.intro) (auto simp: store_api_axioms_def goodData_def metaFor_def)
  then have l: "api_laws ?env kv (\<lambda>_. False)" by (simp add: api_laws_def serverEnv_def)
  obtain r' resps st where h: "runServer muxAnswer ?env h (newAPIWithBulk s) = (r', resps, st)" by (metis prod.exhaust)
  have "goodStore ?env kv (store (newAPIWithBulk s))"
    using assms(5) by (simp add: goodStore_serverEnv goodData_def newAPIWithBulk_def)
  from api_laws.runServer_good [OF l h this] assms(5) have "goodData E kv mk (cfgMaxBody cfg) wk (pdb (store st))"
    by (simp add: goodStore_serverEnv goodData_def metaFor_def newAPIWithBulk_def)
  with that [OF h] assms(3,4) h show thesis by (auto simp: run_def)
qed

lemma runs_neverRestarted:
  assumes "pebble_api E kv (\<lambda>_. False)" "record_api E" "loadMasterKey (readFile (cfgKeyFile cfg)) = Inr mk" "length mk = 32"
    "goodData E kv mk (cfgMaxBody cfg) wk db" "runs E J P version muxAnswer cfg readFile hs db = (outs, db')"
  shows "neverRestarted muxAnswer (serverEnv E J P version cfg wk) hs db = (map (the \<circ> snd) outs, db') \<and>
    (\<forall>(r, resps) \<in> set outs. resps \<noteq> None) \<and> goodData E kv mk (cfgMaxBody cfg) wk db'"
  using assms(5,6)
proof (induction hs arbitrary: db outs)
  case (Cons x hs)
  obtain w h where x: "x = (w, h)" by fastforce
  have k: "keyed_store E kv" using assms(1,2) by (simp add: keyed_store_def record_api_def)
  have "metaFor E mk wk (kv db)" using Cons.prems(1) by (simp add: goodData_def)
  from keyed_store.openStore_again [OF k this assms(4)]
  have o: "openStore E ((\<lambda>_. Inr db) (cfgDataPath cfg)) mk w = Inr (wk, \<lparr>pdb = db, wld = w\<rparr>)" .
  have "goodData E kv mk (cfgMaxBody cfg) wk (pdb \<lparr>pdb = db, wld = w\<rparr>)" using Cons.prems(1) by simp
  from run_opened [where pebbleOpen = "\<lambda>_. Inr db" and cfg = cfg and readFile = readFile, OF assms(1-3) o this,
      of muxAnswer J P version h] obtain r r' resps st where
    h: "runServer muxAnswer (serverEnv E J P version cfg wk) h (newAPIWithBulk \<lparr>pdb = db, wld = w\<rparr>) = (r', resps, st)" and
    run: "run E J P version muxAnswer cfg readFile (\<lambda>_. Inr db) w h = (r, Some (resps, pdb (store st)))" and
    g: "goodData E kv mk (cfgMaxBody cfg) wk (pdb (store st))" .
  obtain rest where rs: "runs E J P version muxAnswer cfg readFile hs (pdb (store st)) = (rest, db')" "outs = (r, Some resps) # rest"
    using Cons.prems(2) run by (auto simp: x split: prod.splits)
  from Cons.IH [OF g rs(1)] runServer_neverRestarted [OF h, of hs] rs(2) show ?case by (auto simp: x)
qed simp

text \<open>The first run, on an empty store, continues as a server does whose store is initialised.\<close>

lemma runs_fresh:
  assumes "pebble_api E kv (\<lambda>_. False)" "record_api E" "loadMasterKey (readFile (cfgKeyFile cfg)) = Inr mk"
    "kv db = Map.empty" "44 \<le> length (entropy w)"
  obtains wk s where "openStore E (Inr db) mk w = Inr (wk, s)"
    "\<And>hs outs db'. runs E J P version muxAnswer cfg readFile ((w, h) # hs) db = (outs, db') \<Longrightarrow>
       neverRestarted muxAnswer (serverEnv E J P version cfg wk) ((wld s, h) # hs) (pdb s) = (map (the \<circ> snd) outs, db') \<and>
       (\<forall>(r, resps) \<in> set outs. resps \<noteq> None) \<and> goodData E kv mk (cfgMaxBody cfg) wk db'"
proof -
  have mk: "length mk = 32" by (rule loadMasterKey_length [OF assms(3)])
  have k: "keyed_store E kv" using assms(1,2) by (simp add: keyed_store_def record_api_def)
  from keyed_store.openStore_fresh [OF k assms(4) mk assms(5)] obtain wk s where
    o: "openStore E ((\<lambda>_. Inr db) (cfgDataPath cfg)) mk w = Inr (wk, s)" and m: "metaFor E mk wk (kv (pdb s))"
    and rp: "rep E wk (kv (pdb s)) Map.empty" by blast
  from m rp have "goodData E kv mk (cfgMaxBody cfg) wk (pdb s)"
    by (auto simp: goodData_def canonicalDocs_def intro!: exI [of _ Map.empty])
  from run_opened [where pebbleOpen = "\<lambda>_. Inr db" and cfg = cfg and readFile = readFile, OF assms(1-3) o this,
      of muxAnswer J P version h] obtain r r' resps st where
    h: "runServer muxAnswer (serverEnv E J P version cfg wk) h (newAPIWithBulk s) = (r', resps, st)" and
    run: "run E J P version muxAnswer cfg readFile (\<lambda>_. Inr db) w h = (r, Some (resps, pdb (store st)))" and
    g: "goodData E kv mk (cfgMaxBody cfg) wk (pdb (store st))" .
  show thesis
  proof (rule that [OF o])
    fix hs outs db'
    assume "runs E J P version muxAnswer cfg readFile ((w, h) # hs) db = (outs, db')"
    then obtain rest where rs: "runs E J P version muxAnswer cfg readFile hs (pdb (store st)) = (rest, db')" "outs = (r, Some resps) # rest"
      using run by (auto split: prod.splits)
    from runs_neverRestarted [OF assms(1-3) mk g rs(1)] runServer_neverRestarted [OF h, of hs] rs(2)
    show "neverRestarted muxAnswer (serverEnv E J P version cfg wk) ((wld s, h) # hs) (pdb s) = (map (the \<circ> snd) outs, db') \<and>
       (\<forall>(r, resps) \<in> set outs. resps \<noteq> None) \<and> goodData E kv mk (cfgMaxBody cfg) wk db'" by auto
  qed
qed

section \<open>A sample key file\<close>

lemma stdVal_zero: "stdVal 65 = Some 0" by (simp add: stdVal_def b64Val_def)

lemma stdDecode_zeros: "stdDecode r = Some bs \<Longrightarrow> stdDecode (65 # 65 # 65 # 65 # r) = Some (0 # 0 # 0 # bs)"
  by (simp add: stdVal_zero)

lemma zero_key_text: "trimSpace (replicate 43 65 @ [61,10]) = replicate 43 65 @ [61]" by code_simp

lemma zero_key: "stdDecode (replicate (4 * n + 3) 65 @ [61]) = Some (replicate (3 * n + 2) 0)"
proof (induction n)
  case 0
  have "replicate 3 (65 :: byte) = [65, 65, 65]" "replicate 2 (0 :: byte) = [0, 0]" by code_simp+
  then show ?case by (simp add: stdVal_zero)
next
  case (Suc n)
  have "4 * Suc n + 3 = Suc (Suc (Suc (Suc (4 * n + 3))))" "3 * Suc n + 2 = Suc (Suc (Suc (3 * n + 2)))" by simp_all
  then show ?case using stdDecode_zeros [OF Suc] by (simp only: replicate_Suc append_Cons)
qed

lemma zero_key_decodes: "stdDecode (replicate 43 65 @ [61]) = Some (replicate 32 0)" using zero_key [of 10] by simp

lemma zero_key_loads: "loadMasterKey (Inr (replicate 43 65 @ [61, 10])) = Inr (replicate 32 0)"
  by (simp add: loadMasterKey_def zero_key_text zero_key_decodes keySize_def)

section \<open>Property\<close>

text \<open>
  C8: restarts keep the data.  The first run initialises an empty store.  However many runs with the
  same key file follow, whatever requests they serve and however they end, the store opens after
  each of them, unchanged and under the wrapping key of the first; the responses of all runs and the
  contents of the store at the end are those of one server that is never restarted, where
  requests that arrive during a shutdown are answered with 503 and change nothing; and the store
  represents a state whose documents are canonical and decrypt under that key.  Pebble reports
  no faults, and the source of randomness has the 44 bytes of the first initialisation.
\<close>

theorem restarts_keep_data:
  assumes "pebble_api E kv (\<lambda>_. False)" "record_api E" "loadMasterKey (readFile (cfgKeyFile cfg)) = Inr mk"
    "kv db = Map.empty" "44 \<le> length (entropy w)"
    "runs E J P version muxAnswer cfg readFile ((w, h) # hs) db = (outs, db')"
  shows "\<exists>wk s. openStore E (Inr db) mk w = Inr (wk, s) \<and>
    (\<forall>k w'. let dbk = snd (runs E J P version muxAnswer cfg readFile ((w, h) # take k hs) db)
       in openStore E (Inr dbk) mk w' = Inr (wk, \<lparr>pdb = dbk, wld = w'\<rparr>)) \<and>
    (\<forall>(r, resps) \<in> set outs. resps \<noteq> None) \<and>
    neverRestarted muxAnswer (serverEnv E J P version cfg wk) ((wld s, h) # hs) (pdb s) = (map (the \<circ> snd) outs, db') \<and>
    (\<exists>A. rep E wk (kv db') A \<and> canonicalDocs (cfgMaxBody cfg) A)"
proof -
  note again = keyed_store.openStore_again [OF _ _ loadMasterKey_length [OF assms(3)]]
  have k: "keyed_store E kv" using assms(1,2) by (simp add: keyed_store_def record_api_def)
  from runs_fresh [where cfg = cfg and readFile = readFile and kv = kv and db = db, OF assms(1-5), of J P version muxAnswer h] obtain wk s where
    o: "openStore E (Inr db) mk w = Inr (wk, s)" and
    r: "\<And>hs outs db'. runs E J P version muxAnswer cfg readFile ((w, h) # hs) db = (outs, db') \<Longrightarrow>
       neverRestarted muxAnswer (serverEnv E J P version cfg wk) ((wld s, h) # hs) (pdb s) = (map (the \<circ> snd) outs, db') \<and>
       (\<forall>(r, resps) \<in> set outs. resps \<noteq> None) \<and> goodData E kv mk (cfgMaxBody cfg) wk db'" by blast
  have "metaFor E mk wk (kv (snd (runs E J P version muxAnswer cfg readFile ((w, h) # hs') db)))" for hs'
    using r [OF prod.collapse [symmetric], of hs'] by (simp only: goodData_def)
  with o r [OF assms(6)] again [OF k] show ?thesis unfolding goodData_def Let_def by blast
qed

definition sampleRun :: "request list \<Rightarrow> serverRun" where
  "sampleRun rs =
     \<lparr>served = rs, servedEnd = None, drained = rs, shutdownErr = None, serverClose = None, drainedEnd = ServerClosed\<rparr>"

definition sampleKeyFile :: "bytes \<Rightarrow> bytes result" where
  "sampleKeyFile path = Inr (replicate 43 65 @ [61, 10])"

theorem restarts_keep_data_witness:
  "\<exists>wk s. openStore memServices (Inr []) (replicate 32 0) sampleWorld = Inr (wk, s) \<and>
     neverRestarted (\<lambda>_. notFound) (serverEnv memServices memPaths memPatches (str ''v'') defaultConfig wk)
       [(wld s, sampleRun [sampleRequest methodPut (str ''{}'')]), (sampleWorld, sampleRun [])] (pdb s) =
     (map (the \<circ> snd) (fst (runs memServices memPaths memPatches (str ''v'') (\<lambda>_. notFound) defaultConfig sampleKeyFile
        [(sampleWorld, sampleRun [sampleRequest methodPut (str ''{}'')]), (sampleWorld, sampleRun [])] [])),
      snd (runs memServices memPaths memPatches (str ''v'') (\<lambda>_. notFound) defaultConfig sampleKeyFile
        [(sampleWorld, sampleRun [sampleRequest methodPut (str ''{}'')]), (sampleWorld, sampleRun [])] []))"
proof -
  let ?runs = "runs memServices memPaths memPatches (str ''v'') (\<lambda>_. notFound) defaultConfig sampleKeyFile
     [(sampleWorld, sampleRun [sampleRequest methodPut (str ''{}'')]), (sampleWorld, sampleRun [])] []"
  have key: "loadMasterKey (sampleKeyFile (cfgKeyFile defaultConfig)) = Inr (replicate 32 0)"
    unfolding sampleKeyFile_def by (rule zero_key_loads)
  have w: "44 \<le> length (entropy sampleWorld)" by (simp add: sample_entropy)
  have e: "map_of [] = Map.empty" by simp
  have "?runs = (fst ?runs, snd ?runs)" by (rule prod.collapse [symmetric])
  from restarts_keep_data [where readFile = sampleKeyFile and cfg = defaultConfig and kv = map_of and db = "[]",
      OF mem_pebble.pebble_api_axioms mem_record.record_api_axioms key e w this]
  show ?thesis by blast
qed

end
