(* ===== verification/Spec2Isabelle.thy ===== *)
theory Spec2Isabelle
  imports Api_Docs Api_Laws Api_Properties Api_Refine Base64 Bulk Bulk_Laws Bulk_Properties Bulk_Roundtrip Byte_Codec Config Config_Laws Create_Ends Crypto Crypto_Laws Crypto_Properties Cursor_Laws Cursors Http_Api Http_Routes Import_Laws Index_Defs Index_Entry Index_Laws Index_Order Index_Query Index_Value Json Json_Laws Kantan_Prelude Key_Layout List_Laws Lock_Laws Locks Lost_Updates Meta_Laws Mime Patch Path_Match Path_Pages Path_Pointer Path_Properties Path_Query Path_Scan Query_Laws Query_Properties Range_Laws Reference_Services Request Restart_Laws Route_Laws Scan_Laws Services Startup Store Store_Create Store_Databases Store_Properties Store_Reads Store_Refine Store_Spec Store_Writes Validation
begin

text \<open>
  KantanDB is a document database server written in Go: databases hold JSON documents under
  generated IDs, every version of a document has a revision, and databases have secondary
  indexes on JSON Pointers.  Documents are encrypted at rest and kept in Pebble, an embedded
  key-value store; clients talk HTTP.  This development models the program in the order of its
  layers and proves what each layer promises to the one above it.  The properties named in
  the manifest stand after a block of text that carries their number.

  \<^bold>\<open>Foundations.\<close>  \<open>Kantan_Prelude\<close>: bytes as 8-bit words, Go strings as byte lists, the
  sentinel errors (a Go error is the list of sentinels in its chain) and results as a sum type.
  \<open>Byte_Codec\<close>, \<open>Base64\<close>, \<open>Json\<close>, \<open>Mime\<close>: what the program uses of \<open>encoding/binary\<close>,
  \<open>encoding/base64\<close>, \<open>unicode/utf8\<close>, \<open>encoding/json\<close> and \<open>mime\<close>.  \<open>Services\<close>: the packages
  outside of the repository (Pebble, Zstandard, HKDF) and the cryptographic primitives as a
  record of functions that the definitions take as an argument, with the documented behaviour
  as locales (\<open>pebble_api\<close>, \<open>crypto_api\<close>, \<open>zstd_api\<close>) in which Pebble may report the faults
  of a predicate \<open>F\<close>; the state-and-error monad of the storage operations; and weakest
  preconditions.  \<open>Reference_Services\<close> implements the record in memory, interprets the locales
  and carries the witnesses.

  \<^bold>\<open>Validation and identifiers\<close> (validation.go, id.go).  \<open>Validation\<close>: names, document IDs, body
  limits, entity tags, \<open>If-Match\<close> and the generation of UUIDs from explicit randomness and time;
  IDs are valid and ordered by time, entity tags are exactly the texts the program prints.
  \<open>Json_Laws\<close>: \<open>validateDoc\<close> yields a canonical form that decodes to the same object and is a
  fixed point.

  \<^bold>\<open>Keys and index values\<close> (storage.go, index.go).  \<open>Key_Layout\<close>: the key builders and
  \<open>prefixEnd\<close>; keys of different kinds and databases never collide, and a prefix scan covers
  exactly the keys with the prefix.  \<open>Index_Value\<close>, \<open>Index_Order\<close>, \<open>Index_Entry\<close>: the encodings
  of indexed values, whose byte order is the order of the values (exact rationals for numbers)
  and which delimit themselves (locale \<open>sortable_code\<close>, interpreted for strings and numbers).
  \<open>Index_Defs\<close>, \<open>Index_Laws\<close>: index definitions, JSON Pointers and the batches that maintain the
  entries of a document.

  \<^bold>\<open>Encryption at rest\<close> (crypto.go, document.go, format.go).  \<open>Crypto\<close>, \<open>Crypto_Laws\<close>,
  \<open>Crypto_Properties\<close>: store metadata, wrapped database keys, sealed documents; what opens is
  exactly what was sealed under that key for that place.

  \<^bold>\<open>The store\<close> (storage.go).  \<open>Store\<close>: every storage operation on a state of Pebble, randomness
  and time.  \<open>Store_Spec\<close>: the abstract state (named databases with definitions and documents),
  what each operation promises on it, and the relation \<open>rep\<close> that a key-value map represents
  an abstract state: records decrypt to the documents and there is exactly one index entry per
  indexed value.  \<open>Store_Reads\<close>, \<open>Store_Writes\<close>, \<open>Store_Refine\<close>, \<open>Store_Databases\<close>,
  \<open>Store_Create\<close>, \<open>Import_Laws\<close> prove the refinement in the locale \<open>store_api\<close>: every operation
  returns what its specification says, and under a fault leaves the old state or the new one.
  \<open>Store_Create\<close> also says which of the drawn IDs and which random bytes a new document gets.
  \<open>Store_Properties\<close> states it for each operation; \<open>Create_Ends\<close> shows that the loop that draws IDs
  ends with the first free one.  \<open>Meta_Laws\<close>: no operation touches the record
  that verifies the master key.

  \<^bold>\<open>Locks\<close> (storage.go, index.go, query.go).  \<open>Locks\<close>, \<open>Lock_Laws\<close>: the lock stripes; for each
  storage operation the locks it takes and releases and the work it does in between, on a
  database or on documents; threads as a step relation with the writer preference of
  \<open>sync.RWMutex\<close>.  In the locale \<open>lock_discipline\<close> reachable states never deadlock; in the locale
  \<open>guarded_work\<close>, which extends it, no two threads do conflicting work at once.  The work itself is
  only named there: what it does to the store is the sequential model of \<open>Store\<close>.

  \<^bold>\<open>Queries\<close> (index.go, query.go, query\_cursor.go, path\_cursor.go).  \<open>Index_Query\<close>,
  \<open>Scan_Laws\<close>, \<open>Query_Laws\<close>, \<open>Range_Laws\<close>, \<open>List_Laws\<close>, \<open>Query_Properties\<close>: equality and range
  queries, lists and exports return exactly the page that the abstract state defines, and
  following the pages is complete.  \<open>Cursors\<close>, \<open>Cursor_Laws\<close>: cursors round-trip and are
  authentic (locale \<open>token_codec\<close>).  \<open>Path_Query\<close>: queries by JSONPath, with the JSONPath package
  as a parameter; \<open>Path_Pointer\<close>, \<open>Path_Match\<close>, \<open>Path_Scan\<close>, \<open>Path_Pages\<close>, \<open>Path_Properties\<close>: an
  index plan and a scan find the same documents (locales \<open>path_api\<close>, \<open>path_store\<close>), paging
  through either is complete, and the size check bounds the work on a document.

  \<^bold>\<open>Bulk transfer\<close> (bulk.go).  \<open>Bulk\<close>, \<open>Bulk_Laws\<close>: the buffered reader of imports against a
  reference on whole lines, and the stream of exports.  \<open>Bulk_Properties\<close>, \<open>Bulk_Roundtrip\<close>:
  imports are atomic, an export sends all documents, and an import reads them back.

  \<^bold>\<open>The HTTP API\<close> (server.go, patch.go).  \<open>Request\<close>, \<open>Patch\<close>: request parsing and patches, with
  the patch package as a parameter.  \<open>Http_Api\<close>: every handler, from a request and the state of
  the server to the response and the new state.  \<open>Http_Routes\<close>, \<open>Route_Laws\<close>: the registered
  patterns over a model of the routing tree of \<open>http.ServeMux\<close> amount to a table of resources
  and methods.  \<open>Api_Laws\<close>: whatever is served, the store stays a represented state of canonical
  documents and the bulk slots are given back (locale \<open>api_laws\<close>).  \<open>Api_Docs\<close>, \<open>Api_Refine\<close>: the
  resource of a document as an abstract machine, with the intent of a request read off the
  request and its effect on the abstract state, and that routing, handlers and store refine it.
  \<open>Api_Properties\<close>: the properties of the server, among them that without faults of Pebble no
  request for a document ends in an internal error.  \<open>Lost_Updates\<close>: of two conditional changes
  that name the same revision at most one takes effect.

  \<^bold>\<open>Configuration and startup\<close> (config.go, version.go, main.go).  \<open>Config\<close>, \<open>Config_Laws\<close>:
  the flags over a model of the package \<open>flag\<close>, and the bounds an accepted configuration keeps.
  \<open>Startup\<close>, \<open>Restart_Laws\<close>: a run of the program from the key file to the closed store;
  successive runs open the store under the same key, and answer and store what a server does that
  is never restarted.

  \<^bold>\<open>Bounds and fuel.\<close>  The JSON decoder takes fuel from the length of its input (twice the
  length and one), which is enough since every level consumes a byte (\<open>jsonDecode_fuel\<close>).  Loops
  that draw identifiers or revisions again after a collision recurse on the randomness that is left: the
  model's sources are finite lists, and running out of them is the error of \<open>rand.Read\<close>.  The
  clients that follow pages in the completeness theorems take as fuel the number of requests,
  and the theorems say how many are enough.  All other loops are structural or have a
  measure.

  \<^bold>\<open>Simplifications.\<close>  Storage operations and requests run one after another; concurrency is
  modelled for the locks.  Clearing key material in memory has no counterpart.  A Go run-time
  panic is the error \<open>GoPanic\<close>, which \<open>recover\<close> answers like other failures.  A response is what
  the handler writes; a failing connection is modelled for the stream of an export only.

  \<^bold>\<open>Not modelled.\<close>  Logging; \<open>storeOptions\<close>, which tunes Pebble; the response wrapper of
  \<open>recover\<close>, whose flag matters only for a panic after a partial response; timeouts of
  connections, sockets and signals, whose results are arguments of \<open>run\<close>;
  \<open>time.ParseDuration\<close>, which is an argument of \<open>parseConfig\<close>.
\<close>

end
